(* ===== verification/Prelude.thy ===== *)
theory Prelude
  imports Complex_Main "HOL-Library.Word" "HOL-Library.Signed_Division"
begin

section \<open>Prelude: results, Go integers, loops with early return\<close>

text \<open>
  What every component theory shares.  A fallible Go function returns a sum: \<open>Inl\<close> an error
  (or a panic), \<open>Inr\<close> the value.  A \<open>for\<close> loop whose body may return early is \<open>loop_res\<close>.
  Go's \<open>int\<close> and \<open>int64\<close> are integers with \<open>wrap64\<close> written where the code's arithmetic can
  leave the range; \<open>uint64\<close> is \<open>64 word\<close>.  A Go map that is only looked up is a partial
  function; a Go map that is ranged over is the association list of its entries in the order
  one \<open>range\<close> visits them (distinct keys), so that theorems can speak of every order.
\<close>

named_theorems go_defs \<open>definitions of the model that automation may unfold\<close>
named_theorems go_err \<open>facts about the error branches of the model's operations\<close>

type_synonym bytes = string
type_synonym u64 = "64 word"
type_synonym go_map = "(string \<times> string) list"

subsection \<open>Results\<close>

fun res_bind :: "'e + 'a \<Rightarrow> ('a \<Rightarrow> 'e + 'b) \<Rightarrow> 'e + 'b" where
  "res_bind (Inl e) f = Inl e"
| "res_bind (Inr x) f = f x"

fun map_err :: "('e \<Rightarrow> 'f) \<Rightarrow> 'e + 'a \<Rightarrow> 'f + 'a" where
  "map_err g (Inl e) = Inl (g e)"
| "map_err g (Inr x) = Inr x"

fun is_ok :: "'e + 'a \<Rightarrow> bool" where
  "is_ok (Inl e) = False"
| "is_ok (Inr x) = True"

lemma res_bind_Inr_iff:
  "res_bind r f = Inr y \<longleftrightarrow> (\<exists>x. r = Inr x \<and> f x = Inr y)"
  by (cases r) auto

lemma res_bind_Inl_iff:
  "res_bind r f = Inl e \<longleftrightarrow> r = Inl e \<or> (\<exists>x. r = Inr x \<and> f x = Inl e)"
  by (cases r) auto

lemma map_err_Inr_iff [simp]: "map_err g r = Inr y \<longleftrightarrow> r = Inr y"
  by (cases r) auto

lemma is_ok_iff: "is_ok r \<longleftrightarrow> (\<exists>x. r = Inr x)"
  by (cases r) auto

subsection \<open>Loops with early return\<close>

fun loop_res :: "('a \<Rightarrow> 's \<Rightarrow> 'e + 's) \<Rightarrow> 'a list \<Rightarrow> 's \<Rightarrow> 'e + 's" where
  "loop_res f [] s = Inr s"
| "loop_res f (x # xs) s = (case f x s of Inl e \<Rightarrow> Inl e | Inr s' \<Rightarrow> loop_res f xs s')"

lemma loop_res_append:
  "loop_res f (xs @ ys) s = res_bind (loop_res f xs s) (loop_res f ys)"
  by (induction xs arbitrary: s) (auto split: sum.splits)

text \<open>The loop rule: an invariant that every iteration keeps holds when the loop ends.\<close>

lemma loop_res_invariant:
  assumes "loop_res f xs s = Inr t"
    and "I s"
    and "\<And>x u v. x \<in> set xs \<Longrightarrow> I u \<Longrightarrow> f x u = Inr v \<Longrightarrow> I v"
  shows "I t"
  using assms
proof (induction xs arbitrary: s)
  case Nil
  then show ?case by simp
next
  case (Cons x xs)
  from Cons.prems(1) obtain u where u: "f x s = Inr u" "loop_res f xs u = Inr t"
    by (auto split: sum.splits)
  have "I u" using Cons.prems(2,3) u(1) by auto
  with u(2) show ?case using Cons.IH Cons.prems(3) by (metis list.set_intros(2))
qed

text \<open>A loop that also rewrites the elements it visits, in place.\<close>

fun loop_map :: "('a \<Rightarrow> 's \<Rightarrow> 'e + 's \<times> 'b) \<Rightarrow> 'a list \<Rightarrow> 's \<Rightarrow> 'e + 's \<times> 'b list" where
  "loop_map f [] s = Inr (s, [])"
| "loop_map f (x # xs) s =
     res_bind (f x s) (\<lambda>(s1, y). res_bind (loop_map f xs s1) (\<lambda>(s2, ys). Inr (s2, y # ys)))"

text \<open>If a projection of the state evolves on its own, the loop folds it.\<close>

lemma loop_map_proj:
  assumes "loop_map f xs s = Inr (t, ys)"
    and "\<And>x u v y. x \<in> set xs \<Longrightarrow> f x u = Inr (v, y) \<Longrightarrow> p v = g x (p u)"
  shows "p t = fold g xs (p s)"
  using assms
proof (induction xs arbitrary: s ys)
  case (Cons x xs)
  from Cons.prems(1) obtain u y zs where u: "f x s = Inr (u, y)" "loop_map f xs u = Inr (t, zs)"
    by (auto simp: res_bind_Inr_iff)
  have "p t = fold g xs (p u)" using Cons.IH[OF u(2)] Cons.prems(2) by auto
  also have "p u = g x (p s)" using Cons.prems(2) u(1) by auto
  finally show ?case by simp
qed simp

lemma loop_map_invariant:
  assumes "loop_map f xs s = Inr (t, ys)" and "I s"
    and "\<And>x u v y. x \<in> set xs \<Longrightarrow> I u \<Longrightarrow> f x u = Inr (v, y) \<Longrightarrow> I v"
  shows "I t"
  using assms
proof (induction xs arbitrary: s ys)
  case (Cons x xs)
  from Cons.prems(1) obtain u y zs where u: "f x s = Inr (u, y)" "loop_map f xs u = Inr (t, zs)"
    by (auto simp: res_bind_Inr_iff)
  then show ?case using Cons.IH[OF u(2)] Cons.prems(2,3) by auto
qed simp

text \<open>If every step succeeds, keeps \<open>I\<close> and relates the states by \<open>R\<close>, so does the loop.\<close>

lemma loop_map_total:
  assumes "I s" and "\<And>u. R [] u u" and "\<And>ps qs u v w. R ps u v \<Longrightarrow> R qs v w \<Longrightarrow> R (ps @ qs) u w"
    and "\<And>x u. x \<in> set xs \<Longrightarrow> I u \<Longrightarrow> \<exists>v y. f x u = Inr (v, y) \<and> I v \<and> R (g x) u v"
  shows "\<exists>t ys. loop_map f xs s = Inr (t, ys) \<and> I t \<and> R (concat (map g xs)) s t"
  using assms(1,4)
proof (induction xs arbitrary: s)
  case (Cons x xs)
  obtain u y where u: "f x s = Inr (u, y)" "I u" "R (g x) s u" using Cons.prems by fastforce
  obtain t ys where "loop_map f xs u = Inr (t, ys)" "I t" "R (concat (map g xs)) u t"
    using Cons.IH[OF u(2)] Cons.prems(2) by fastforce
  then show ?case using u(1) assms(3)[OF u(3)] by simp
qed (simp add: assms(2))

subsection \<open>Go integers\<close>

definition wrap64 :: "int \<Rightarrow> int" where
  "wrap64 x = (x + 2 ^ 63) mod 2 ^ 64 - 2 ^ 63"

definition max_int64 :: int where "max_int64 = 2 ^ 63 - 1"
definition min_int64 :: int where "min_int64 = - (2 ^ 63)"

lemma wrap64_range: "min_int64 \<le> wrap64 x \<and> wrap64 x \<le> max_int64"
  by (simp add: wrap64_def min_int64_def max_int64_def)

lemma wrap64_id [simp]: "- (2 ^ 63) \<le> x \<Longrightarrow> x < 2 ^ 63 \<Longrightarrow> wrap64 x = x"
  by (simp add: wrap64_def)

subsection \<open>Slice indexing\<close>

text \<open>Reading or writing a slice out of range panics.\<close>

datatype panic = IndexOutOfRange | NilDereference

definition slice_at :: "'a list \<Rightarrow> int \<Rightarrow> panic + 'a" where
  "slice_at xs i = (if 0 \<le> i \<and> i < int (length xs) then Inr (xs ! nat i) else Inl IndexOutOfRange)"

definition slice_set :: "'a list \<Rightarrow> int \<Rightarrow> 'a \<Rightarrow> panic + 'a list" where
  "slice_set xs i v =
     (if 0 \<le> i \<and> i < int (length xs) then Inr (xs[nat i := v]) else Inl IndexOutOfRange)"

lemma slice_at_nat [simp]: "slice_at xs (int i) = (if i < length xs then Inr (xs ! i) else Inl IndexOutOfRange)"
  by (simp add: slice_at_def)

lemma slice_set_nat [simp]:
  "slice_set xs (int i) v = (if i < length xs then Inr (xs[i := v]) else Inl IndexOutOfRange)"
  by (simp add: slice_set_def)

subsection \<open>Association lists as Go maps\<close>

definition go_map_ok :: "('k \<times> 'v) list \<Rightarrow> bool" where
  "go_map_ok m = distinct (map fst m)"

lemma map_of_perm:
  assumes "go_map_ok m" and "go_map_ok m'" and "set m = set m'"
  shows "map_of m = map_of m'"
  using assms unfolding go_map_ok_def
  by (metis map_of_inject_set)

lemma go_map_ok_length_eq:
  assumes "go_map_ok m" "go_map_ok m'" "set m = set m'"
  shows "length m = length m'"
proof -
  have "distinct m" "distinct m'"
    using assms(1,2) by (auto simp: go_map_ok_def distinct_map)
  then show ?thesis using assms(3) by (metis distinct_card)
qed

lemma map_of_eq_Some_iff_ok: "go_map_ok m \<Longrightarrow> map_of m k = Some v \<longleftrightarrow> (k, v) \<in> set m"
  by (simp add: go_map_ok_def)

end
