(* ===== verification/Stacks.thy ===== *)
theory Stacks
  imports Prelude
begin

section \<open>Target stack versions (pkg/supportedstacks)\<close>

text \<open>
  The version a scenario targets, read from its string form.  Every other string, the empty one
  included, is an error together with the value \<open>TargetStackVersionUnknown\<close>.
\<close>

datatype target_stack_version =
    TargetStackVersionUnknown
  | TargetStackVersionLatest
  | TargetStackVersion7x

definition FromStringVersion :: "string \<Rightarrow> target_stack_version \<times> string option" where
  "FromStringVersion version =
     (if version = ''latest'' then (TargetStackVersionLatest, None)
      else if version = ''7x'' then (TargetStackVersion7x, None)
      else (TargetStackVersionUnknown,
            Some (''cannot determine stack version from string: '' @ version)))"

lemma FromStringVersion_error:
  "snd (FromStringVersion v) \<noteq> None \<longleftrightarrow> fst (FromStringVersion v) = TargetStackVersionUnknown"
  by (simp add: FromStringVersion_def)

end
