(* ===== verification/Randomize.thy ===== *)
theory Randomize
  imports Prelude
begin

section \<open>Randomising identifiers and names (loadgen/eventhandler/handler.go)\<close>

text \<open>
  \<open>randomizeTraceID\<close> and \<open>randomizeASCII\<close> draw from one 64-bit random number, rotated after every
  digit or letter.  Go's \<open>range\<close> over a string and \<open>WriteRune\<close> are the UTF-8 decoder and encoder
  (runes are natural numbers); a byte that starts no valid sequence decodes as U+FFFD, alone.
  \<open>out\<close> is the buffer before and after the call.
\<close>

unbundle bit_operations_syntax

text \<open>A byte's value.  Arithmetic of the code on bytes stays below 256, so it is on naturals.\<close>

definition byte_val :: "char \<Rightarrow> nat" where
  "byte_val c = of_char c"

definition chr :: "nat \<Rightarrow> char" where
  "chr n = char_of n"

definition in_range :: "char \<Rightarrow> nat \<Rightarrow> nat \<Rightarrow> bool" where
  "in_range c lo hi = (lo \<le> byte_val c \<and> byte_val c \<le> hi)"

subsection \<open>randomizeTraceID\<close>

definition is_hex :: "char \<Rightarrow> bool" where
  "is_hex b = (in_range b 48 57 \<or> in_range b 97 102 \<or> in_range b 65 70)"

definition hex_value :: "char \<Rightarrow> nat" where
  "hex_value b =
     (if in_range b 48 57 then byte_val b - 48
      else if in_range b 97 102 then 10 + (byte_val b - 97)
      else if in_range b 65 70 then 10 + (byte_val b - 65)
      else 0)"

definition hex_char :: "nat \<Rightarrow> char" where
  "hex_char h = (if h < 10 then chr (48 + h) else chr (97 + (h - 10)))"

definition xor_nibble :: "nat \<Rightarrow> u64 \<Rightarrow> nat" where
  "xor_nibble h randomBits = (h XOR (unat randomBits mod 256)) AND 0x0f"

fun trace_loop :: "u64 \<Rightarrow> string \<Rightarrow> string" where
  "trace_loop randomBits [] = []"
| "trace_loop randomBits (b # bs) =
     hex_char (xor_nibble (hex_value b) randomBits) # trace_loop (word_rotl 4 randomBits) bs"

definition randomizeTraceID :: "string \<Rightarrow> string \<Rightarrow> u64 \<Rightarrow> string \<times> bool" where
  "randomizeTraceID out inp randomBits =
     (if list_all is_hex inp then (out @ trace_loop randomBits inp, True) else (out, False))"

subsection \<open>Runes\<close>

text \<open>The permitted range of the second byte and the number of bytes, by the first byte.\<close>

definition rune_shape :: "nat \<Rightarrow> nat \<times> nat \<times> nat" where
  "rune_shape b =
     (if b < 0x80 then (1, 0, 0)
      else if b < 0xC2 then (0, 0, 0)
      else if b < 0xE0 then (2, 0x80, 0xBF)
      else if b = 0xE0 then (3, 0xA0, 0xBF)
      else if b = 0xED then (3, 0x80, 0x9F)
      else if b < 0xF0 then (3, 0x80, 0xBF)
      else if b = 0xF0 then (4, 0x90, 0xBF)
      else if b < 0xF4 then (4, 0x80, 0xBF)
      else if b = 0xF4 then (4, 0x80, 0x8F)
      else (0, 0, 0))"

definition RuneError :: nat where "RuneError = 0xFFFD"

fun decode_rune :: "char \<Rightarrow> string \<Rightarrow> nat \<times> string" where
  "decode_rune c s =
     (let b = byte_val c in
      case rune_shape b of (n, lo, hi) \<Rightarrow>
        if n = 1 then (b, s)
        else if n = 2 then
          (case s of c1 # s1 \<Rightarrow>
             if in_range c1 lo hi then ((b mod 32) * 64 + byte_val c1 mod 64, s1) else (RuneError, s)
           | [] \<Rightarrow> (RuneError, s))
        else if n = 3 then
          (case s of c1 # c2 # s2 \<Rightarrow>
             if in_range c1 lo hi \<and> in_range c2 0x80 0xBF
             then ((b mod 16) * 4096 + (byte_val c1 mod 64) * 64 + byte_val c2 mod 64, s2) else (RuneError, s)
           | _ \<Rightarrow> (RuneError, s))
        else if n = 4 then
          (case s of c1 # c2 # c3 # s3 \<Rightarrow>
             if in_range c1 lo hi \<and> in_range c2 0x80 0xBF \<and> in_range c3 0x80 0xBF
             then ((b mod 8) * 262144 + (byte_val c1 mod 64) * 4096 + (byte_val c2 mod 64) * 64
                     + byte_val c3 mod 64, s3) else (RuneError, s)
           | _ \<Rightarrow> (RuneError, s))
        else (RuneError, s))"

lemma decode_rune_shorter: "length (snd (decode_rune c s)) \<le> length s"
  by (auto simp: Let_def split: prod.splits list.splits)

declare decode_rune.simps [simp del]

lemma decode_rune_shape:
  assumes "rune_shape (byte_val c) = (n, lo, hi)"
  shows "n = 0 \<Longrightarrow> decode_rune c s = (RuneError, s)"
    and "n = 1 \<Longrightarrow> decode_rune c s = (byte_val c, s)"
    and "n = 2 \<Longrightarrow> decode_rune c (c1 # s) =
           (if in_range c1 lo hi then ((byte_val c mod 32) * 64 + byte_val c1 mod 64, s) else (RuneError, c1 # s))"
    and "n = 3 \<Longrightarrow> decode_rune c (c1 # c2 # s) =
           (if in_range c1 lo hi \<and> in_range c2 0x80 0xBF
            then ((byte_val c mod 16) * 4096 + (byte_val c1 mod 64) * 64 + byte_val c2 mod 64, s)
            else (RuneError, c1 # c2 # s))"
    and "n = 4 \<Longrightarrow> decode_rune c (c1 # c2 # c3 # s) =
           (if in_range c1 lo hi \<and> in_range c2 0x80 0xBF \<and> in_range c3 0x80 0xBF
            then ((byte_val c mod 8) * 262144 + (byte_val c1 mod 64) * 4096 + (byte_val c2 mod 64) * 64
                   + byte_val c3 mod 64, s)
            else (RuneError, c1 # c2 # c3 # s))"
  using assms by (simp_all add: decode_rune.simps Let_def)

lemma decode_rune_short:
  "rune_shape (byte_val c) = (n, lo, hi) \<Longrightarrow> n \<noteq> 1 \<Longrightarrow> length s + 1 < n \<Longrightarrow> decode_rune c s = (RuneError, s)"
  by (auto simp: decode_rune.simps Let_def split: list.splits)

function runes :: "string \<Rightarrow> nat list" where
  "runes [] = []"
| "runes (c # s) = fst (decode_rune c s) # runes (snd (decode_rune c s))"
  by pat_completeness auto
termination
  using decode_rune_shorter by (relation "measure length") (auto simp: less_Suc_eq_le)

definition encode_rune :: "nat \<Rightarrow> string" where
  "encode_rune r =
     (if r < 0x80 then [chr r]
      else if r < 0x800 then [chr (0xC0 + r div 64), chr (0x80 + r mod 64)]
      else if 0xD800 \<le> r \<and> r < 0xE000 \<or> 0x10FFFF < r then [chr 0xEF, chr 0xBF, chr 0xBD]
      else if r < 0x10000 then
        [chr (0xE0 + r div 4096), chr (0x80 + r div 64 mod 64), chr (0x80 + r mod 64)]
      else [chr (0xF0 + r div 262144), chr (0x80 + r div 4096 mod 64), chr (0x80 + r div 64 mod 64),
            chr (0x80 + r mod 64)])"

definition valid_rune :: "nat \<Rightarrow> bool" where
  "valid_rune r = (r \<le> 0x10FFFF \<and> \<not> (0xD800 \<le> r \<and> r < 0xE000))"

subsection \<open>randomizeASCII\<close>

definition ascii_replacement :: "nat \<Rightarrow> u64 \<Rightarrow> nat" where
  "ascii_replacement r randomBits =
     (let i = (unat randomBits mod 256) AND 0x1f in
      if r \<ge> 97 then 97 + i mod 26
      else if r \<ge> 65 \<and> r \<le> 90 then 65 + i mod 26
      else if r \<le> 57 then 48 + i mod 10
      else r)"

fun ascii_loop :: "u64 \<Rightarrow> nat list \<Rightarrow> nat list" where
  "ascii_loop randomBits [] = []"
| "ascii_loop randomBits (r # rs) =
     (if r < 48 \<or> r > 122 then r # ascii_loop randomBits rs
      else ascii_replacement r randomBits # ascii_loop (word_rotl 5 randomBits) rs)"

definition randomizeASCII :: "string \<Rightarrow> string \<Rightarrow> u64 \<Rightarrow> string" where
  "randomizeASCII out inp randomBits = out @ concat (map encode_rune (ascii_loop randomBits (runes inp)))"

subsection \<open>Hex digits\<close>

definition lower_hex :: "char \<Rightarrow> bool" where
  "lower_hex c \<longleftrightarrow> in_range c 48 57 \<or> in_range c 97 102"

text \<open>Two hex digits of the same value, such as \<open>a\<close> and \<open>A\<close>.\<close>

definition same_hex :: "char \<Rightarrow> char \<Rightarrow> bool" where
  "same_hex c d \<longleftrightarrow> hex_value c = hex_value d"

lemma byte_val_chr [simp]: "n < 256 \<Longrightarrow> byte_val (chr n) = n"
  by (simp add: byte_val_def chr_def take_bit_nat_eq_self)

lemma chr_byte_val [simp]: "chr (byte_val c) = c"
  by (simp add: byte_val_def chr_def)

lemma byte_val_less [simp]: "byte_val c < 256"
  unfolding byte_val_def by (metis nat_of_char_less_256)

lemma hex_char_value: "n < 16 \<Longrightarrow> hex_value (hex_char n) = n \<and> lower_hex (hex_char n)"
  by (auto simp: hex_char_def hex_value_def lower_hex_def in_range_def)

lemma lower_hex_char: "lower_hex c \<Longrightarrow> hex_char (hex_value c) = c"
  by (auto simp: lower_hex_def hex_char_def hex_value_def in_range_def)

lemma lower_hex_is_hex: "lower_hex c \<Longrightarrow> is_hex c"
  by (auto simp: lower_hex_def is_hex_def)

lemma hex_value_less: "hex_value c < 16"
  by (auto simp: hex_value_def in_range_def)

lemma xor_nibble_alt: "xor_nibble h b = take_bit 4 (h XOR unat b mod 256)"
  by (simp add: xor_nibble_def take_bit_eq_mask mask_eq_exp_minus_1)

lemma xor_nibble_less: "xor_nibble h b < 16"
  using take_bit_nat_less_exp[of 4 "h XOR unat b mod 256"] by (simp add: xor_nibble_alt del: take_bit_xor)

lemma xor_nibble_twice: "h < 16 \<Longrightarrow> xor_nibble (xor_nibble h b) b = h"
proof -
  assume "h < 16"
  then have "take_bit 4 h = h" by (simp add: take_bit_nat_eq_self)
  then show ?thesis by (simp add: xor_nibble_alt take_bit_xor xor.assoc)
qed

lemma xor_nibble_inj: "g < 16 \<Longrightarrow> h < 16 \<Longrightarrow> xor_nibble g b = xor_nibble h b \<longleftrightarrow> g = h"
  by (metis xor_nibble_twice)

lemma trace_loop_facts:
  "length (trace_loop r s) = length s" "list_all lower_hex (trace_loop r s)"
  by (induction s arbitrary: r) (auto simp: hex_char_value xor_nibble_less)

lemma trace_loop_twice: "list_all lower_hex s \<Longrightarrow> trace_loop r (trace_loop r s) = s"
  by (induction s arbitrary: r)
     (auto simp: hex_char_value xor_nibble_less xor_nibble_twice hex_value_less lower_hex_char)

lemma trace_loop_eq_iff:
  "trace_loop r s = trace_loop r t \<longleftrightarrow> list_all2 same_hex s t"
proof (induction s arbitrary: r t)
  case (Cons c s)
  have e: "hex_char m = hex_char n \<longleftrightarrow> m = n" if "m < 16" "n < 16" for m n
    using that hex_char_value by metis
  show ?case
    by (cases t) (auto simp: Cons e xor_nibble_less xor_nibble_inj hex_value_less same_hex_def)
qed (metis list.rel_sel length_0_conv trace_loop_facts(1))

subsection \<open>Properties\<close>

text \<open>C15 (identifiers are rewritten consistently and reversibly).  Identifiers that are all hex
  digits are rewritten to lower-case hex of the same length; two of them get the same image under
  the same random bits exactly when they are the same number digit by digit, so references between
  events survive; and rewriting a lower-case identifier twice gives it back.\<close>

theorem trace_id_rewriting:
  assumes "list_all is_hex s" "list_all is_hex t"
  shows "\<exists>s' t'. randomizeTraceID [] s r = (s', True) \<and> randomizeTraceID [] t r = (t', True)
     \<and> length s' = length s \<and> list_all lower_hex s'
     \<and> (s' = t' \<longleftrightarrow> list_all2 same_hex s t)
     \<and> (list_all lower_hex s \<longrightarrow> randomizeTraceID [] s' r = (s, True))"
proof -
  have "list_all is_hex (trace_loop r s)"
    using trace_loop_facts(2)[of r s] lower_hex_is_hex by (auto simp: list_all_iff)
  then show ?thesis using assms trace_loop_facts[of r s]
    by (simp add: randomizeTraceID_def trace_loop_eq_iff trace_loop_twice)
qed

lemma ex_ids: "list_all is_hex ''00ff''" "list_all is_hex ''00FF''" "list_all lower_hex ''00ff''"
  "list_all2 same_hex ''00ff'' ''00FF''"
  by (simp_all add: is_hex_def lower_hex_def in_range_def byte_val_def same_hex_def hex_value_def)

theorem trace_id_rewriting_witness:
  "randomizeTraceID [] ''00ff'' 0x1234 = randomizeTraceID [] ''00FF'' 0x1234
   \<and> randomizeTraceID [] (fst (randomizeTraceID [] ''00FF'' 0x1234)) 0x1234 = (''00ff'', True)"
  using trace_id_rewriting[OF ex_ids(1,2), where r = "0x1234"] ex_ids(3,4) by auto

lemma encode_ascii: "r < 128 \<Longrightarrow> encode_rune r = [chr r]"
  by (simp add: encode_rune_def)

subsection \<open>UTF-8\<close>

lemma decode_ascii: "byte_val c < 128 \<Longrightarrow> decode_rune c s = (byte_val c, s)"
  by (simp add: decode_rune_shape rune_shape_def)

lemma mod_shift: "a < (m::nat) \<Longrightarrow> (k * m + a) mod m = a"
  by simp

lemma base64:
  "(r::nat) = r div 4096 * 4096 + r div 64 mod 64 * 64 + r mod 64"
  "r = r div 262144 * 262144 + r div 4096 mod 64 * 4096 + r div 64 mod 64 * 64 + r mod 64"
proof -
  have d: "r div 4096 = r div 64 div 64" "r div 262144 = r div 4096 div 64"
    by (simp_all flip: div_mult2_eq)
  have e: "r = r div 64 * 64 + r mod 64" "r div 64 = r div 64 div 64 * 64 + r div 64 mod 64"
    "r div 4096 = r div 4096 div 64 * 64 + r div 4096 mod 64" by simp_all
  show "r = r div 4096 * 4096 + r div 64 mod 64 * 64 + r mod 64" using e(1,2) unfolding d by linarith
  show "r = r div 262144 * 262144 + r div 4096 mod 64 * 4096 + r div 64 mod 64 * 64 + r mod 64"
    using e d by linarith
qed

lemma encode_three:
  assumes "valid_rune r" "0x800 \<le> r" "r < 0x10000"
  obtains c s where "encode_rune r = c # s" "\<And>t. decode_rune c (s @ t) = (r, t)"
proof -
  define a b c where abc: "a = r div 4096" "b = r div 64 mod 64" "c = r mod 64"
  have r0: "r = a * 4096 + b * 64 + c" "b < 64" "c < 64" unfolding abc using base64(1)[of r] by simp_all
  have r: "r = a * 4096 + b * 64 + c" "a < 16" "b < 64" "c < 64" using r0 assms(2,3) by linarith+
  have lo: "a = 0 \<Longrightarrow> 32 \<le> b" using r assms(2,3) by auto
  have hi: "a = 13 \<Longrightarrow> b < 32" using r assms by (auto simp: valid_rune_def)
  have e: "encode_rune r = [chr (0xE0 + a), chr (0x80 + b), chr (0x80 + c)]"
    using assms by (auto simp: encode_rune_def valid_rune_def abc)
  have m: "(0xE0 + a) mod 16 = a" "(0x80 + b) mod 64 = b" "(0x80 + c) mod 64 = c"
    using mod_shift[of a 16 14] mod_shift[of b 64 2] mod_shift[of c 64 2] r by simp_all
  have sh: "rune_shape (byte_val (chr (0xE0 + a))) = (3, if a = 0 then 0xA0 else 0x80, if a = 13 then 0x9F else 0xBF)"
    using r(2) by (simp add: rune_shape_def)
  have "decode_rune (chr (0xE0 + a)) ([chr (0x80 + b), chr (0x80 + c)] @ t) = (r, t)" for t
  proof -
    have "in_range (chr (0x80 + b)) (if a = 0 then 0xA0 else 0x80) (if a = 13 then 0x9F else 0xBF)"
      "in_range (chr (0x80 + c)) 0x80 0xBF" using r lo hi by (auto simp: in_range_def)
    then show ?thesis using r m decode_rune_shape(4)[OF sh refl, of "chr (0x80 + b)" "chr (0x80 + c)" t] by simp
  qed
  then show thesis using that e by blast
qed

lemma encode_four:
  assumes "valid_rune r" "0x10000 \<le> r"
  obtains c s where "encode_rune r = c # s" "\<And>t. decode_rune c (s @ t) = (r, t)"
proof -
  define a b c d where abc: "a = r div 262144" "b = r div 4096 mod 64" "c = r div 64 mod 64" "d = r mod 64"
  have r: "r = a * 262144 + b * 4096 + c * 64 + d" "b < 64" "c < 64" "d < 64" unfolding abc using base64(2)[of r] by simp_all
  have a: "a < 5" "a = 0 \<Longrightarrow> 16 \<le> b" "a = 4 \<Longrightarrow> b < 16" using r assms(2) assms by (auto simp: valid_rune_def)
  have e: "encode_rune r = [chr (0xF0 + a), chr (0x80 + b), chr (0x80 + c), chr (0x80 + d)]"
    using assms by (auto simp: encode_rune_def valid_rune_def abc)
  have m: "(0xF0 + a) mod 8 = a" "(0x80 + b) mod 64 = b" "(0x80 + c) mod 64 = c" "(0x80 + d) mod 64 = d"
    using mod_shift[of a 8 30] mod_shift[of b 64 2] mod_shift[of c 64 2] mod_shift[of d 64 2] r a by simp_all
  have sh: "rune_shape (byte_val (chr (0xF0 + a))) = (4, if a = 0 then 0x90 else 0x80, if a = 4 then 0x8F else 0xBF)"
    using a(1) by (simp add: rune_shape_def)
  have "decode_rune (chr (0xF0 + a)) ([chr (0x80 + b), chr (0x80 + c), chr (0x80 + d)] @ t) = (r, t)" for t
  proof -
    have "in_range (chr (0x80 + b)) (if a = 0 then 0x90 else 0x80) (if a = 4 then 0x8F else 0xBF)"
      "in_range (chr (0x80 + c)) 0x80 0xBF" "in_range (chr (0x80 + d)) 0x80 0xBF"
      using r a by (auto simp: in_range_def)
    then show ?thesis using r m
        decode_rune_shape(5)[OF sh refl, of "chr (0x80 + b)" "chr (0x80 + c)" "chr (0x80 + d)" t] by simp
  qed
  then show thesis using that e by blast
qed

lemma encode_rune_Cons:
  assumes "valid_rune r"
  obtains c s where "encode_rune r = c # s" "\<And>t. decode_rune c (s @ t) = (r, t)"
proof -
  consider "r < 0x80" | "0x80 \<le> r" "r < 0x800" | "0x800 \<le> r" "r < 0x10000" | "0x10000 \<le> r" by linarith
  then show ?thesis
  proof cases
    case 1
    then show ?thesis using that[of "chr r" "[]"] by (simp add: encode_rune_def decode_ascii)
  next
    case 2
    define a b where ab: "a = r div 64" "b = r mod 64"
    have r0: "r = a * 64 + b" "b < 64" unfolding ab by simp_all
    have r: "r = a * 64 + b" "2 \<le> a" "a < 32" "b < 64" using r0 2 by linarith+
    have m: "(0xC0 + a) mod 32 = a" "(0x80 + b) mod 64 = b"
      using mod_shift[of a 32 6] mod_shift[of b 64 2] r by simp_all
    have e: "encode_rune r = [chr (0xC0 + a), chr (0x80 + b)]" using 2 by (simp add: encode_rune_def ab)
    have sh: "rune_shape (byte_val (chr (0xC0 + a))) = (2, 0x80, 0xBF)" using r by (simp add: rune_shape_def)
    have "decode_rune (chr (0xC0 + a)) ([chr (0x80 + b)] @ t) = (r, t)" for t
      using r m by (simp add: decode_rune_shape(3)[OF sh refl] in_range_def)
    then show ?thesis using that e by blast
  next
    case 3
    then show ?thesis using encode_three[OF assms] that by blast
  next
    case 4
    then show ?thesis using encode_four[OF assms] that by blast
  qed
qed

lemma runes_encode: "list_all valid_rune rs \<Longrightarrow> runes (concat (map encode_rune rs)) = rs"
proof (induction rs)
  case (Cons r rs)
  then obtain c s where "encode_rune r = c # s" "\<And>t. decode_rune c (s @ t) = (r, t)"
    using encode_rune_Cons[of r] by auto
  then show ?case using Cons by (simp)
qed simp

lemma three_byte_valid:
  assumes "224 \<le> b" "b < 240" "b = 237 \<Longrightarrow> x mod 64 < 32"
  shows "valid_rune (b mod 16 * 4096 + x mod 64 * 64 + y mod (64::nat))"
proof -
  have m: "b mod 16 = b - 224" using mod_shift[of "b - 224" 16 14] assms(1,2) by simp
  have "x mod 64 < 64" "y mod 64 < 64" by simp_all
  then show ?thesis unfolding m valid_rune_def using assms by (cases "b < 237"; cases "b = 237") linarith+
qed

lemma four_byte_valid:
  assumes "240 \<le> b" "b < 245" "b = 240 \<Longrightarrow> 16 \<le> x mod 64" "b = 244 \<Longrightarrow> x mod 64 < 16"
  shows "valid_rune (b mod 8 * 262144 + x mod 64 * 4096 + y mod 64 * 64 + z mod (64::nat))"
proof -
  have m: "b mod 8 = b - 240" using mod_shift[of "b - 240" 8 30] assms(1,2) by simp
  have "x mod 64 < 64" "y mod 64 < 64" "z mod 64 < 64" by simp_all
  then show ?thesis unfolding m valid_rune_def using assms by (cases "b = 240"; cases "b = 244") linarith+
qed

lemma rune_error_valid [simp]: "valid_rune RuneError"
  by (simp add: valid_rune_def RuneError_def)

lemma rune_shape_cases:
  assumes "rune_shape b = (n, lo, hi)" "b < 256"
  shows "n = 0 \<or> (n = 1 \<and> b < 128) \<or> (n = 2 \<and> 0xC2 \<le> b \<and> b < 0xE0)
     \<or> (n = 3 \<and> 224 \<le> b \<and> b < 240 \<and> 128 \<le> lo \<and> hi < 192 \<and> (b = 237 \<longrightarrow> hi < 160))
     \<or> (n = 4 \<and> 240 \<le> b \<and> b < 245 \<and> 128 \<le> lo \<and> hi < 192 \<and> (b = 240 \<longrightarrow> 144 \<le> lo) \<and> (b = 244 \<longrightarrow> hi < 144))"
  using assms by (simp add: rune_shape_def split: if_splits)

lemma two_byte_valid: "valid_rune (b mod 32 * 64 + y mod (64::nat))"
proof -
  have "b mod 32 < 32" "y mod 64 < 64" by simp_all
  then show ?thesis unfolding valid_rune_def by linarith
qed

lemma in_range_mod64:
  assumes "in_range c lo hi" "128 \<le> lo" "hi < 192"
  shows "byte_val c mod 64 = byte_val c - 128"
proof -
  define x where "x = byte_val c - 128"
  have "byte_val c = 2 * 64 + x" "x < 64" using assms unfolding x_def in_range_def by linarith+
  then show ?thesis using mod_shift[of x 64 2] by (simp add: x_def)
qed

lemma decode_rune_valid: "valid_rune (fst (decode_rune c s))"
proof -
  obtain n lo hi where sh: "rune_shape (byte_val c) = (n, lo, hi)" by (metis prod_cases3)
  from rune_shape_cases[OF sh byte_val_less]
  consider "n = 0" | "n = 1" "byte_val c < 128" | "n = 2"
    | "n = 3" "224 \<le> byte_val c" "byte_val c < 240" "128 \<le> lo" "hi < 192" "byte_val c = 237 \<longrightarrow> hi < 160"
    | "n = 4" "240 \<le> byte_val c" "byte_val c < 245" "128 \<le> lo" "hi < 192"
      "byte_val c = 240 \<longrightarrow> 144 \<le> lo" "byte_val c = 244 \<longrightarrow> hi < 144" by blast
  then show ?thesis
  proof cases
    case 1
    then show ?thesis by (simp add: decode_rune_shape(1)[OF sh])
  next
    case 2
    then show ?thesis by (simp add: decode_rune_shape(2)[OF sh] valid_rune_def)
  next
    case 3
    then show ?thesis
      by (cases s) (simp_all add: decode_rune_short[OF sh] decode_rune_shape(3)[OF sh] two_byte_valid)
  next
    case 4
    show ?thesis
    proof (cases "length s + 1 < n")
      case True
      then show ?thesis using 4(1) by (simp add: decode_rune_short[OF sh])
    next
      case False
      then obtain c1 c2 t where s: "s = c1 # c2 # t" using 4(1) by (cases s; cases "tl s") auto
      have "valid_rune (byte_val c mod 16 * 4096 + byte_val c1 mod 64 * 64 + byte_val c2 mod 64)" if "in_range c1 lo hi"
        using 4 that in_range_mod64[OF that 4(4,5)] by (intro three_byte_valid) (auto simp: in_range_def)
      then show ?thesis by (simp add: s decode_rune_shape(4)[OF sh 4(1)])
    qed
  next
    case 5
    show ?thesis
    proof (cases "length s + 1 < n")
      case True
      then show ?thesis using 5(1) by (simp add: decode_rune_short[OF sh])
    next
      case False
      then obtain c1 c2 c3 t where s: "s = c1 # c2 # c3 # t"
        using 5(1) by (cases s; cases "tl s"; cases "tl (tl s)") auto
      have "valid_rune (byte_val c mod 8 * 262144 + byte_val c1 mod 64 * 4096 + byte_val c2 mod 64 * 64 + byte_val c3 mod 64)"
        if "in_range c1 lo hi"
        using 5 that in_range_mod64[OF that 5(4,5)] by (intro four_byte_valid) (auto simp: in_range_def)
      then show ?thesis by (simp add: s decode_rune_shape(5)[OF sh 5(1)])
    qed
  qed
qed

lemma runes_valid: "list_all valid_rune (runes s)"
  by (induction s rule: runes.induct) (auto simp: decode_rune_valid)

subsection \<open>Character classes\<close>

datatype rune_class = Digit | Upper | Lower | Other nat

definition class_of :: "nat \<Rightarrow> rune_class" where
  "class_of r = (if 48 \<le> r \<and> r \<le> 57 then Digit else if 65 \<le> r \<and> r \<le> 90 then Upper
     else if 97 \<le> r \<and> r \<le> 122 then Lower else Other r)"

lemma and_31_less: "(n::nat) AND 0x1f < 32"
  using take_bit_nat_less_exp[of 5 n] by (simp add: take_bit_eq_mask mask_eq_exp_minus_1)

lemma ascii_replacement_class:
  assumes "48 \<le> r" "r \<le> 122"
  shows "class_of (ascii_replacement r b) = class_of r \<and> ascii_replacement r b < 128"
proof -
  have "n mod 26 < 26" "n mod 10 < 10" for n :: nat by simp_all
  then show ?thesis using assms by (auto simp: ascii_replacement_def class_of_def Let_def)
qed

lemma ascii_loop_class: "map class_of (ascii_loop b rs) = map class_of rs"
  by (induction rs arbitrary: b) (auto simp: ascii_replacement_class)

lemma ascii_loop_valid: "list_all valid_rune rs \<Longrightarrow> list_all valid_rune (ascii_loop b rs)"
proof (induction rs arbitrary: b)
  case (Cons r rs)
  have "valid_rune (ascii_replacement r b)" if "48 \<le> r" "r \<le> 122"
    using ascii_replacement_class[OF that, of b] by (auto simp: valid_rune_def)
  then show ?case using Cons by auto
qed simp

text \<open>The replacement of a letter or digit depends on its class only.\<close>

lemma same_class:
  assumes "class_of r = class_of q"
  shows "(r < 48 \<or> r > 122) = (q < 48 \<or> q > 122)" "ascii_replacement r b = ascii_replacement q b"
    "r < 48 \<or> r > 122 \<Longrightarrow> r = q"
  using assms by (auto simp: class_of_def ascii_replacement_def Let_def split: if_splits)

lemma ascii_loop_shape: "map class_of rs = map class_of qs \<Longrightarrow> ascii_loop b rs = ascii_loop b qs"
proof (induction rs arbitrary: b qs)
  case (Cons r rs)
  then obtain q qs' where q: "qs = q # qs'" "class_of r = class_of q" "map class_of rs = map class_of qs'" by auto
  note c = same_class[OF q(2)]
  show ?case
  proof (cases "r < 48 \<or> r > 122")
    case True
    then show ?thesis using c(1) c(3)[OF True] Cons.IH[OF q(3)] q(1) by simp
  next
    case False
    then have "\<not> (q < 48 \<or> q > 122)" using c(1) by simp
    then show ?thesis using False c(2) Cons.IH[OF q(3)] q(1) by simp
  qed
qed simp

lemma runes_ascii: "list_all (\<lambda>c. byte_val c < 128) s \<Longrightarrow> runes s = map byte_val s"
  by (induction s) (auto simp: decode_ascii)

text \<open>C29 (names keep their shape and nothing else).  For every name and every random number, the
  output decodes to as many runes as the input, each in the class of the one it replaces (a decimal
  digit, an upper-case or lower-case ASCII letter), and every other rune is the input's; and the
  output is a function of the shape alone: two names whose runes have the same classes become the
  same name, so distinct names of one shape are merged.\<close>

theorem randomize_ascii_shape:
  "runes (randomizeASCII [] s b) = ascii_loop b (runes s)
   \<and> map class_of (runes (randomizeASCII [] s b)) = map class_of (runes s)
   \<and> (map class_of (runes s) = map class_of (runes t) \<longrightarrow> randomizeASCII [] s b = randomizeASCII [] t b)"
proof -
  have r: "runes (randomizeASCII [] s b) = ascii_loop b (runes s)"
    using runes_encode[OF ascii_loop_valid[OF runes_valid]] by (simp add: randomizeASCII_def)
  moreover have "randomizeASCII [] s b = randomizeASCII [] t b" if "map class_of (runes s) = map class_of (runes t)"
    unfolding randomizeASCII_def using ascii_loop_shape[OF that, of b] by simp
  ultimately show ?thesis by (simp add: ascii_loop_class)
qed

lemma ex_names: "runes ''api-1'' = map byte_val ''api-1''" "runes ''web-9'' = map byte_val ''web-9''"
  by (rule runes_ascii, simp add: byte_val_def)+

theorem randomize_ascii_shape_witness:
  "randomizeASCII [] ''api-1'' 7 = randomizeASCII [] ''web-9'' 7"
proof -
  have "map class_of (runes ''api-1'') = map class_of (runes ''web-9'')"
    unfolding ex_names by (simp add: byte_val_def class_of_def)
  then show ?thesis using randomize_ascii_shape[of "''api-1''" 7 "''web-9''"] by blast
qed

end
