(* ===== verification/GoStrings.thy ===== *)
theory GoStrings
  imports Prelude
begin

section \<open>Go's strings and strconv\<close>

text \<open>
  A Go string is a sequence of bytes; it is a \<open>string\<close> (a list of 8-bit characters) here and
  \<open>length\<close> counts bytes.  These are the functions of the packages \<open>strings\<close> and \<open>strconv\<close>
  that the program calls, each with the round-trip or characterisation lemma its callers need.
\<close>

subsection \<open>Prefixes, suffixes, cutting, splitting, replacing\<close>

fun has_prefix :: "string \<Rightarrow> string \<Rightarrow> bool" where
  "has_prefix s [] = True"
| "has_prefix [] (p # ps) = False"
| "has_prefix (c # s) (p # ps) = (c = p \<and> has_prefix s ps)"

definition has_suffix :: "string \<Rightarrow> string \<Rightarrow> bool" where
  "has_suffix s p = has_prefix (rev s) (rev p)"

text \<open>\<open>strings.CutPrefix\<close>\<close>

definition cut_prefix :: "string \<Rightarrow> string \<Rightarrow> string \<times> bool" where
  "cut_prefix s p = (if has_prefix s p then (drop (length p) s, True) else (s, False))"

text \<open>\<open>strings.Cut\<close> with a separator of one byte: before, after, found.\<close>

fun cut1 :: "char \<Rightarrow> string \<Rightarrow> string \<times> string \<times> bool" where
  "cut1 sep [] = ([], [], False)"
| "cut1 sep (c # s) =
     (if c = sep then ([], s, True)
      else case cut1 sep s of (b, a, ok) \<Rightarrow> (c # b, a, ok))"

text \<open>\<open>strings.Split\<close> with a separator of one byte.\<close>

fun split1 :: "char \<Rightarrow> string \<Rightarrow> string list" where
  "split1 sep [] = [[]]"
| "split1 sep (c # s) =
     (if c = sep then [] # split1 sep s
      else case split1 sep s of [] \<Rightarrow> [[c]] | x # xs \<Rightarrow> (c # x) # xs)"

text \<open>\<open>strings.SplitN (s, sep, 2)\<close> with a separator of one byte.\<close>

definition splitn2 :: "char \<Rightarrow> string \<Rightarrow> string list" where
  "splitn2 sep s = (case cut1 sep s of (b, a, ok) \<Rightarrow> if ok then [b, a] else [s])"

text \<open>\<open>strings.Replace (s, old, new, 1)\<close>, the first occurrence, for a non-empty \<open>old\<close>.\<close>

fun replace_first :: "string \<Rightarrow> string \<Rightarrow> string \<Rightarrow> string" where
  "replace_first [] old new = []"
| "replace_first (c # s) old new =
     (if has_prefix (c # s) old then new @ drop (length old) (c # s)
      else c # replace_first s old new)"

text \<open>\<open>strings.Join\<close>\<close>

fun join_with :: "string \<Rightarrow> string list \<Rightarrow> string" where
  "join_with sep [] = []"
| "join_with sep [x] = x"
| "join_with sep (x # y # ys) = x @ sep @ join_with sep (y # ys)"

lemma join_with_Cons: "join_with sep (x # xs) = x @ concat (map (\<lambda>y. sep @ y) xs)"
  by (induction xs arbitrary: x) simp_all

definition is_space :: "char \<Rightarrow> bool" where
  "is_space c \<longleftrightarrow> c \<in> {CHR 0x09, CHR 0x0A, CHR 0x0B, CHR 0x0C, CHR 0x0D, CHR '' ''}"

text \<open>\<open>strings.TrimSpace\<close> on ASCII text (the flags it is applied to).\<close>

definition trim_space :: "string \<Rightarrow> string" where
  "trim_space s = rev (dropWhile is_space (rev (dropWhile is_space s)))"

lemma has_prefix_iff: "has_prefix s p \<longleftrightarrow> (\<exists>r. s = p @ r)"
  by (induction s p rule: has_prefix.induct) auto

lemma has_prefix_append [simp]: "has_prefix (p @ r) p"
  by (auto simp: has_prefix_iff)

lemma has_suffix_iff: "has_suffix s p \<longleftrightarrow> (\<exists>r. s = r @ p)"
proof -
  have "(\<exists>r. rev s = rev p @ r) \<longleftrightarrow> (\<exists>r. s = r @ p)"
    by (metis rev_append rev_rev_ident)
  then show ?thesis by (simp add: has_suffix_def has_prefix_iff)
qed

lemma cut1_append [simp]: "sep \<notin> set b \<Longrightarrow> cut1 sep (b @ sep # a) = (b, a, True)"
  by (induction b) auto

lemma cut1_none [simp]: "sep \<notin> set s \<Longrightarrow> cut1 sep s = (s, [], False)"
  by (induction s) auto

lemma cut1_found: "cut1 sep s = (b, a, True) \<longleftrightarrow> s = b @ sep # a \<and> sep \<notin> set b"
proof (cases "sep \<in> set s")
  case True
  then obtain b' a' where s: "s = b' @ sep # a'" "sep \<notin> set b'"
    by (auto dest: split_list_first)
  have "b' @ sep # a' = b @ sep # a \<and> sep \<notin> set b \<longleftrightarrow> b' = b \<and> a' = a"
    using s(2) by (metis cut1_append prod.inject)
  then show ?thesis using s by simp
qed auto

lemma cut1_not_found: "cut1 sep s = (b, a, False) \<longleftrightarrow> sep \<notin> set s \<and> b = s \<and> a = []"
proof (cases "sep \<in> set s")
  case True
  then obtain b' a' where "s = b' @ sep # a'" "sep \<notin> set b'"
    by (auto dest: split_list_first)
  then show ?thesis by simp
qed auto

lemma split1_nonempty [simp]: "split1 sep s \<noteq> []"
  by (cases s) (auto split: list.splits)

lemma split1_single: "sep \<notin> set s \<Longrightarrow> split1 sep s = [s]"
  by (induction s) auto

lemma split1_append: "sep \<notin> set b \<Longrightarrow> split1 sep (b @ sep # a) = b # split1 sep a"
  by (induction b) auto

lemma split1_join:
  assumes "xs \<noteq> []" and "\<forall>x \<in> set xs. sep \<notin> set x"
  shows "split1 sep (join_with [sep] xs) = xs"
  using assms
proof (induction "[sep]" xs rule: join_with.induct)
  case (3 x y ys)
  then show ?case by (simp add: split1_append)
qed (auto simp: split1_single)

lemma split1_parts_free: "x \<in> set (split1 sep s) \<Longrightarrow> sep \<notin> set x"
  by (induction s arbitrary: x) (auto split: if_splits list.splits)

subsection \<open>Decimal numerals\<close>

definition is_digit :: "char \<Rightarrow> bool" where
  "is_digit c \<longleftrightarrow> 48 \<le> (of_char c :: nat) \<and> (of_char c :: nat) \<le> 57"

definition digit_val :: "char \<Rightarrow> nat" where
  "digit_val c = of_char c - 48"

definition digit_char :: "nat \<Rightarrow> char" where
  "digit_char d = char_of (48 + d)"

lemma digit_char_props [simp]:
  assumes "d < 10" shows "is_digit (digit_char d)" "digit_val (digit_char d) = d"
  using assms by (simp_all add: is_digit_def digit_val_def digit_char_def)

lemma digit_val_less: "is_digit c \<Longrightarrow> digit_val c < 10"
  by (auto simp: is_digit_def digit_val_def)

text \<open>The value of a digit string, as the parsers accumulate it: most significant digit first.\<close>

definition digits_val :: "nat \<Rightarrow> string \<Rightarrow> nat" where
  "digits_val n s = foldl (\<lambda>n c. n * 10 + digit_val c) n s"

lemma digits_val_simps [simp]:
  "digits_val n [] = n"
  "digits_val n (c # s) = digits_val (n * 10 + digit_val c) s"
  "digits_val n (s @ t) = digits_val (digits_val n s) t"
  by (simp_all add: digits_val_def)

lemma digits_val_ge: "n \<le> digits_val n s"
proof (induction s arbitrary: n)
  case (Cons c s)
  have "n \<le> n * 10 + digit_val c" by simp
  also have "\<dots> \<le> digits_val (n * 10 + digit_val c) s" by (rule Cons.IH)
  finally show ?case by simp
qed simp

text \<open>\<open>strconv.Itoa\<close> on a non-negative argument, and on any integer.\<close>

function nat_str :: "nat \<Rightarrow> string" where
  "nat_str n = (if n < 10 then [digit_char n] else nat_str (n div 10) @ [digit_char (n mod 10)])"
  by pat_completeness auto
termination by (relation "measure id") auto

declare nat_str.simps [simp del]

definition itoa :: "int \<Rightarrow> string" where
  "itoa i = (if i < 0 then CHR ''-'' # nat_str (nat (- i)) else nat_str (nat i))"

lemma nat_str_digits: "c \<in> set (nat_str n) \<Longrightarrow> is_digit c"
proof (induction n rule: nat_str.induct)
  case (1 n)
  then show ?case by (cases "n < 10") (auto simp: nat_str.simps[of n])
qed

lemma nat_str_nonempty [simp]: "nat_str n \<noteq> []"
  by (simp add: nat_str.simps[of n])

lemma digits_val_nat_str [simp]: "digits_val 0 (nat_str n) = n"
proof (induction n rule: nat_str.induct)
  case (1 n)
  then show ?case by (cases "n < 10") (auto simp: nat_str.simps[of n])
qed

lemma nat_str_hd_digit: "is_digit (hd (nat_str n))"
  by (rule nat_str_digits[of _ n]) simp

text \<open>
  \<open>strconv.Atoi\<close>: an optional sign, then at least one digit and nothing else; a value outside
  \<open>int\<close> is an error.  (The underscores of base-prefixed literals are not accepted in base 10.)
\<close>

datatype num_error = ErrSyntax | ErrRange

definition atoi :: "string \<Rightarrow> num_error + int" where
  "atoi s =
     (let neg = (s \<noteq> [] \<and> hd s = CHR ''-'');
          ds = (if s \<noteq> [] \<and> (hd s = CHR ''-'' \<or> hd s = CHR ''+'') then tl s else s)
      in if ds = [] \<or> \<not> list_all is_digit ds then Inl ErrSyntax
         else let v = int (digits_val 0 ds) in
           if neg then (if v \<le> 2 ^ 63 then Inr (- v) else Inl ErrRange)
           else (if v < 2 ^ 63 then Inr v else Inl ErrRange))"

lemma is_digit_not_sign: "is_digit c \<Longrightarrow> c \<noteq> CHR ''-'' \<and> c \<noteq> CHR ''+'' \<and> c \<noteq> CHR ''/'' \<and> c \<noteq> CHR ''.''"
  by (auto simp: is_digit_def)

lemma all_digits_nat_str [simp]: "list_all is_digit (nat_str n)"
  by (auto simp: list_all_iff intro: nat_str_digits)

lemma atoi_itoa:
  assumes "min_int64 \<le> i" "i \<le> max_int64" shows "atoi (itoa i) = Inr i"
proof (cases "i < 0")
  case True
  then show ?thesis using assms by (simp add: atoi_def itoa_def Let_def min_int64_def)
next
  case False
  have "hd (nat_str (nat i)) \<noteq> CHR ''-''" "hd (nat_str (nat i)) \<noteq> CHR ''+''"
    using is_digit_not_sign[OF nat_str_hd_digit[of "nat i"]] by auto
  then show ?thesis using False assms by (simp add: atoi_def itoa_def Let_def max_int64_def)
qed

lemma atoi_range: "atoi s = Inr i \<Longrightarrow> min_int64 \<le> i \<and> i \<le> max_int64"
  by (auto simp: atoi_def Let_def min_int64_def max_int64_def split: if_splits)

lemma itoa_no_slash: "CHR ''/'' \<notin> set (itoa i)"
  using nat_str_digits is_digit_not_sign by (auto simp: itoa_def)

lemma itoa_nonempty [simp]: "itoa i \<noteq> []"
  by (simp add: itoa_def)

end
