(* ===== verification/Float64.thy ===== *)
theory Float64
  imports Prelude
begin

section \<open>Go's float64\<close>

text \<open>
  The exporter's arithmetic is on \<open>float64\<close>.  A double is one of the three special values or a
  rational number; every arithmetic operation computes the exact rational result and rounds it
  to the nearest double, ties to even (\<open>f64_round\<close>: 53 significant bits, least exponent -1074,
  overflow to an infinity at \<open>2 ^ 1024\<close>).  The two zeros are one value here: the code compares
  with \<open>==\<close>, \<open><\<close> and \<open>cmp.Compare\<close>, which identify them, and divides only by
  conversions of integers, which are never the negative zero.
  The lemmas: rounding is monotone, is the identity on representable numbers, and 0 and integers
  up to \<open>2 ^ 53\<close> are representable.
\<close>

datatype f64 = F_NaN | F_NegInf | Fin (f_val: rat) | F_PosInf

subsection \<open>Rounding\<close>

definition rhe :: "rat \<Rightarrow> int" where
  "rhe x = (let f = \<lfloor>x\<rfloor>; r = x - of_int f in
     if r < 1 / 2 then f else if 1 / 2 < r then f + 1 else if even f then f else f + 1)"

function ilog2 :: "int \<Rightarrow> int" where
  "ilog2 n = (if n < 2 then 0 else ilog2 (n div 2) + 1)"
  by pat_completeness auto
termination by (relation "measure nat") auto

declare ilog2.simps [simp del]

definition flog2 :: "rat \<Rightarrow> int" where
  "flog2 x = (let (p, q) = quotient_of x;
                  k = ilog2 p - ilog2 q
              in if 2 powi k \<le> x then k else k - 1)"

definition f64_exp :: "rat \<Rightarrow> int" where
  "f64_exp x = max (- 1074) (flog2 x - 52)"

definition round_pos :: "rat \<Rightarrow> rat" where
  "round_pos x = (let e = f64_exp x in of_int (rhe (x / 2 powi e)) * 2 powi e)"

definition f64_huge :: rat where "f64_huge = 2 ^ 1024"

definition f64_round :: "rat \<Rightarrow> f64" where
  "f64_round x =
     (if x = 0 then Fin 0
      else let r = round_pos \<bar>x\<bar> in
        if f64_huge \<le> r then (if 0 < x then F_PosInf else F_NegInf)
        else Fin (if 0 < x then r else - r))"

subsection \<open>Operations\<close>

fun f_add :: "f64 \<Rightarrow> f64 \<Rightarrow> f64" where
  "f_add F_NaN y = F_NaN"
| "f_add x F_NaN = F_NaN"
| "f_add F_PosInf F_NegInf = F_NaN"
| "f_add F_NegInf F_PosInf = F_NaN"
| "f_add F_PosInf y = F_PosInf"
| "f_add F_NegInf y = F_NegInf"
| "f_add x F_PosInf = F_PosInf"
| "f_add x F_NegInf = F_NegInf"
| "f_add (Fin x) (Fin y) = f64_round (x + y)"

fun f_neg :: "f64 \<Rightarrow> f64" where
  "f_neg F_NaN = F_NaN"
| "f_neg F_PosInf = F_NegInf"
| "f_neg F_NegInf = F_PosInf"
| "f_neg (Fin x) = Fin (- x)"

definition f_sub :: "f64 \<Rightarrow> f64 \<Rightarrow> f64" where
  "f_sub x y = f_add x (f_neg y)"

definition f_inf :: "bool \<Rightarrow> f64" where
  "f_inf pos = (if pos then F_PosInf else F_NegInf)"

fun f_mul :: "f64 \<Rightarrow> f64 \<Rightarrow> f64" where
  "f_mul F_NaN y = F_NaN"
| "f_mul x F_NaN = F_NaN"
| "f_mul (Fin x) (Fin y) = f64_round (x * y)"
| "f_mul F_PosInf F_PosInf = F_PosInf"
| "f_mul F_PosInf F_NegInf = F_NegInf"
| "f_mul F_NegInf F_PosInf = F_NegInf"
| "f_mul F_NegInf F_NegInf = F_PosInf"
| "f_mul (Fin x) F_PosInf = (if x = 0 then F_NaN else f_inf (0 < x))"
| "f_mul (Fin x) F_NegInf = (if x = 0 then F_NaN else f_inf (x < 0))"
| "f_mul F_PosInf (Fin y) = (if y = 0 then F_NaN else f_inf (0 < y))"
| "f_mul F_NegInf (Fin y) = (if y = 0 then F_NaN else f_inf (y < 0))"

text \<open>A zero divisor is the positive zero.\<close>

fun f_div :: "f64 \<Rightarrow> f64 \<Rightarrow> f64" where
  "f_div F_NaN y = F_NaN"
| "f_div x F_NaN = F_NaN"
| "f_div (Fin x) (Fin y) =
     (if y = 0 then (if x = 0 then F_NaN else f_inf (0 < x)) else f64_round (x / y))"
| "f_div (Fin x) F_PosInf = Fin 0"
| "f_div (Fin x) F_NegInf = Fin 0"
| "f_div F_PosInf (Fin y) = f_inf (0 \<le> y)"
| "f_div F_NegInf (Fin y) = f_inf (y < 0)"
| "f_div x y = F_NaN"

text \<open>IEEE comparisons: every comparison with NaN is false.\<close>

fun f_lt :: "f64 \<Rightarrow> f64 \<Rightarrow> bool" where
  "f_lt F_NaN y = False"
| "f_lt x F_NaN = False"
| "f_lt (Fin x) (Fin y) = (x < y)"
| "f_lt F_NegInf y = (y \<noteq> F_NegInf)"
| "f_lt x F_NegInf = False"
| "f_lt x F_PosInf = (x \<noteq> F_PosInf)"
| "f_lt F_PosInf y = False"

fun f_eq :: "f64 \<Rightarrow> f64 \<Rightarrow> bool" where
  "f_eq F_NaN y = False"
| "f_eq x y = (x = y)"

definition f_le :: "f64 \<Rightarrow> f64 \<Rightarrow> bool" where
  "f_le x y = (f_lt x y \<or> f_eq x y)"

definition f_of_int :: "int \<Rightarrow> f64" where
  "f_of_int n = f64_round (of_int n)"

definition f_of_u64 :: "u64 \<Rightarrow> f64" where
  "f_of_u64 w = f_of_int (uint w)"

text \<open>
  \<open>cmp.Compare\<close> is a total order that puts NaN below every other value.  It makes
  \<open>f64\<close> an instance of the library's linear orders, so that \<open>sort_key\<close> and its lemmas apply.
\<close>

fun f_rank :: "f64 \<Rightarrow> nat" where
  "f_rank F_NaN = 0"
| "f_rank F_NegInf = 1"
| "f_rank (Fin x) = 2"
| "f_rank F_PosInf = 3"

instantiation f64 :: linorder
begin

definition less_eq_f64 :: "f64 \<Rightarrow> f64 \<Rightarrow> bool" where
  "less_eq_f64 x y = (case (x, y) of (Fin a, Fin b) \<Rightarrow> a \<le> b | _ \<Rightarrow> f_rank x \<le> f_rank y)"

definition less_f64 :: "f64 \<Rightarrow> f64 \<Rightarrow> bool" where
  "less_f64 x y = (case (x, y) of (Fin a, Fin b) \<Rightarrow> a < b | _ \<Rightarrow> f_rank x < f_rank y)"

instance
proof
  fix x y z :: f64
  show "x < y \<longleftrightarrow> x \<le> y \<and> \<not> y \<le> x"
    by (cases x; cases y) (auto simp: less_eq_f64_def less_f64_def)
  show "x \<le> x" by (cases x) (auto simp: less_eq_f64_def)
  show "x \<le> y \<Longrightarrow> y \<le> z \<Longrightarrow> x \<le> z"
    by (cases x; cases y; cases z) (auto simp: less_eq_f64_def)
  show "x \<le> y \<Longrightarrow> y \<le> x \<Longrightarrow> x = y"
    by (cases x; cases y) (auto simp: less_eq_f64_def)
  show "x \<le> y \<or> y \<le> x"
    by (cases x; cases y) (auto simp: less_eq_f64_def)
qed

end

lemmas f64_order_defs = less_eq_f64_def less_f64_def

lemma f64_order_simps [simp]:
  "Fin a \<le> Fin b \<longleftrightarrow> a \<le> b" "Fin a < Fin b \<longleftrightarrow> a < b"
  "F_NaN \<le> x" "x \<le> F_PosInf"
  "F_NegInf \<le> Fin a" "F_NegInf < Fin a" "Fin a < F_PosInf" "F_NegInf < F_PosInf"
  "\<not> F_PosInf \<le> Fin a" "\<not> Fin a \<le> F_NegInf" "\<not> F_PosInf \<le> F_NegInf"
  by (cases x; simp add: f64_order_defs)+

text \<open>On values that are not NaN the IEEE comparisons are this order.\<close>

lemma f_lt_iff: "x \<noteq> F_NaN \<Longrightarrow> y \<noteq> F_NaN \<Longrightarrow> f_lt x y \<longleftrightarrow> x < y"
  by (cases x; cases y) (auto simp: f64_order_defs)

lemma f_le_iff: "x \<noteq> F_NaN \<Longrightarrow> y \<noteq> F_NaN \<Longrightarrow> f_le x y \<longleftrightarrow> x \<le> y"
  by (cases x; cases y) (auto simp: f_le_def f64_order_defs)

lemma f_cmp_NaN [simp]:
  "\<not> f_lt F_NaN y" "\<not> f_lt x F_NaN" "\<not> f_eq F_NaN y" "\<not> f_eq x F_NaN"
  "\<not> f_le F_NaN y" "\<not> f_le x F_NaN"
  by (cases x; simp add: f_le_def)+

subsection \<open>Binary logarithms\<close>

lemma ilog2_spec:
  "1 \<le> n \<Longrightarrow> 0 \<le> ilog2 n \<and> (2::rat) powi ilog2 n \<le> of_int n \<and> of_int n < (2::rat) powi (ilog2 n + 1)"
proof (induction n rule: ilog2.induct)
  case (1 n)
  show ?case
  proof (cases "n < 2")
    case True
    with "1.prems" have "n = 1" by simp
    then show ?thesis by (simp add: ilog2.simps)
  next
    case False
    let ?m = "n div 2" and ?k = "ilog2 (n div 2)"
    have IH: "0 \<le> ?k" "(2::rat) powi ?k \<le> of_int ?m" "of_int ?m < (2::rat) powi (?k + 1)"
      using "1.IH"[OF False] False by auto
    have m: "2 * ?m \<le> n" "n \<le> 2 * ?m + 1" by auto
    have k: "ilog2 n = ?k + 1" using False by (simp add: ilog2.simps[of n])
    have p1: "(2::rat) powi (?k + 1) = 2 * 2 powi ?k" and p2: "(2::rat) powi (?k + 1 + 1) = 2 * 2 powi (?k + 1)"
      by (simp_all add: power_int_add)
    have "of_int (2 * ?m) \<le> (of_int n :: rat)" using m(1) by (simp only: of_int_le_iff)
    then have lo: "(2::rat) powi (?k + 1) \<le> of_int n" using IH(2) p1 by simp
    have "(2::rat) powi (?k + 1) = of_int (2 ^ nat (?k + 1))"
      using IH(1) by (simp add: power_int_def)
    then have "?m + 1 \<le> 2 ^ nat (?k + 1)" using IH(3) by (metis of_int_less_iff zless_imp_add1_zle)
    then have "n < 2 * 2 ^ nat (?k + 1)" using m(2) by linarith
    then have "of_int n < (of_int (2 * 2 ^ nat (?k + 1)) :: rat)" by (simp only: of_int_less_iff)
    then have hi: "of_int n < (2::rat) powi (?k + 1 + 1)"
      using p2 \<open>(2::rat) powi (?k + 1) = of_int (2 ^ nat (?k + 1))\<close> by simp
    show ?thesis using lo hi IH(1) k by simp
  qed
qed

lemma powi_less_iff: "(2::rat) powi a < 2 powi b \<longleftrightarrow> a < b"
  by (metis linorder_not_le order_le_less power_int_increasing power_int_strict_increasing
      one_less_numeral_iff semiring_norm(76) one_le_numeral)

lemma powi_le_iff: "(2::rat) powi a \<le> 2 powi b \<longleftrightarrow> a \<le> b"
  by (metis linorder_not_le powi_less_iff)

lemma flog2_spec:
  assumes "0 < x"
  shows "2 powi flog2 x \<le> x" "x < 2 powi (flog2 x + 1)"
proof -
  obtain p q where pq: "quotient_of x = (p, q)" by (cases "quotient_of x")
  have q: "0 < q" and x: "x = of_int p / of_int q"
    using quotient_of_denom_pos[OF pq] quotient_of_div[OF pq] by auto
  have p: "0 < p" using assms x q by (simp add: zero_less_divide_iff)
  let ?a = "ilog2 p" and ?b = "ilog2 q"
  have A: "(2::rat) powi ?a \<le> of_int p" "of_int p < (2::rat) powi (?a + 1)"
    and B: "(2::rat) powi ?b \<le> of_int q" "of_int q < (2::rat) powi (?b + 1)"
    using ilog2_spec[of p] ilog2_spec[of q] p q by auto
  have qpos: "(0::rat) < of_int q" using q by simp
  have up: "x < 2 powi (?a - ?b + 1)"
  proof -
    have "of_int p < (2::rat) powi (?a - ?b + 1) * 2 powi ?b"
      using A(2) by (simp add: power_int_add power_int_diff)
    also have "\<dots> \<le> 2 powi (?a - ?b + 1) * of_int q"
      using B(1) by (simp add: mult_left_mono)
    finally show ?thesis using qpos by (simp add: x divide_less_eq)
  qed
  have lo: "2 powi (?a - ?b - 1) \<le> x"
  proof -
    have "(2::rat) powi (?a - ?b - 1) * of_int q \<le> 2 powi (?a - ?b - 1) * 2 powi (?b + 1)"
      using B(2) by (simp add: mult_left_mono)
    also have "\<dots> = 2 powi ?a" by (simp add: power_int_add power_int_diff)
    also have "\<dots> \<le> of_int p" by (rule A(1))
    finally show ?thesis using qpos by (simp add: x le_divide_eq)
  qed
  have f: "flog2 x = (if 2 powi (?a - ?b) \<le> x then ?a - ?b else ?a - ?b - 1)"
    by (simp add: flog2_def pq Let_def)
  show "2 powi flog2 x \<le> x" using lo by (simp add: f)
  show "x < 2 powi (flog2 x + 1)" using up by (auto simp: f)
qed

lemma flog2_mono:
  assumes "0 < x" "x \<le> y" shows "flog2 x \<le> flog2 y"
proof -
  have "(2::rat) powi flog2 x < 2 powi (flog2 y + 1)"
    using flog2_spec(1)[of x] flog2_spec(2)[of y] assms by linarith
  then show ?thesis by (simp add: powi_less_iff)
qed

subsection \<open>Rounding is monotone and exact on representable numbers\<close>

lemma rhe_bounds: "\<lfloor>x\<rfloor> \<le> rhe x" "rhe x \<le> \<lfloor>x\<rfloor> + 1"
  by (auto simp: rhe_def Let_def)

lemma rhe_of_int [simp]: "rhe (of_int n) = n"
  by (simp add: rhe_def)

lemma rhe_mono: assumes "x \<le> y" shows "rhe x \<le> rhe y"
proof (cases "\<lfloor>x\<rfloor> = \<lfloor>y\<rfloor>")
  case True
  then show ?thesis using assms by (auto simp: rhe_def Let_def)
next
  case False
  then have "\<lfloor>x\<rfloor> + 1 \<le> \<lfloor>y\<rfloor>" using floor_mono[OF assms] by simp
  then show ?thesis using rhe_bounds[of x] rhe_bounds[of y] by linarith
qed

lemma rhe_ge: "of_int n \<le> x \<Longrightarrow> n \<le> rhe x"
  using rhe_mono[of "of_int n" x] by simp

lemma rhe_le: "x \<le> of_int n \<Longrightarrow> rhe x \<le> n"
  using rhe_mono[of x "of_int n"] by simp

lemma f64_exp_mono: "0 < x \<Longrightarrow> x \<le> y \<Longrightarrow> f64_exp x \<le> f64_exp y"
  using flog2_mono[of x y] by (simp add: f64_exp_def)

lemma scaled_less: "0 < x \<Longrightarrow> x / 2 powi f64_exp x < 2 ^ 53"
proof -
  assume x: "0 < x"
  have "x < 2 powi (flog2 x + 1)" by (rule flog2_spec(2)[OF x])
  also have "\<dots> \<le> 2 powi (f64_exp x + 53)" by (simp add: powi_le_iff f64_exp_def)
  also have "\<dots> = 2 ^ 53 * 2 powi f64_exp x" by (simp add: power_int_add)
  finally show ?thesis by (simp add: divide_less_eq)
qed

lemma scaled_ge: "0 < x \<Longrightarrow> - 1074 < f64_exp x \<Longrightarrow> 2 ^ 52 \<le> x / 2 powi f64_exp x"
proof -
  assume x: "0 < x" and e: "- 1074 < f64_exp x"
  then have "f64_exp x = flog2 x - 52" by (simp add: f64_exp_def)
  then have "(2::rat) ^ 52 * 2 powi f64_exp x = 2 powi flog2 x"
    by (simp add: power_int_diff)
  then show ?thesis using flog2_spec(1)[OF x] by (simp add: le_divide_eq)
qed

lemma round_pos_nonneg: "0 < x \<Longrightarrow> 0 \<le> round_pos x"
  using rhe_ge[of 0 "x / 2 powi f64_exp x"] by (simp add: round_pos_def Let_def)

lemma round_pos_mono:
  assumes "0 < x" "x \<le> y" shows "round_pos x \<le> round_pos y"
proof (cases "f64_exp x = f64_exp y")
  case True
  have "x / 2 powi f64_exp y \<le> y / 2 powi f64_exp y"
    using assms by (simp add: divide_right_mono)
  then have "rhe (x / 2 powi f64_exp y) \<le> rhe (y / 2 powi f64_exp y)" by (rule rhe_mono)
  then show ?thesis by (simp add: round_pos_def Let_def True mult_right_mono)
next
  case False
  then have e: "f64_exp x + 1 \<le> f64_exp y" using f64_exp_mono[OF assms] by simp
  have y: "0 < y" using assms by simp
  have "- 1074 \<le> f64_exp x" by (simp add: f64_exp_def)
  then have "2 ^ 52 \<le> rhe (y / 2 powi f64_exp y)"
    using scaled_ge[OF y] e by (intro rhe_ge) simp
  then have Y: "of_int (2 ^ 52) * 2 powi f64_exp y \<le> round_pos y"
    unfolding round_pos_def Let_def by (intro mult_right_mono) (simp_all del: of_int_power)
  have "rhe (x / 2 powi f64_exp x) \<le> 2 ^ 53"
    using scaled_less[OF assms(1)] by (intro rhe_le) simp
  then have "round_pos x \<le> of_int (2 ^ 53) * 2 powi f64_exp x"
    unfolding round_pos_def Let_def by (intro mult_right_mono) (simp_all del: of_int_power)
  also have "\<dots> = of_int (2 ^ 52) * 2 powi (f64_exp x + 1)" by (simp add: power_int_add)
  also have "\<dots> \<le> of_int (2 ^ 52) * 2 powi f64_exp y"
    using e by (simp add: powi_le_iff)
  finally show ?thesis using Y by simp
qed

lemma f64_round_not_NaN [simp]: "f64_round x \<noteq> F_NaN"
  by (simp add: f64_round_def Let_def)

lemma f64_round_0 [simp]: "f64_round 0 = Fin 0"
  by (simp add: f64_round_def)

lemma f64_round_mono:
  assumes "x \<le> y" shows "f64_round x \<le> f64_round y"
proof -
  consider "0 < x" | "y < 0" | "x \<le> 0" "0 \<le> y" by linarith
  then show ?thesis
  proof cases
    case 1
    then show ?thesis using round_pos_mono[of x y] assms
      by (auto simp: f64_round_def Let_def)
  next
    case 2
    then show ?thesis using round_pos_mono[of "- y" "- x"] assms
      by (auto simp: f64_round_def Let_def)
  next
    case 3
    then show ?thesis using round_pos_nonneg[of y] round_pos_nonneg[of "- x"]
      by (auto simp: f64_round_def Let_def)
  qed
qed

definition f64_rep :: "rat \<Rightarrow> bool" where
  "f64_rep x \<longleftrightarrow> \<bar>x\<bar> < f64_huge \<and>
     (\<exists>m e. - 1074 \<le> e \<and> \<bar>m\<bar> < 2 ^ 53 \<and> x = of_int m * 2 powi e)"

lemma round_pos_rep:
  assumes "0 < x" "- 1074 \<le> e" "\<bar>m\<bar> < 2 ^ 53" "x = of_int m * 2 powi e"
  shows "round_pos x = x"
proof -
  have "of_int m < (2 ^ 53 :: rat)"
    using assms(3) by (metis abs_less_iff of_int_less_iff of_int_numeral of_int_power)
  then have "x < 2 ^ 53 * 2 powi e" using assms(4) by simp
  also have "\<dots> = 2 powi (53 + e)" by (simp add: power_int_add)
  finally have "(2::rat) powi flog2 x < 2 powi (53 + e)" using flog2_spec(1)[OF assms(1)] by linarith
  then have "f64_exp x \<le> e" using assms(2) by (simp add: powi_less_iff f64_exp_def)
  then obtain k where k: "e = f64_exp x + int k" by (metis zle_iff_zadd)
  have "x = of_int (m * 2 ^ k) * 2 powi f64_exp x"
    using assms(4) k by (simp add: power_int_add mult.commute mult.left_commute)
  then have "rhe (x / 2 powi f64_exp x) = m * 2 ^ k"
    by (metis nonzero_mult_div_cancel_right power_int_eq_0_iff rhe_of_int zero_neq_numeral)
  then show ?thesis using \<open>x = of_int (m * 2 ^ k) * 2 powi f64_exp x\<close>
    by (simp add: round_pos_def Let_def)
qed

lemma f64_round_rep: assumes "f64_rep x" shows "f64_round x = Fin x"
proof -
  from assms obtain m e where e: "- 1074 \<le> e" "\<bar>m\<bar> < 2 ^ 53" "x = of_int m * 2 powi e"
    and b: "\<bar>x\<bar> < f64_huge" by (auto simp: f64_rep_def)
  have pos: "0 < x \<Longrightarrow> round_pos x = x" using round_pos_rep e by blast
  have neg: "x < 0 \<Longrightarrow> round_pos (- x) = - x"
    using round_pos_rep[of "- x" e "- m"] e by simp
  show ?thesis using b pos neg
    by (cases "x = 0"; cases "0 < x") (auto simp: f64_round_def Let_def)
qed

lemma f64_rep_of_int: assumes "\<bar>n\<bar> < 2 ^ 53" shows "f64_rep (of_int n)"
proof -
  have "(of_int \<bar>n\<bar> :: rat) < of_int (2 ^ 1024)"
    using assms by (simp only: of_int_less_iff) simp
  then have "\<bar>of_int n :: rat\<bar> < f64_huge" by (simp only: of_int_abs f64_huge_def of_int_power of_int_numeral)
  then show ?thesis using assms unfolding f64_rep_def
    by (intro conjI exI[of _ n] exI[of _ 0]) simp_all
qed

lemma f64_round_of_int: "\<bar>n\<bar> < 2 ^ 53 \<Longrightarrow> f64_round (of_int n) = Fin (of_int n)"
  by (rule f64_round_rep[OF f64_rep_of_int])

lemma f64_round_numeral [simp]:
  "(numeral k :: int) < 2 ^ 53 \<Longrightarrow> f64_round (numeral k) = Fin (numeral k)"
  "(numeral k :: int) < 2 ^ 53 \<Longrightarrow> f64_round (- numeral k) = Fin (- numeral k)"
  "f64_round 1 = Fin 1"
  using f64_round_of_int[of "numeral k"] f64_round_of_int[of "- numeral k"] f64_round_of_int[of 1]
  by simp_all

subsection \<open>Results of rounding are representable\<close>

lemma f64_rep_uminus [simp]: "f64_rep (- x) \<longleftrightarrow> f64_rep x"
proof -
  have "f64_rep (- x)" if "f64_rep x" for x
  proof -
    from that obtain m e where
      "- 1074 \<le> e" "\<bar>m\<bar> < 2 ^ 53" "x = of_int m * 2 powi e" "\<bar>x\<bar> < f64_huge"
      by (auto simp: f64_rep_def)
    then show ?thesis unfolding f64_rep_def
      by (intro conjI exI[of _ "- m"] exI[of _ e]) simp_all
  qed
  from this[of x] this[of "- x"] show ?thesis by auto
qed

lemma f64_rep_0 [simp]: "f64_rep 0"
  using f64_rep_of_int[of 0] by simp

lemma f64_repI:
  "\<bar>x\<bar> < f64_huge \<Longrightarrow> - 1074 \<le> e \<Longrightarrow> \<bar>m\<bar> < 2 ^ 53 \<Longrightarrow> x = of_int m * 2 powi e \<Longrightarrow> f64_rep x"
  unfolding f64_rep_def by blast

lemma round_pos_is_rep:
  assumes "0 < x" "round_pos x < f64_huge" shows "f64_rep (round_pos x)"
proof -
  let ?e = "f64_exp x" and ?m = "rhe (x / 2 powi f64_exp x)"
  have r: "round_pos x = of_int ?m * 2 powi ?e" by (simp add: round_pos_def Let_def)
  have m: "0 \<le> ?m" "?m \<le> 2 ^ 53"
    using assms(1) scaled_less[OF assms(1)] by (auto intro: rhe_ge rhe_le)
  have e: "- 1074 \<le> ?e" by (simp add: f64_exp_def)
  have b: "\<bar>round_pos x\<bar> < f64_huge" using assms round_pos_nonneg by simp
  show ?thesis
  proof (cases "?m = 2 ^ 53")
    case True
    then have m52: "round_pos x = of_int (2 ^ 52) * 2 powi (?e + 1)" using r by (simp add: power_int_add)
    show ?thesis by (rule f64_repI[OF b _ _ m52]) (use e in simp_all)
  next
    case False
    then have "\<bar>?m\<bar> < 2 ^ 53" using m by simp
    then show ?thesis by (rule f64_repI[OF b e _ r])
  qed
qed

lemma f64_round_is_rep: "f64_round x = Fin r \<Longrightarrow> f64_rep r"
proof -
  assume r: "f64_round x = Fin r"
  consider "x = 0" | "0 < x" | "x < 0" by linarith
  then show ?thesis
  proof cases
    case 1
    then show ?thesis using r by simp
  next
    case 2
    then have "r = round_pos x" "round_pos x < f64_huge"
      using r by (auto simp: f64_round_def Let_def split: if_splits)
    then show ?thesis using round_pos_is_rep[OF 2] by simp
  next
    case 3
    then have "r = - round_pos (- x)" "round_pos (- x) < f64_huge"
      using r by (auto simp: f64_round_def Let_def split: if_splits)
    then show ?thesis using round_pos_is_rep[of "- x"] 3 by simp
  qed
qed

lemma f64_round_idem: "f64_round x = Fin r \<Longrightarrow> f64_round r = Fin r"
  by (rule f64_round_rep[OF f64_round_is_rep])

text \<open>A rational between two representable numbers rounds to a number between them.\<close>

lemma f64_round_between:
  assumes "f64_rep a" "f64_rep b" "a \<le> x" "x \<le> b"
  obtains r where "f64_round x = Fin r" "a \<le> r" "r \<le> b"
proof -
  have "Fin a \<le> f64_round x" "f64_round x \<le> Fin b"
    using f64_round_mono[OF assms(3)] f64_round_mono[OF assms(4)] assms(1,2)
    by (simp_all add: f64_round_rep)
  then show ?thesis using that by (cases "f64_round x") auto
qed

lemma f64_rep_1 [simp]: "f64_rep 1"
  using f64_rep_of_int[of 1] by simp

lemma f64_rep_2_64: "f64_rep (2 ^ 64)"
proof -
  have "(2 ^ 64 :: rat) = of_int 1 * 2 powi 64" by simp
  moreover have "\<bar>2 ^ 64 :: rat\<bar> < f64_huge" by (simp add: f64_huge_def)
  ultimately show ?thesis unfolding f64_rep_def
    by (intro conjI exI[of _ 1] exI[of _ 64]) simp_all
qed

lemma f_of_u64_fin: obtains v where "f_of_u64 w = Fin v" "0 \<le> v" "f64_rep v"
proof -
  have "uint w < 2 ^ 64" using uint_lt2p[of w] by simp
  then have "(of_int (uint w) :: rat) \<le> of_int (2 ^ 64)" by (simp only: of_int_le_iff)
  then show ?thesis
    using f64_round_between[OF f64_rep_0 f64_rep_2_64, of "of_int (uint w)"] that f64_round_is_rep
    by (metis f_of_int_def f_of_u64_def of_int_0_le_iff of_int_numeral of_int_power uint_ge_0)
qed

lemma f_of_u64_exact: "uint w < 2 ^ 53 \<Longrightarrow> f_of_u64 w = Fin (of_int (uint w))"
  unfolding f_of_u64_def f_of_int_def by (rule f64_round_of_int) simp

lemma f64_rep_dyadic:
  assumes "\<bar>m\<bar> < 2 ^ 53" "k \<le> 1074" shows "f64_rep (of_int m / 2 ^ k)"
proof (rule f64_repI[where e = "- int k"])
  have "\<bar>of_int m / 2 ^ k :: rat\<bar> \<le> \<bar>of_int m\<bar>" by (simp add: divide_le_eq mult_le_cancel_left1)
  also have "\<dots> < f64_huge" using f64_rep_of_int[OF assms(1)] by (simp add: f64_rep_def)
  finally show "\<bar>of_int m / 2 ^ k :: rat\<bar> < f64_huge" .
  show "of_int m / 2 ^ k = (of_int m * 2 powi - int k :: rat)"
    by (simp add: power_int_minus field_simps)
qed (use assms in simp_all)

lemmas f64_round_dyadic = f64_round_rep[OF f64_rep_dyadic]

end
