(* ===== verification/Durations.thy ===== *)
theory Durations
  imports GoStrings Float64
begin

section \<open>time.Duration and time.ParseDuration\<close>

text \<open>
  A duration is a signed 64-bit count of nanoseconds, an \<open>int\<close> here.  \<open>parse_duration\<close> follows
  the standard library: a sign, then components made of an integer part, an optional fraction and
  a unit, each bounded so that the sum stays within \<open>2 ^ 63\<close>.  \<open>leading_int\<close>, \<open>leading_frac\<close>
  and \<open>dur_component\<close> return the unread rest of the input; the lemmas say that each component
  consumes something (which ends the loop) and that an integer and a unit read back.
\<close>

type_synonym duration = int

definition dur_second :: duration where "dur_second = 1000000000"

datatype dur_error = DurInvalid | DurMissingUnit | DurUnknownUnit

definition unit_map :: "(string \<times> nat) list" where
  "unit_map =
     [(''ns'', 1), (''us'', 1000), ([CHR 0xC2, CHR 0xB5, CHR ''s''], 1000),
      ([CHR 0xCE, CHR 0xBC, CHR ''s''], 1000), (''ms'', 1000000), (''s'', 1000000000),
      (''m'', 60000000000), (''h'', 3600000000000)]"

fun leading_int :: "nat \<Rightarrow> string \<Rightarrow> (nat \<times> string) option" where
  "leading_int x [] = Some (x, [])"
| "leading_int x (c # s) =
     (if \<not> is_digit c then Some (x, c # s)
      else if x > 2 ^ 63 div 10 then None
      else let y = x * 10 + digit_val c in
        if y > 2 ^ 63 then None else leading_int y s)"

text \<open>Value, scale, rest; digits beyond the range are skipped.\<close>

fun leading_frac :: "nat \<Rightarrow> f64 \<Rightarrow> bool \<Rightarrow> string \<Rightarrow> nat \<times> f64 \<times> string" where
  "leading_frac x scale overflow [] = (x, scale, [])"
| "leading_frac x scale overflow (c # s) =
     (if \<not> is_digit c then (x, scale, c # s)
      else if overflow then leading_frac x scale True s
      else if x > (2 ^ 63 - 1) div 10 then leading_frac x scale True s
      else let y = x * 10 + digit_val c in
        if y > 2 ^ 63 then leading_frac x scale True s
        else leading_frac y (f_mul scale (Fin 10)) False s)"

text \<open>\<open>uint64 (x)\<close> of a non-negative float64 truncates.\<close>

fun f_trunc_nat :: "f64 \<Rightarrow> nat" where
  "f_trunc_nat (Fin x) = nat \<lfloor>x\<rfloor>"
| "f_trunc_nat x = 0"

definition is_unit_char :: "char \<Rightarrow> bool" where
  "is_unit_char c \<longleftrightarrow> c \<noteq> CHR ''.'' \<and> \<not> is_digit c"

text \<open>The fraction after the integer part: the fraction, its scale, whether it had digits, the rest.\<close>

definition dur_fraction :: "string \<Rightarrow> nat \<times> f64 \<times> bool \<times> string" where
  "dur_fraction s =
     (if s \<noteq> [] \<and> hd s = CHR ''.'' then
        (case leading_frac 0 (Fin 1) False (tl s) of
           (f, scale, r) \<Rightarrow> (f, scale, length r \<noteq> length (tl s), r))
      else (0, Fin 1, False, s))"

definition dur_component :: "string \<Rightarrow> dur_error + nat \<times> string" where
  "dur_component s =
     (if s = [] \<or> \<not> (hd s = CHR ''.'' \<or> is_digit (hd s)) then Inl DurInvalid
      else case leading_int 0 s of
        None \<Rightarrow> Inl DurInvalid
      | Some (v, s1) \<Rightarrow>
          (case dur_fraction s1 of (f, scale, post, s2) \<Rightarrow>
             if length s1 = length s \<and> \<not> post then Inl DurInvalid
             else let u = takeWhile is_unit_char s2; s3 = dropWhile is_unit_char s2 in
               if u = [] then Inl DurMissingUnit
               else case map_of unit_map u of
                 None \<Rightarrow> Inl DurUnknownUnit
               | Some un \<Rightarrow>
                   if v > 2 ^ 63 div un then Inl DurInvalid
                   else let w = v * un;
                            w' = (if f > 0
                                  then w + f_trunc_nat (f_mul (f_of_int (int f))
                                             (f_div (f_of_int (int un)) scale))
                                  else w)
                        in if f > 0 \<and> w' > 2 ^ 63 then Inl DurInvalid else Inr (w', s3)))"

lemma leading_int_length: "leading_int x s = Some (v, r) \<Longrightarrow> length r \<le> length s"
  by (induction x s rule: leading_int.induct) (auto simp: Let_def split: if_splits)

lemma leading_frac_length: "leading_frac x sc ov s = (f, sc', r) \<Longrightarrow> length r \<le> length s"
  by (induction x sc ov s rule: leading_frac.induct) (force simp: Let_def split: if_splits)+

lemma dur_fraction_length: "dur_fraction s = (f, sc, p, r) \<Longrightarrow> length r \<le> length s"
  by (cases s) (auto simp: dur_fraction_def split: prod.splits if_splits dest: leading_frac_length)

lemma dropWhile_shorter:
  "takeWhile P s \<noteq> [] \<Longrightarrow> length (dropWhile P s) < length s"
  by (metis length_greater_0_conv length_append less_add_same_cancel2 takeWhile_dropWhile_id)

lemma dur_component_shorter:
  assumes "dur_component s = Inr (v, r)" shows "length r < length s"
proof -
  from assms obtain v1 s1 f sc p s2 where
    "leading_int 0 s = Some (v1, s1)" "dur_fraction s1 = (f, sc, p, s2)"
    "takeWhile is_unit_char s2 \<noteq> []" "r = dropWhile is_unit_char s2"
    by (auto simp: dur_component_def Let_def split: if_splits option.splits prod.splits)
  then show ?thesis
    using leading_int_length dur_fraction_length dropWhile_shorter[of is_unit_char s2]
    by fastforce
qed

function dur_loop :: "nat \<Rightarrow> string \<Rightarrow> dur_error + nat" where
  "dur_loop d s =
     (if s = [] then Inr d
      else case dur_component s of
        Inl e \<Rightarrow> Inl e
      | Inr (v, r) \<Rightarrow>
          let d' = (d + v) mod 2 ^ 64 in
          if d' > 2 ^ 63 then Inl DurInvalid else dur_loop d' r)"
  by pat_completeness auto
termination
  by (relation "measure (\<lambda>(d, s). length s)") (auto dest: dur_component_shorter)

declare dur_loop.simps [simp del]

definition parse_duration :: "string \<Rightarrow> dur_error + duration" where
  "parse_duration orig =
     (let neg = (orig \<noteq> [] \<and> hd orig = CHR ''-'');
          s = (if orig \<noteq> [] \<and> (hd orig = CHR ''-'' \<or> hd orig = CHR ''+'') then tl orig else orig)
      in if s = ''0'' then Inr 0
         else if s = [] then Inl DurInvalid
         else case dur_loop 0 s of
           Inl e \<Rightarrow> Inl e
         | Inr d \<Rightarrow>
             if neg then Inr (- int d)
             else if d > 2 ^ 63 - 1 then Inl DurInvalid
             else Inr (int d))"

text \<open>\<open>Duration.Seconds\<close>: the whole seconds plus the rest, each converted on its own.\<close>

definition dur_seconds :: "duration \<Rightarrow> f64" where
  "dur_seconds d =
     f_add (f_of_int (d sdiv dur_second)) (f_div (f_of_int (d smod dur_second)) (Fin 1000000000))"

subsection \<open>Reading back an integer and a unit\<close>

lemma leading_int_digits:
  assumes "list_all is_digit ds" "digits_val x ds \<le> 2 ^ 63" "r = [] \<or> \<not> is_digit (hd r)"
  shows "leading_int x (ds @ r) = Some (digits_val x ds, r)"
  using assms
proof (induction ds arbitrary: x)
  case Nil
  then show ?case by (cases r) auto
next
  case (Cons c ds)
  have y: "x * 10 + digit_val c \<le> 2 ^ 63"
    using Cons.prems(2) digits_val_ge[of "x * 10 + digit_val c" ds] by simp
  then have "x \<le> 2 ^ 63 div 10" by simp
  then show ?case using Cons y by (simp add: Let_def)
qed

lemma unit_map_chars:
  "map_of unit_map u = Some un \<Longrightarrow> u \<noteq> [] \<and> list_all is_unit_char u \<and> 0 < un"
  by (auto simp: unit_map_def is_unit_char_def is_digit_def split: if_splits)

lemma dur_component_int_unit:
  assumes u: "map_of unit_map u = Some un" and n: "n \<le> 2 ^ 63 div un"
  shows "dur_component (nat_str n @ u) = Inr (n * un, [])"
proof -
  have uc: "u \<noteq> []" "list_all is_unit_char u" "0 < un" using unit_map_chars[OF u] by auto
  then have hu: "\<not> is_digit (hd u)" "hd u \<noteq> CHR ''.''"
    by (cases u; auto simp: is_unit_char_def)+
  have tw: "takeWhile is_unit_char u = u" "dropWhile is_unit_char u = []"
    using uc(2) by (simp_all add: list_all_iff takeWhile_eq_all_conv dropWhile_eq_Nil_conv)
  have "n \<le> 2 ^ 63" using n by (meson div_le_dividend order_trans)
  then have li: "leading_int 0 (nat_str n @ u) = Some (n, u)"
    using leading_int_digits[of "nat_str n" 0 u] hu by simp
  have fr: "dur_fraction u = (0, Fin 1, False, u)" using hu by (simp add: dur_fraction_def)
  have hd: "is_digit (hd (nat_str n @ u))" using nat_str_hd_digit by simp
  show ?thesis using hd uc n by (simp add: dur_component_def Let_def li fr tw u)
qed

lemma parse_duration_int_unit:
  assumes u: "map_of unit_map u = Some un" and n: "int (n * un) \<le> max_int64"
  shows "parse_duration (nat_str n @ u) = Inr (int (n * un))"
proof -
  have uc: "u \<noteq> []" "0 < un" using unit_map_chars[OF u] by auto
  have nn: "n * un \<le> 2 ^ 63 - 1" using n by (simp add: max_int64_def flip: of_nat_mult)
  then have "n \<le> 2 ^ 63 div un" using uc(2) by (simp add: less_eq_div_iff_mult_less_eq)
  then have c: "dur_component (nat_str n @ u) = Inr (n * un, [])"
    by (rule dur_component_int_unit[OF u])
  have "dur_loop 0 (nat_str n @ u) = Inr (n * un)"
    using c nn by (simp add: dur_loop.simps[of 0 "nat_str n @ u"] dur_loop.simps[of _ "[]"] Let_def)
  moreover have "hd (nat_str n @ u) \<noteq> CHR ''-''" "hd (nat_str n @ u) \<noteq> CHR ''+''"
    using is_digit_not_sign[OF nat_str_hd_digit[of n]] by auto
  moreover have "nat_str n @ u \<noteq> ''0''" using uc(1) by (cases "nat_str n") auto
  ultimately show ?thesis using nn by (simp add: parse_duration_def Let_def)
qed

lemma mult_div_le_bound: "x \<le> (a::nat) div u \<Longrightarrow> x * u \<le> a"
  by (meson div_times_less_eq_dividend mult_le_mono1 order_trans)

lemma dur_component_bound: "dur_component s = Inr (v, r) \<Longrightarrow> v \<le> 2 ^ 63"
  using mult_div_le_bound
  by (auto simp: dur_component_def Let_def not_less split: if_splits option.splits prod.splits)

lemma dur_loop_bound: "dur_loop d s = Inr v \<Longrightarrow> d \<le> 2 ^ 63 \<Longrightarrow> v \<le> 2 ^ 63"
proof (induction d s rule: dur_loop.induct)
  case (1 d s)
  then show ?case
    by (auto simp: dur_loop.simps[of d s] Let_def split: if_splits sum.splits)
qed

lemma parse_duration_range:
  "parse_duration s = Inr d \<Longrightarrow> min_int64 \<le> d \<and> d \<le> max_int64"
  by (auto simp: parse_duration_def Let_def min_int64_def max_int64_def
      split: if_splits sum.splits dest: dur_loop_bound)

end
