(* ===== verification/GoTime.thy ===== *)
theory GoTime
  imports Durations
begin

section \<open>The parts of Go's time package the replay uses\<close>

text \<open>
  An instant is the number of nanoseconds since 0001-01-01T00:00:00Z, so the zero \<open>time.Time\<close> is 0.
  The calendar is the proleptic Gregorian one.  \<open>format_rfc3339nano\<close> is \<open>Format\<close> with that layout for
  an instant in UTC, \<open>parse_rfc3339\<close> is \<open>Parse\<close> with the layout \<open>2006-01-02T15:04:05\<close> followed by one
  of the three ways to write a zone; both accept and produce what the package documents, which for
  \<open>Parse\<close> includes a one-digit hour and a fraction of a second that the layout does not mention.
\<close>

type_synonym time = int

definition unix_epoch :: int where "unix_epoch = 62135596800"

definition IsZero :: "time \<Rightarrow> bool" where "IsZero t = (t = 0)"

definition time_Unix :: "int \<Rightarrow> int \<Rightarrow> time" where
  "time_Unix s ns = (s + unix_epoch) * 1000000000 + ns"

text \<open>\<open>Sub\<close> saturates to the range of \<open>Duration\<close>.\<close>

definition time_Sub :: "time \<Rightarrow> time \<Rightarrow> int" where
  "time_Sub t u = max min_int64 (min max_int64 (t - u))"

definition time_Add :: "time \<Rightarrow> int \<Rightarrow> time" where
  "time_Add t d = t + d"

definition UnixMicro :: "time \<Rightarrow> int" where
  "UnixMicro t = wrap64 ((t div 1000000000 - unix_epoch) * 1000000 + t mod 1000000000 div 1000)"

subsection \<open>The calendar\<close>

definition leap :: "int \<Rightarrow> bool" where
  "leap y = (y mod 4 = 0 \<and> (y mod 100 \<noteq> 0 \<or> y mod 400 = 0))"

definition month_lengths :: "int \<Rightarrow> int list" where
  "month_lengths y = [31, if leap y then 29 else 28, 31, 30, 31, 30, 31, 31, 30, 31, 30, 31]"

definition days_before_year :: "int \<Rightarrow> int" where
  "days_before_year y = 365 * (y - 1) + (y - 1) div 4 - (y - 1) div 100 + (y - 1) div 400"

definition days_from_civil :: "int \<Rightarrow> nat \<Rightarrow> int \<Rightarrow> int" where
  "days_from_civil y m d = days_before_year y + sum_list (take (m - 1) (month_lengths y)) + (d - 1)"

text \<open>The year of a day and the day's index in it, by cycles of 400, 100, 4 and 1 years.\<close>

definition year_day :: "int \<Rightarrow> int \<times> int" where
  "year_day n =
     (let r400 = n mod 146097; c = min 3 (r400 div 36524); r100 = r400 - c * 36524;
          q = r100 div 1461; r4 = r100 mod 1461; y = min 3 (r4 div 365)
      in (400 * (n div 146097) + 100 * c + 4 * q + y + 1, r4 - y * 365))"

fun find_month :: "int list \<Rightarrow> nat \<Rightarrow> int \<Rightarrow> nat \<times> int" where
  "find_month [] m d = (m, d + 1)"
| "find_month (l # ls) m d = (if d < l then (m, d + 1) else find_month ls (m + 1) (d - l))"

subsection \<open>Format\<close>

definition pad_zero :: "nat \<Rightarrow> nat \<Rightarrow> string" where
  "pad_zero w n = replicate (w - length (nat_str n)) (CHR ''0'') @ nat_str n"

definition fraction :: "nat \<Rightarrow> string" where
  "fraction ns = (if ns = 0 then [] else CHR ''.'' # rev (dropWhile (\<lambda>c. c = CHR ''0'') (rev (pad_zero 9 ns))))"

definition format_rfc3339nano :: "time \<Rightarrow> string" where
  "format_rfc3339nano t =
     (let secs = t div 1000000000; day = secs div 86400; s = nat (secs mod 86400);
          (y, yd) = year_day day; (m, d) = find_month (month_lengths y) 1 yd
      in (if y < 0 then [CHR ''-''] else []) @ pad_zero 4 (nat \<bar>y\<bar>) @ ''-'' @ pad_zero 2 m @ ''-'' @ pad_zero 2 (nat d)
         @ ''T'' @ pad_zero 2 (s div 3600) @ '':'' @ pad_zero 2 (s div 60 mod 60) @ '':'' @ pad_zero 2 (s mod 60)
         @ fraction (nat (t mod 1000000000)) @ ''Z'')"

subsection \<open>Parse\<close>

datatype zone_layout = ZoneColon | ZoneBare | ZoneHour

fun num2 :: "string \<Rightarrow> (nat \<times> string) option" where
  "num2 (a # b # r) = (if is_digit a \<and> is_digit b then Some (digits_val 0 [a, b], r) else None)"
| "num2 _ = None"

fun num_hour :: "string \<Rightarrow> (nat \<times> string) option" where
  "num_hour [] = None"
| "num_hour (a # r) =
     (if \<not> is_digit a then None
      else case r of
        b # r' \<Rightarrow> if is_digit b then Some (digits_val 0 [a, b], r') else Some (digit_val a, r)
      | [] \<Rightarrow> Some (digit_val a, r))"

definition num4 :: "string \<Rightarrow> (nat \<times> string) option" where
  "num4 s = (if 4 \<le> length s \<and> list_all is_digit (take 4 s) then Some (digits_val 0 (take 4 s), drop 4 s) else None)"

fun expect :: "char \<Rightarrow> string \<Rightarrow> string option" where
  "expect c [] = None"
| "expect c (x # r) = (if x = c then Some r else None)"

definition opt_fraction :: "string \<Rightarrow> nat \<times> string" where
  "opt_fraction s =
     (case s of
        p # r \<Rightarrow>
          if (p = CHR ''.'' \<or> p = CHR '','') \<and> r \<noteq> [] \<and> is_digit (hd r)
          then (let ds = take 9 (takeWhile is_digit r) in
                (digits_val 0 ds * 10 ^ (9 - length ds), dropWhile is_digit r))
          else (0, s)
      | [] \<Rightarrow> (0, s))"

definition parse_offset :: "char \<Rightarrow> (nat \<times> string) option \<Rightarrow> (nat \<times> string) option \<Rightarrow> string \<Rightarrow> (int \<times> string) option" where
  "parse_offset sign hh mm rest =
     (case (hh, mm) of
        (Some (h, _), Some (m, _)) \<Rightarrow>
          if 24 < h \<or> 60 < m then None
          else if sign = CHR ''+'' then Some (int (h * 60 + m) * 60, rest)
          else if sign = CHR ''-'' then Some (- (int (h * 60 + m) * 60), rest)
          else None
      | _ \<Rightarrow> None)"

definition parse_zone :: "zone_layout \<Rightarrow> string \<Rightarrow> (int \<times> string) option" where
  "parse_zone layout s =
     (case s of
        [] \<Rightarrow> None
      | c # r \<Rightarrow>
          if c = CHR ''Z'' then Some (0, r)
          else (case layout of
              ZoneColon \<Rightarrow>
                if length s < 6 \<or> s ! 3 \<noteq> CHR '':'' then None
                else parse_offset c (num2 (take 2 r)) (num2 (take 2 (drop 4 s))) (drop 6 s)
            | ZoneBare \<Rightarrow>
                if length s < 5 then None
                else parse_offset c (num2 (take 2 r)) (num2 (take 2 (drop 3 s))) (drop 5 s)
            | ZoneHour \<Rightarrow>
                if length s < 3 then None
                else parse_offset c (num2 (take 2 r)) (num2 ''00'') (drop 3 s)))"

definition parse_rfc3339 :: "zone_layout \<Rightarrow> string \<Rightarrow> time option" where
  "parse_rfc3339 layout s =
     Option.bind (num4 s) (\<lambda>(y, s).
     Option.bind (Option.bind (expect (CHR ''-'') s) num2) (\<lambda>(mo, s).
     if mo = 0 \<or> 12 < mo then None else
     Option.bind (Option.bind (expect (CHR ''-'') s) num2) (\<lambda>(d, s).
     Option.bind (Option.bind (expect (CHR ''T'') s) num_hour) (\<lambda>(h, s).
     if 24 \<le> h then None else
     Option.bind (Option.bind (expect (CHR '':'') s) num2) (\<lambda>(mi, s).
     if 60 \<le> mi then None else
     Option.bind (Option.bind (expect (CHR '':'') s) num2) (\<lambda>(se, s).
     if 60 \<le> se then None else
     (case opt_fraction s of (ns, s) \<Rightarrow>
     Option.bind (parse_zone layout s) (\<lambda>(offset, rest).
     if rest \<noteq> [] \<or> d = 0 \<or> month_lengths (int y) ! (mo - 1) < int d then None
     else Some ((days_from_civil (int y) mo (int d) * 86400 + int (h * 3600 + mi * 60 + se) - offset)
                  * 1000000000 + int ns)))))))))"

lemma time_Sub_exact: "min_int64 \<le> t - u \<Longrightarrow> t - u \<le> max_int64 \<Longrightarrow> time_Sub t u = t - u"
  by (simp add: time_Sub_def)

lemma time_Sub_mono: "t \<le> t' \<Longrightarrow> time_Sub t u \<le> time_Sub t' u"
  by (auto simp: time_Sub_def)

end
