(* ===== verification/EventWriter.thy ===== *)
theory EventWriter
  imports Randomize GoTime GoStrings Stacks
begin

section \<open>Writing events for replay (loadgen/eventhandler/apm-writer.go, handler.go)\<close>

text \<open>
  The JSON packages (gjson, sjson, fastjson) are a parameter: a record of the functions the code
  calls.  \<open>gj_pairs r\<close> is the sequence of pairs with which \<open>r.ForEach\<close> calls its iterator as long as
  the iterator returns true.  The writer has the code's two scratch buffers and the stream of bytes
  handed to the compressor.
\<close>

datatype gj_type = GNumber | GString | GOther

record gj_result =
  Raw :: string
  Str :: string
  gj_kind :: gj_type
  gj_exists :: bool
  gj_int :: int

record json_lib =
  gj_parse :: "bytes \<Rightarrow> gj_result"
  gj_get_bytes :: "bytes \<Rightarrow> string \<Rightarrow> gj_result"
  gj_get :: "gj_result \<Rightarrow> string \<Rightarrow> gj_result"
  gj_pairs :: "gj_result \<Rightarrow> (gj_result \<times> gj_result) list"
  sj_set_string :: "bytes \<Rightarrow> string \<Rightarrow> string \<Rightarrow> string + bytes"
  fj_string :: "string \<Rightarrow> string"

record event =
  payload :: bytes
  objectType :: string
  timestamp :: time

record batch =
  metadata :: bytes
  events :: "event list"

text \<open>The part of \<open>Config\<close> that the handler and the writer read.\<close>

record config =
  IgnoreErrors :: bool
  RunForever :: bool
  RewriteTimestamps :: bool
  RewriteIDs :: bool
  RewriteServiceNames :: bool
  RewriteServiceNodeNames :: bool
  RewriteServiceTargetNames :: bool
  RewriteSpanNames :: bool
  RewriteTransactionNames :: bool
  RewriteTransactionTypes :: bool
  TargetStackVersion :: target_stack_version

record event_writer =
  rewriteBuf :: string
  idBuf :: string
  stream :: bytes
  written :: nat

definition newEventWriter :: event_writer where
  "newEventWriter = \<lparr>rewriteBuf = [], idBuf = [], stream = [], written = 0\<rparr>"

definition Write :: "bytes \<Rightarrow> event_writer \<Rightarrow> event_writer" where
  "Write p w = w\<lparr>written := written w + length p, stream := stream w @ p\<rparr>"

definition RawString :: "string \<Rightarrow> event_writer \<Rightarrow> event_writer" where
  "RawString s w = w\<lparr>rewriteBuf := rewriteBuf w @ s\<rparr>"

definition newlineBytes :: bytes where "newlineBytes = [CHR 0x0A]"

subsection \<open>rewriteJSONObject\<close>

fun ForEach :: "(gj_result \<times> gj_result) list \<Rightarrow> (gj_result \<Rightarrow> gj_result \<Rightarrow> 's \<Rightarrow> 's \<times> bool) \<Rightarrow> 's \<Rightarrow> 's" where
  "ForEach [] f s = s"
| "ForEach ((key, val) # ps) f s = (case f key val s of (s', goOn) \<Rightarrow> if goOn then ForEach ps f s' else s')"

definition rewriteJSONObject ::
    "json_lib \<Rightarrow> gj_result \<Rightarrow> (gj_result \<Rightarrow> gj_result \<Rightarrow> event_writer \<Rightarrow> event_writer \<times> bool)
       \<Rightarrow> event_writer \<Rightarrow> event_writer" where
  "rewriteJSONObject lib object f w =
     (let w1 = RawString ''{'' w;
          (w2, first) = ForEach (gj_pairs lib object) (\<lambda>key val (w, first).
             let w = (if first then w else RawString '','' w);
                 w = RawString '':'' (RawString (Raw key) w)
             in case f key val w of (w', goOn) \<Rightarrow> ((w', False), goOn)) (w1, True)
      in RawString ''}'' w2)"

subsection \<open>randomizeASCIIField\<close>

definition randomizeASCIIField ::
    "json_lib \<Rightarrow> bytes \<Rightarrow> string \<Rightarrow> u64 \<Rightarrow> event_writer \<Rightarrow> string + bytes \<times> event_writer" where
  "randomizeASCIIField lib data path randomBits w =
     (let result = gj_get_bytes lib data path in
      if \<not> gj_exists result then Inr (data, w)
      else let buf = randomizeASCII (idBuf w) (Str result) randomBits in
        case sj_set_string lib data path buf of
          Inl err \<Rightarrow> Inl (''failed to rewrite \"'' @ path @ ''\": '' @ err)
        | Inr data' \<Rightarrow> Inr (data', w\<lparr>idBuf := []\<rparr>))"

subsection \<open>Timestamps\<close>

definition rewritten_time :: "event \<Rightarrow> time \<Rightarrow> time \<Rightarrow> time" where
  "rewritten_time ev minTimestamp baseTimestamp =
     time_Add baseTimestamp (time_Sub (timestamp ev) minTimestamp)"

definition rewriteTimestamp7x :: "event \<Rightarrow> time \<Rightarrow> time \<Rightarrow> event_writer \<Rightarrow> event_writer" where
  "rewriteTimestamp7x ev minTimestamp baseTimestamp w =
     RawString (nat_str (unat (word_of_int (UnixMicro (rewritten_time ev minTimestamp baseTimestamp)) :: u64))) w"

definition rewriteTimestampLatest :: "event \<Rightarrow> time \<Rightarrow> time \<Rightarrow> event_writer \<Rightarrow> event_writer" where
  "rewriteTimestampLatest ev minTimestamp baseTimestamp w =
     RawString ''\"'' (RawString (format_rfc3339nano (rewritten_time ev minTimestamp baseTimestamp)) (RawString ''\"'' w))"

subsection \<open>writeAPMEvents\<close>

definition rewriteAny :: "config \<Rightarrow> bool" where
  "rewriteAny c = (RewriteTimestamps c \<or> RewriteIDs c \<or> RewriteServiceNames c \<or> RewriteServiceNodeNames c
     \<or> RewriteServiceTargetNames c \<or> RewriteSpanNames c \<or> RewriteTransactionNames c \<or> RewriteTransactionTypes c)"

text \<open>The innermost callbacks: \<open>context.service.target\<close>, \<open>context.service\<close> and \<open>context\<close>.\<close>

definition cb_target :: "json_lib \<Rightarrow> u64 \<Rightarrow> gj_result \<Rightarrow> gj_result \<Rightarrow> event_writer \<Rightarrow> event_writer \<times> bool" where
  "cb_target lib randomBits key val w =
     (if Str key \<noteq> ''name'' then (RawString (Raw val) w, True)
      else
        let w1 = w\<lparr>idBuf := randomizeASCII (idBuf w) (Str val) randomBits\<rparr>;
            w2 = RawString (fj_string lib (idBuf w1)) w1
        in (w2\<lparr>idBuf := []\<rparr>, True))"

definition cb_service :: "json_lib \<Rightarrow> u64 \<Rightarrow> gj_result \<Rightarrow> gj_result \<Rightarrow> event_writer \<Rightarrow> event_writer \<times> bool" where
  "cb_service lib randomBits key val w =
     (if Str key \<noteq> ''target'' then (RawString (Raw val) w, True)
      else (rewriteJSONObject lib val (cb_target lib randomBits) w, True))"

definition cb_context :: "json_lib \<Rightarrow> u64 \<Rightarrow> gj_result \<Rightarrow> gj_result \<Rightarrow> event_writer \<Rightarrow> event_writer \<times> bool" where
  "cb_context lib randomBits key val w =
     (if Str key \<noteq> ''service'' then (RawString (Raw val) w, True)
      else (rewriteJSONObject lib val (cb_service lib randomBits) w, True))"

definition cb_event ::
    "json_lib \<Rightarrow> config \<Rightarrow> time \<Rightarrow> time \<Rightarrow> u64 \<Rightarrow> event \<Rightarrow> gj_result \<Rightarrow> gj_result \<Rightarrow> event_writer
       \<Rightarrow> event_writer \<times> bool" where
  "cb_event lib cfg minTimestamp baseTimestamp randomBits ev key val w =
     (if Str key = ''timestamp'' then
        (if RewriteTimestamps cfg \<and> \<not> IsZero (timestamp ev) then
           (case TargetStackVersion cfg of
              TargetStackVersionUnknown \<Rightarrow> (rewriteTimestampLatest ev minTimestamp baseTimestamp w, True)
            | TargetStackVersion7x \<Rightarrow> (rewriteTimestamp7x ev minTimestamp baseTimestamp w, True)
            | TargetStackVersionLatest \<Rightarrow> (rewriteTimestampLatest ev minTimestamp baseTimestamp w, True))
         else (RawString (Raw val) w, True))
      else if Str key \<in> {''id'', ''parent_id'', ''trace_id'', ''transaction_id''} then
        (if RewriteIDs cfg then
           (case randomizeTraceID (idBuf w) (Str val) randomBits of
              (buf, True) \<Rightarrow>
                (let w1 = w\<lparr>idBuf := buf\<rparr>;
                     w2 = RawString ''\"'' (RawString (idBuf w1) (RawString ''\"'' w1))
                 in (w2\<lparr>idBuf := []\<rparr>, True))
            | (buf, False) \<Rightarrow> (RawString (Raw val) (w\<lparr>idBuf := buf\<rparr>), True))
         else (RawString (Raw val) w, True))
      else if Str key = ''name'' then
        (let w1 = w\<lparr>idBuf := randomizeASCII (idBuf w) (Str val) randomBits\<rparr>;
             w2 = (if RewriteSpanNames cfg \<and> objectType ev = ''span'' then RawString (fj_string lib (idBuf w1)) w1
                   else if RewriteTransactionNames cfg \<and> objectType ev = ''transaction''
                     then RawString (fj_string lib (idBuf w1)) w1
                   else RawString (Raw val) w1)
         in (w2\<lparr>idBuf := []\<rparr>, True))
      else if Str key = ''type'' then
        (if RewriteTransactionTypes cfg \<and> objectType ev = ''transaction'' then
           (let w1 = w\<lparr>idBuf := randomizeASCII (idBuf w) (Str val) randomBits\<rparr>;
                w2 = RawString (fj_string lib (idBuf w1)) w1
            in (w2\<lparr>idBuf := []\<rparr>, True))
         else (RawString (Raw val) w, True))
      else if Str key = ''context'' then
        (if \<not> RewriteServiceTargetNames cfg then (RawString (Raw val) w, True)
         else (rewriteJSONObject lib val (cb_context lib randomBits) w, True))
      else (RawString (Raw val) w, True))"

definition write_event ::
    "json_lib \<Rightarrow> config \<Rightarrow> time \<Rightarrow> time \<Rightarrow> u64 \<Rightarrow> event \<Rightarrow> event_writer \<Rightarrow> event_writer" where
  "write_event lib cfg minTimestamp baseTimestamp randomBits ev w =
     (if \<not> rewriteAny cfg then Write newlineBytes (Write (payload ev) w)
      else
        let w1 = RawString '':'' (RawString (fj_string lib (objectType ev)) (RawString ''{'' w));
            w2 = rewriteJSONObject lib (gj_get_bytes lib (payload ev) (objectType ev))
                   (cb_event lib cfg minTimestamp baseTimestamp randomBits ev) w1;
            w3 = RawString ''}'' w2;
            w4 = Write newlineBytes (Write (rewriteBuf w3) w3)
        in w4\<lparr>rewriteBuf := []\<rparr>)"

definition rewrite_metadata :: "json_lib \<Rightarrow> config \<Rightarrow> u64 \<Rightarrow> bytes \<Rightarrow> event_writer \<Rightarrow> string + bytes \<times> event_writer" where
  "rewrite_metadata lib cfg randomBits md w =
     res_bind (if RewriteServiceNames cfg
               then map_err (\<lambda>e. ''failed to rewrite `service.name`: '' @ e)
                      (randomizeASCIIField lib md ''metadata.service.name'' randomBits w)
               else Inr (md, w)) (\<lambda>(md1, w1).
     if RewriteServiceNodeNames cfg
     then map_err (\<lambda>e. ''failed to rewrite `service.node.name`: '' @ e)
            (randomizeASCIIField lib md1 ''metadata.service.node.configured_name'' randomBits w1)
     else Inr (md1, w1))"

definition writeAPMEvents ::
    "json_lib \<Rightarrow> config \<Rightarrow> time \<Rightarrow> event_writer \<Rightarrow> batch \<Rightarrow> time \<Rightarrow> u64 \<Rightarrow> string + event_writer" where
  "writeAPMEvents lib cfg minTimestamp w b baseTimestamp randomBits =
     res_bind (rewrite_metadata lib cfg randomBits (metadata b) w) (\<lambda>(md, w1).
     Inr (fold (write_event lib cfg minTimestamp baseTimestamp randomBits) (events b)
            (Write newlineBytes (Write md w1))))"

subsection \<open>The text of a rewritten event\<close>

text \<open>What the callbacks append, as functions of the pair alone.\<close>

definition object_text :: "json_lib \<Rightarrow> (gj_result \<Rightarrow> gj_result \<Rightarrow> string) \<Rightarrow> gj_result \<Rightarrow> string" where
  "object_text lib g r =
     ''{'' @ join_with '','' (map (\<lambda>(k, v). Raw k @ '':'' @ g k v) (gj_pairs lib r)) @ ''}''"

definition target_text :: "json_lib \<Rightarrow> u64 \<Rightarrow> gj_result \<Rightarrow> gj_result \<Rightarrow> string" where
  "target_text lib bits k v =
     (if Str k = ''name'' then fj_string lib (randomizeASCII [] (Str v) bits) else Raw v)"

definition service_text :: "json_lib \<Rightarrow> u64 \<Rightarrow> gj_result \<Rightarrow> gj_result \<Rightarrow> string" where
  "service_text lib bits k v = (if Str k = ''target'' then object_text lib (target_text lib bits) v else Raw v)"

definition context_text :: "json_lib \<Rightarrow> u64 \<Rightarrow> gj_result \<Rightarrow> gj_result \<Rightarrow> string" where
  "context_text lib bits k v = (if Str k = ''service'' then object_text lib (service_text lib bits) v else Raw v)"

definition time_text :: "target_stack_version \<Rightarrow> time \<Rightarrow> string" where
  "time_text v t = (if v = TargetStackVersion7x then nat_str (unat (word_of_int (UnixMicro t) :: u64))
     else ''\"'' @ format_rfc3339nano t @ ''\"'')"

definition id_keys :: "string set" where
  "id_keys = {''id'', ''parent_id'', ''trace_id'', ''transaction_id''}"

definition value_text ::
    "json_lib \<Rightarrow> config \<Rightarrow> time \<Rightarrow> time \<Rightarrow> u64 \<Rightarrow> event \<Rightarrow> gj_result \<Rightarrow> gj_result \<Rightarrow> string" where
  "value_text lib cfg minT base bits ev k v =
     (if Str k = ''timestamp'' \<and> RewriteTimestamps cfg \<and> \<not> IsZero (timestamp ev)
        then time_text (TargetStackVersion cfg) (rewritten_time ev minT base)
      else if Str k \<in> id_keys \<and> RewriteIDs cfg \<and> list_all is_hex (Str v)
        then ''\"'' @ trace_loop bits (Str v) @ ''\"''
      else if Str k = ''name'' \<and> (RewriteSpanNames cfg \<and> objectType ev = ''span''
                \<or> RewriteTransactionNames cfg \<and> objectType ev = ''transaction'')
           \<or> Str k = ''type'' \<and> RewriteTransactionTypes cfg \<and> objectType ev = ''transaction''
        then fj_string lib (randomizeASCII [] (Str v) bits)
      else if Str k = ''context'' \<and> RewriteServiceTargetNames cfg then object_text lib (context_text lib bits) v
      else Raw v)"

definition event_text :: "json_lib \<Rightarrow> config \<Rightarrow> time \<Rightarrow> time \<Rightarrow> u64 \<Rightarrow> event \<Rightarrow> string" where
  "event_text lib cfg minT base bits ev =
     (if rewriteAny cfg
      then ''{'' @ fj_string lib (objectType ev) @ '':''
             @ object_text lib (value_text lib cfg minT base bits ev) (gj_get_bytes lib (payload ev) (objectType ev))
             @ ''}''
      else payload ev)"

lemma RawString_simps [simp]:
  "RawString t (RawString s w) = RawString (s @ t) w" "idBuf (RawString s w) = idBuf w"
  "rewriteBuf (RawString s w) = rewriteBuf w @ s" "stream (RawString s w) = stream w"
  "written (RawString s w) = written w" "RawString [] w = w"
  by (simp_all add: RawString_def)

lemma Write_simps [simp]:
  "Write q (Write p w) = Write (p @ q) w" "idBuf (Write p w) = idBuf w" "rewriteBuf (Write p w) = rewriteBuf w"
  "stream (Write p w) = stream w @ p" "written (Write p w) = written w + length p"
  by (simp_all add: Write_def)

text \<open>A callback that appends a text and continues.\<close>

definition appends :: "(gj_result \<Rightarrow> gj_result \<Rightarrow> event_writer \<Rightarrow> event_writer \<times> bool)
    \<Rightarrow> (gj_result \<Rightarrow> gj_result \<Rightarrow> string) \<Rightarrow> bool" where
  "appends f g \<longleftrightarrow> (\<forall>k v w. idBuf w = [] \<longrightarrow> f k v w = (RawString (g k v) w, True))"

lemma rewriteJSONObject_text:
  assumes "appends f g" "idBuf w = []"
  shows "rewriteJSONObject lib r f w = RawString (object_text lib g r) w"
proof -
  let ?body = "\<lambda>key val (w, first).
             let w = (if first then w else RawString '','' w);
                 w = RawString '':'' (RawString (Raw key) w)
             in case f key val w of (w', goOn) \<Rightarrow> ((w', False), goOn)"
  let ?e = "\<lambda>(k, v). Raw k @ '':'' @ g k v"
  have rest: "ForEach ps ?body (u, False) = (RawString (concat (map (\<lambda>y. '','' @ y) (map ?e ps))) u, False)"
    if "idBuf u = []" for ps u
    using that by (induction ps arbitrary: u) (use assms(1) in \<open>auto simp: Let_def appends_def\<close>)
  show ?thesis
  proof (cases "gj_pairs lib r")
    case Nil
    then show ?thesis by (simp add: rewriteJSONObject_def object_text_def)
  next
    case (Cons p ps)
    obtain k v where p: "p = (k, v)" by (cases p)
    have "ForEach (p # ps) ?body (RawString ''{'' w, True)
        = ForEach ps ?body (RawString (''{'' @ ?e p) w, False)"
      using assms by (simp add: p Let_def appends_def)
    also have "\<dots> = (RawString (''{'' @ join_with '','' (map ?e (p # ps))) w, False)"
      using assms(2) by (subst rest) (simp_all add: join_with_Cons comp_def)
    finally show ?thesis
      by (simp add: rewriteJSONObject_def object_text_def Cons del: ForEach.simps)
  qed
qed

lemma appends_nested:
  assumes "appends f g"
  shows "appends (\<lambda>k v w. if P k then (RawString (Raw v) w, True) else (rewriteJSONObject lib v f w, True))
           (\<lambda>k v. if P k then Raw v else object_text lib g v)"
  using assms by (simp add: appends_def rewriteJSONObject_text)

lemma cb_target_appends: "appends (cb_target lib bits) (target_text lib bits)"
  by (simp add: appends_def cb_target_def target_text_def Let_def RawString_def)

lemma cb_service_appends: "appends (cb_service lib bits) (service_text lib bits)"
  by (auto simp: appends_def cb_service_def service_text_def rewriteJSONObject_text[OF cb_target_appends])

lemma cb_context_appends: "appends (cb_context lib bits) (context_text lib bits)"
  by (auto simp: appends_def cb_context_def context_text_def rewriteJSONObject_text[OF cb_service_appends])

lemma reset_idBuf: "idBuf w = [] \<Longrightarrow> w\<lparr>idBuf := []\<rparr> = w"
  by simp

lemma idBuf_roundtrip:
  "idBuf w = [] \<Longrightarrow> (RawString s (w\<lparr>idBuf := b\<rparr>))\<lparr>idBuf := []\<rparr> = RawString s w"
  by (simp add: RawString_def)

lemma rewriteTimestamp_text:
  "rewriteTimestamp7x ev m b w = RawString (time_text TargetStackVersion7x (rewritten_time ev m b)) w"
  "rewriteTimestampLatest ev m b w = RawString (time_text TargetStackVersionLatest (rewritten_time ev m b)) w"
  "time_text TargetStackVersionUnknown t = time_text TargetStackVersionLatest t"
  by (simp_all add: rewriteTimestamp7x_def rewriteTimestampLatest_def time_text_def)

lemma cb_event_appends: "appends (cb_event lib cfg minT base bits ev) (value_text lib cfg minT base bits ev)"
  unfolding appends_def
proof (intro allI impI)
  fix k v :: gj_result and w :: event_writer assume w: "idBuf w = []"
  consider "Str k = ''timestamp''" | "Str k \<in> id_keys" | "Str k = ''name''" | "Str k = ''type''" | "Str k = ''context''"
    | "Str k \<notin> insert ''timestamp'' (insert ''name'' (insert ''type'' (insert ''context'' id_keys)))" by blast
  then show "cb_event lib cfg minT base bits ev k v w = (RawString (value_text lib cfg minT base bits ev k v) w, True)"
  proof cases
    case 1
    then show ?thesis
      by (simp add: cb_event_def value_text_def id_keys_def rewriteTimestamp_text
          split: target_stack_version.split)
  next
    case 2
    then show ?thesis using w
      by (auto simp: cb_event_def value_text_def id_keys_def randomizeTraceID_def idBuf_roundtrip reset_idBuf Let_def)
  next
    case 3
    then show ?thesis using w
      by (simp add: cb_event_def value_text_def id_keys_def idBuf_roundtrip Let_def)
  next
    case 4
    then show ?thesis using w
      by (simp add: cb_event_def value_text_def id_keys_def idBuf_roundtrip Let_def)
  next
    case 5
    then show ?thesis using w
      by (simp add: cb_event_def value_text_def id_keys_def rewriteJSONObject_text[OF cb_context_appends])
  next
    case 6
    then show ?thesis by (simp add: cb_event_def value_text_def id_keys_def)
  qed
qed

lemma write_event_text:
  assumes "idBuf w = []" "rewriteBuf w = []"
  shows "write_event lib cfg minT base bits ev w = Write (event_text lib cfg minT base bits ev @ newlineBytes) w"
  using assms
  by (simp add: write_event_def event_text_def Let_def rewriteJSONObject_text[OF cb_event_appends] Write_def)

lemma write_events_text:
  assumes "idBuf w = []" "rewriteBuf w = []"
  shows "fold (write_event lib cfg minT base bits) evs w
     = Write (concat (map (\<lambda>ev. event_text lib cfg minT base bits ev @ newlineBytes) evs)) w"
  using assms
proof (induction evs arbitrary: w)
  case Nil
  then show ?case by (simp add: Write_def)
qed (simp add: write_event_text)

lemma rewrite_metadata_scratch:
  assumes "rewrite_metadata lib cfg bits md w = Inr (md', w')" "idBuf w = []"
  shows "w' = w"
proof -
  have f: "w'' = w" if "randomizeASCIIField lib d p bits w = Inr (d', w'')" "idBuf w = []" for d p d' w w''
    using that by (auto simp: randomizeASCIIField_def Let_def split: if_splits sum.splits)
  show ?thesis using assms f
    by (auto simp: rewrite_metadata_def res_bind_Inr_iff split: if_splits) (metis f)+
qed

subsection \<open>Properties\<close>

text \<open>C6 (what is written for a batch).  With a fresh writer, the stream is the metadata, rewritten in
  at most the two service fields, and then one line per event in order: the payload as it is when no
  rewriting is on, and otherwise an object with the event's type and all pairs of its payload in
  their order, each key as it was and each value replaced as the options say (timestamps, identifiers
  that are all hex, names and types of spans and transactions, the service target's name) or kept.
  The scratch buffers are empty again and the byte count is the length of the stream.\<close>

theorem written_batch:
  "writeAPMEvents lib cfg minT newEventWriter b base bits =
     map_err id (res_bind (rewrite_metadata lib cfg bits (metadata b) newEventWriter) (\<lambda>(md, w).
       let out = md @ newlineBytes
             @ concat (map (\<lambda>ev. event_text lib cfg minT base bits ev @ newlineBytes) (events b))
       in Inr \<lparr>rewriteBuf = [], idBuf = [], stream = out, written = length out\<rparr>))"
proof (cases "rewrite_metadata lib cfg bits (metadata b) newEventWriter")
  case (Inl e)
  then show ?thesis by (simp add: writeAPMEvents_def)
next
  case (Inr r)
  obtain md w where r: "r = (md, w)" by (cases r)
  have w: "w = newEventWriter"
    using rewrite_metadata_scratch[of lib cfg bits "metadata b" newEventWriter md w] Inr r
    by (simp add: newEventWriter_def)
  have e: "idBuf (Write p newEventWriter) = []" "rewriteBuf (Write p newEventWriter) = []" for p
    by (simp_all add: newEventWriter_def)
  show ?thesis
    by (simp add: writeAPMEvents_def Inr r w write_events_text[OF e] Let_def)
       (simp add: Write_def newEventWriter_def)
qed

text \<open>No rewriting is the identity.  With every rewrite option off, the stream holds the recorded
  metadata and payloads byte for byte, one per line, whatever the JSON packages do.\<close>

lemma no_rewrite_is_verbatim:
  assumes "\<not> rewriteAny cfg"
  shows "\<exists>w. writeAPMEvents lib cfg minT newEventWriter b base bits = Inr w \<and>
     stream w = concat (map (\<lambda>l. l @ newlineBytes) (metadata b # map payload (events b)))"
proof -
  have e: "idBuf (Write p newEventWriter) = []" "rewriteBuf (Write p newEventWriter) = []" for p
    by (simp_all add: newEventWriter_def)
  show ?thesis using assms
    by (simp add: writeAPMEvents_def rewrite_metadata_def rewriteAny_def write_events_text[OF e] event_text_def)
       (simp add: newEventWriter_def comp_def)
qed

definition ex_lib :: json_lib where
  "ex_lib = \<lparr>gj_parse = \<lambda>d. \<lparr>Raw = d, Str = [], gj_kind = GOther, gj_exists = True, gj_int = 0\<rparr>,
     gj_get_bytes = \<lambda>d p. \<lparr>Raw = d, Str = [], gj_kind = GOther, gj_exists = False, gj_int = 0\<rparr>,
     gj_get = \<lambda>r p. r, gj_pairs = \<lambda>r. [], sj_set_string = \<lambda>d p v. Inr d, fj_string = \<lambda>s. ''\"'' @ s @ ''\"''\<rparr>"

definition no_rewrites :: config where
  "no_rewrites = \<lparr>IgnoreErrors = False, RunForever = False, RewriteTimestamps = False, RewriteIDs = False,
     RewriteServiceNames = False, RewriteServiceNodeNames = False, RewriteServiceTargetNames = False,
     RewriteSpanNames = False, RewriteTransactionNames = False, RewriteTransactionTypes = False,
     TargetStackVersion = TargetStackVersionUnknown\<rparr>"

lemma no_rewrite_is_verbatim_witness:
  "\<exists>w. writeAPMEvents ex_lib no_rewrites 0 newEventWriter
         \<lparr>metadata = ''M'', events = [\<lparr>payload = ''a'', objectType = ''span'', timestamp = 0\<rparr>]\<rparr> 0 0 = Inr w
       \<and> stream w = ''M'' @ newlineBytes @ ''a'' @ newlineBytes"
  using no_rewrite_is_verbatim[of no_rewrites ex_lib 0
      "\<lparr>metadata = ''M'', events = [\<lparr>payload = ''a'', objectType = ''span'', timestamp = 0\<rparr>]\<rparr>" 0 0]
  by (simp add: no_rewrites_def rewriteAny_def)

lemma UnixMicro_exact:
  assumes "unix_epoch * 1000000000 \<le> t" "t < unix_epoch * 1000000000 + 2 ^ 63"
  shows "unat (word_of_int (UnixMicro t) :: u64) = nat ((t - unix_epoch * 1000000000) div 1000)"
proof -
  let ?s = "t div 1000000000" and ?n = "t mod 1000000000"
  have t: "t = ?s * 1000000000 + ?n" by simp
  have "t - unix_epoch * 1000000000 = (?s - unix_epoch) * 1000000 * 1000 + ?n"
    unfolding left_diff_distrib using t by linarith
  then have u: "(?s - unix_epoch) * 1000000 + ?n div 1000 = (t - unix_epoch * 1000000000) div 1000"
    by (simp only: div_mult_self3[of 1000])
  have "0 \<le> (t - unix_epoch * 1000000000) div 1000" "(t - unix_epoch * 1000000000) div 1000 < 2 ^ 63"
    using assms by (simp_all add: pos_imp_zdiv_nonneg_iff)
  then have w: "UnixMicro t = (t - unix_epoch * 1000000000) div 1000"
    and r: "0 \<le> UnixMicro t" "UnixMicro t < 2 ^ 64"
    unfolding UnixMicro_def u by (simp_all add: wrap64_id)
  have "uint (word_of_int (UnixMicro t) :: u64) = UnixMicro t"
    using r by (simp add: uint_word_of_int)
  then show ?thesis unfolding w unat_eq_nat_uint by simp
qed

text \<open>C40 (rewritten timestamps keep their spacing).  For two events no earlier than the minimum and
  within 292 years of it (the range of a duration), the rewritten instants differ by what the
  recorded ones differ, the earliest event gets the base time, and for the 7.x stack an instant of
  the first 292 years of the Unix epoch is written as its whole microseconds.\<close>

theorem rewritten_timestamps:
  assumes "minT \<le> timestamp a" "timestamp a - minT \<le> max_int64"
    and "minT \<le> timestamp b" "timestamp b - minT \<le> max_int64"
    and "unix_epoch * 1000000000 \<le> base + (timestamp a - minT)"
    and "base + (timestamp a - minT) < unix_epoch * 1000000000 + 2 ^ 63"
  shows "rewritten_time a minT base - rewritten_time b minT base = timestamp a - timestamp b
     \<and> (timestamp b = minT \<longrightarrow> rewritten_time b minT base = base)
     \<and> time_text TargetStackVersion7x (rewritten_time a minT base) =
         nat_str (nat ((base + (timestamp a - minT) - unix_epoch * 1000000000) div 1000))"
proof -
  have d: "time_Sub (timestamp a) minT = timestamp a - minT" "time_Sub (timestamp b) minT = timestamp b - minT"
    using assms by (intro time_Sub_exact; simp add: min_int64_def)+
  have "time_text TargetStackVersion7x (rewritten_time a minT base) =
      nat_str (nat ((base + (timestamp a - minT) - unix_epoch * 1000000000) div 1000))"
    using UnixMicro_exact[OF assms(5,6)] d(1) by (simp add: rewritten_time_def time_Add_def time_text_def)
  moreover have "rewritten_time a minT base - rewritten_time b minT base = timestamp a - timestamp b"
    "rewritten_time b minT base = base + (timestamp b - minT)"
    unfolding rewritten_time_def time_Add_def d by simp_all
  ultimately show ?thesis by simp
qed

definition ex_event :: "int \<Rightarrow> event" where
  "ex_event t = \<lparr>payload = [], objectType = ''span'', timestamp = t\<rparr>"

theorem rewritten_timestamps_witness:
  "rewritten_time (ex_event 500) 200 (time_Unix 100 0) = time_Unix 100 300
   \<and> time_text TargetStackVersion7x (rewritten_time (ex_event 5200) 200 (time_Unix 100 0)) = nat_str 100000005"
proof -
  have "rewritten_time (ex_event 500) 200 (time_Unix 100 0) - rewritten_time (ex_event 200) 200 (time_Unix 100 0) = 300
      \<and> rewritten_time (ex_event 200) 200 (time_Unix 100 0) = time_Unix 100 0"
    using rewritten_timestamps[of 200 "ex_event 500" "ex_event 200" "time_Unix 100 0"]
    by (simp add: ex_event_def time_Unix_def unix_epoch_def max_int64_def)
  moreover have "time_text TargetStackVersion7x (rewritten_time (ex_event 5200) 200 (time_Unix 100 0)) = nat_str 100000005"
    using rewritten_timestamps[of 200 "ex_event 5200" "ex_event 200" "time_Unix 100 0"]
    by (simp add: ex_event_def time_Unix_def unix_epoch_def max_int64_def del: nat_str.simps)
  ultimately show ?thesis by (simp add: time_Unix_def del: nat_str.simps)
qed

text \<open>An identifier that is not a string is replaced by the empty string.  gjson gives such a
  value, for instance the \<open>null\<close> of a root span's \<open>parent_id\<close>, an empty \<open>Str\<close>, which is vacuously
  all hex, so with identifiers rewritten the pair is written with the value \<open>\"\"\<close>.\<close>

lemma null_id_becomes_empty_string:
  assumes "Str k \<in> {''id'', ''parent_id'', ''trace_id'', ''transaction_id''}" "Str v = []" "RewriteIDs cfg"
    and "idBuf w = []"
  shows "cb_event lib cfg minT base bits ev k v w = (RawString ''\"\"'' w, True)"
  using cb_event_appends[of lib cfg minT base bits ev] assms
  by (auto simp: appends_def value_text_def id_keys_def)

lemma null_id_becomes_empty_string_witness:
  "cb_event ex_lib (no_rewrites\<lparr>RewriteIDs := True\<rparr>) 0 0 7 (ex_event 0)
     \<lparr>Raw = ''\"parent_id\"'', Str = ''parent_id'', gj_kind = GString, gj_exists = True, gj_int = 0\<rparr>
     \<lparr>Raw = ''null'', Str = [], gj_kind = GOther, gj_exists = True, gj_int = 0\<rparr> newEventWriter
   = (newEventWriter\<lparr>rewriteBuf := ''\"\"''\<rparr>, True)"
  by (subst null_id_becomes_empty_string) (simp_all add: no_rewrites_def newEventWriter_def RawString_def)

text \<open>A context that is not an object yields malformed output.  gjson's \<open>ForEach\<close> on a value that
  is neither an object nor an array calls the iterator once, with an empty key and the value itself.
  With service targets rewritten, an event whose \<open>context\<close> (or its service, or its target) is such a
  value, for instance \<open>null\<close>, is therefore written as an object with a colon and no key.\<close>

lemma scalar_context_is_malformed:
  assumes "gj_pairs lib v = [(k0, v)]" "Raw k0 = []" "Str k0 = []"
    and "Str k = ''context''" "RewriteServiceTargetNames cfg" "idBuf w = []"
  shows "cb_event lib cfg minT base bits ev k v w = (RawString (''{:'' @ Raw v @ ''}'') w, True)"
proof -
  have "value_text lib cfg minT base bits ev k v = ''{:'' @ Raw v @ ''}''"
    using assms by (simp add: value_text_def id_keys_def object_text_def context_text_def)
  then show ?thesis using cb_event_appends[of lib cfg minT base bits ev] assms(6) by (simp add: appends_def)
qed

definition null_value :: gj_result where
  "null_value = \<lparr>Raw = ''null'', Str = [], gj_kind = GOther, gj_exists = True, gj_int = 0\<rparr>"

definition no_key :: gj_result where
  "no_key = \<lparr>Raw = [], Str = [], gj_kind = GOther, gj_exists = False, gj_int = 0\<rparr>"

lemma scalar_context_is_malformed_witness:
  "cb_event (ex_lib\<lparr>gj_pairs := \<lambda>r. [(no_key, r)]\<rparr>) (no_rewrites\<lparr>RewriteServiceTargetNames := True\<rparr>) 0 0 7
     (ex_event 0) (no_key\<lparr>Raw := ''\"context\"'', Str := ''context''\<rparr>) null_value newEventWriter
   = (newEventWriter\<lparr>rewriteBuf := ''{:null}''\<rparr>, True)"
  using scalar_context_is_malformed[of "ex_lib\<lparr>gj_pairs := \<lambda>r. [(no_key, r)]\<rparr>" null_value no_key
      "no_key\<lparr>Raw := ''\"context\"'', Str := ''context''\<rparr>" "no_rewrites\<lparr>RewriteServiceTargetNames := True\<rparr>"
      newEventWriter 0 0 7 "ex_event 0"]
  by (simp add: no_key_def null_value_def newEventWriter_def RawString_def)

end
