(* ===== verification/Loading.thy ===== *)
theory Loading
  imports EventWriter
begin

section \<open>Loading recorded events (loadgen/eventhandler/handler.go, apm-collector.go)\<close>

text \<open>
  \<open>New\<close> reads the matching files line by line and groups the lines into batches: a metadata line
  opens a batch, every other line is an event of the current one.  The collector is an interface of
  the code and a locale here, interpreted on the APM collector.  A file is its contents; \<open>scan_lines\<close>
  is \<open>bufio.Scanner\<close> with its default buffer: a line (with its carriage return) of more than 65,535
  bytes stops the scan with an error that \<open>New\<close> does not look at, so the lines before it are all
  there is.
\<close>

subsection \<open>APMEventCollector\<close>

definition metaHeader :: bytes where "metaHeader = ''{\"metadata\":''"
definition rumMetaHeader :: bytes where "rumMetaHeader = ''{\"m\":''"

definition APM_Filter :: "bytes \<Rightarrow> string option" where
  "APM_Filter line = (if has_prefix line rumMetaHeader then Some ''rum data support not implemented'' else None)"

definition APM_IsMeta :: "bytes \<Rightarrow> bool" where
  "APM_IsMeta line = has_prefix line metaHeader"

definition supportedTSFormats :: "zone_layout list" where
  "supportedTSFormats = [ZoneColon, ZoneBare, ZoneHour]"

fun parse_first :: "zone_layout list \<Rightarrow> string \<Rightarrow> time option" where
  "parse_first [] s = None"
| "parse_first (f # fs) s = (case parse_rfc3339 f s of Some t \<Rightarrow> Some t | None \<Rightarrow> parse_first fs s)"

definition event_time :: "json_lib \<Rightarrow> gj_result \<Rightarrow> time" where
  "event_time lib val =
     (let ts = gj_get lib val ''timestamp'' in
      if \<not> gj_exists ts then 0
      else (case gj_kind ts of
          GNumber \<Rightarrow>
            (let us = gj_int ts in
             if us \<ge> 0 then (let s = us div 1000000; ns = (us - s * 1000000) * 1000 in time_Unix s ns) else 0)
        | GString \<Rightarrow> (case parse_first supportedTSFormats (Str ts) of Some t \<Rightarrow> t | None \<Rightarrow> 0)
        | GOther \<Rightarrow> 0))"

definition APM_Process :: "json_lib \<Rightarrow> bytes \<Rightarrow> event" where
  "APM_Process lib line =
     ForEach (gj_pairs lib (gj_parse lib line))
       (\<lambda>key val ev. (ev\<lparr>objectType := Str key, timestamp := event_time lib val\<rparr>, False))
       \<lparr>payload = line, objectType = [], timestamp = 0\<rparr>"

subsection \<open>bufio.Scanner\<close>

definition max_line :: nat where "max_line = 65535"

definition dropCR :: "bytes \<Rightarrow> bytes" where
  "dropCR s = (if s \<noteq> [] \<and> last s = CHR 0x0D then butlast s else s)"

lemma cut1_shorter: "cut1 sep s = (b, r, True) \<Longrightarrow> length r < length s"
  by (auto simp: cut1_found)

function scan_lines :: "bytes \<Rightarrow> bytes list" where
  "scan_lines s =
     (case cut1 (CHR 0x0A) s of
        (b, r, True) \<Rightarrow> if max_line < length b then [] else dropCR b # scan_lines r
      | (b, r, False) \<Rightarrow> if s = [] \<or> max_line < length s then [] else [dropCR s])"
  by pat_completeness auto
termination by (relation "measure length") (auto dest: cut1_shorter[OF sym])

declare scan_lines.simps [simp del]

subsection \<open>New\<close>

datatype new_error =
    ErrPathRequired
  | ErrEmptyTransport
  | ErrEmptyWriter
  | ErrGlob string
  | ErrOpen string
  | ErrFilter string
  | ErrNoElements string
  | NewPanics panic

record collector =
  ec_filter :: "bytes \<Rightarrow> string option"
  ec_is_meta :: "bytes \<Rightarrow> bool"
  ec_process :: "bytes \<Rightarrow> event"

definition APMEventCollector :: "json_lib \<Rightarrow> collector" where
  "APMEventCollector lib = \<lparr>ec_filter = APM_Filter, ec_is_meta = APM_IsMeta, ec_process = APM_Process lib\<rparr>"

text \<open>The handler's loaded part: the batches, and the smallest timestamp across them.\<close>

record handler =
  h_batches :: "batch list"
  h_minTimestamp :: time

definition append_event :: "batch list \<Rightarrow> event \<Rightarrow> batch list" where
  "append_event bs ev = butlast bs @ [(last bs)\<lparr>events := events (last bs) @ [ev]\<rparr>]"

definition new_min :: "time \<Rightarrow> time \<Rightarrow> time" where
  "new_min m t = (if \<not> IsZero t then (if IsZero m \<or> t < m then t else m) else m)"

text \<open>One line.  The flag is whether \<open>current\<close> points to a batch of this file.\<close>

definition load_line :: "collector \<Rightarrow> bytes \<Rightarrow> handler \<times> bool \<Rightarrow> new_error + handler \<times> bool" where
  "load_line ec line st =
     (case st of (h, current) \<Rightarrow>
        if line = [] then Inr (h, current)
        else case ec_filter ec line of
          Some e \<Rightarrow> Inl (ErrFilter e)
        | None \<Rightarrow>
            if ec_is_meta ec line
            then Inr (h\<lparr>h_batches := h_batches h @ [\<lparr>metadata = line, events = []\<rparr>]\<rparr>, True)
            else
              let ev = ec_process ec line;
                  h1 = h\<lparr>h_minTimestamp := new_min (h_minTimestamp h) (timestamp ev)\<rparr>
              in if \<not> current then Inl (NewPanics NilDereference)
                 else Inr (h1\<lparr>h_batches := append_event (h_batches h1) ev\<rparr>, True))"

definition load_file :: "collector \<Rightarrow> (string \<Rightarrow> string + bytes) \<Rightarrow> string \<Rightarrow> handler \<Rightarrow> new_error + handler" where
  "load_file ec open_file path h =
     res_bind (map_err ErrOpen (open_file path)) (\<lambda>content.
     res_bind (loop_res (load_line ec) (scan_lines content) (h, False)) (\<lambda>(h', _). Inr h'))"

text \<open>A configuration's transport and writer are present or missing; the limiter and the random
  source are filled in by defaults, which do not affect loading.\<close>

definition New ::
    "collector \<Rightarrow> string \<Rightarrow> bool \<Rightarrow> bool \<Rightarrow> (string \<Rightarrow> string + string list) \<Rightarrow> (string \<Rightarrow> string + bytes)
       \<Rightarrow> new_error + handler" where
  "New ec path has_transport has_writer glob open_file =
     (if path = [] then Inl ErrPathRequired
      else if \<not> has_transport then Inl ErrEmptyTransport
      else if \<not> has_writer then Inl ErrEmptyWriter
      else
        res_bind (map_err ErrGlob (glob path)) (\<lambda>matches.
        res_bind (loop_res (load_file ec open_file) matches \<lparr>h_batches = [], h_minTimestamp = 0\<rparr>) (\<lambda>h.
        if h_batches h = [] then Inl (ErrNoElements path) else Inr h)))"

definition NewAPM ::
    "json_lib \<Rightarrow> string \<Rightarrow> bool \<Rightarrow> (string \<Rightarrow> string + string list) \<Rightarrow> (string \<Rightarrow> string + bytes)
       \<Rightarrow> new_error + handler" where
  "NewAPM lib path has_transport glob open_file =
     New (APMEventCollector lib) path has_transport True glob open_file"

subsection \<open>The interface of collectors\<close>

definition batch_lines :: "batch \<Rightarrow> bytes list" where
  "batch_lines b = metadata b # map payload (events b)"

text \<open>The smallest non-zero timestamp, 0 when there is none.\<close>

definition least_time :: "time list \<Rightarrow> time" where
  "least_time ts = (let xs = filter (\<lambda>t. t \<noteq> 0) ts in if xs = [] then 0 else Min (set xs))"

lemma new_min_least: "new_min (least_time ts) t = least_time (ts @ [t])"
proof (cases "filter (\<lambda>t. t \<noteq> 0) ts = []")
  case True
  then show ?thesis by (simp add: new_min_def least_time_def IsZero_def)
next
  case False
  let ?xs = "filter (\<lambda>t. t \<noteq> 0) ts"
  have f: "finite (set ?xs)" "set ?xs \<noteq> {}" using False unfolding set_empty by blast+
  have nz: "Min (set ?xs) \<noteq> 0" using Min_in[OF f] by auto
  show ?thesis
  proof (cases "t = 0")
    case True
    then show ?thesis by (simp add: new_min_def least_time_def IsZero_def)
  next
    case False
    have "Min (insert t (set ?xs)) = min t (Min (set ?xs))" using f by (rule Min_insert)
    then show ?thesis using False nz \<open>?xs \<noteq> []\<close>
      by (simp add: new_min_def least_time_def IsZero_def Let_def min_def)
  qed
qed

locale event_collector =
  fixes ec :: collector
  assumes keeps_line: "payload (ec_process ec line) = line"
begin

definition loaded :: "handler \<Rightarrow> bytes list \<Rightarrow> bool" where
  "loaded h lines \<longleftrightarrow> concat (map batch_lines (h_batches h)) = lines
     \<and> (\<forall>b \<in> set (h_batches h). ec_is_meta ec (metadata b)
           \<and> (\<forall>e \<in> set (events b). \<not> ec_is_meta ec (payload e) \<and> e = ec_process ec (payload e)))
     \<and> h_minTimestamp h = least_time (map timestamp (concat (map events (h_batches h))))"

lemma loaded_meta:
  assumes "loaded h lines" "ec_is_meta ec line"
  shows "loaded (h\<lparr>h_batches := h_batches h @ [\<lparr>metadata = line, events = []\<rparr>]\<rparr>) (lines @ [line])"
  using assms by (auto simp: loaded_def batch_lines_def)

lemma loaded_event:
  assumes "loaded h lines" "\<not> ec_is_meta ec line" "h_batches h \<noteq> []"
  shows "loaded (h\<lparr>h_minTimestamp := new_min (h_minTimestamp h) (timestamp (ec_process ec line)),
                   h_batches := append_event (h_batches h) (ec_process ec line)\<rparr>) (lines @ [line])"
proof -
  obtain bs b where bs: "h_batches h = bs @ [b]" using assms(3) by (metis append_butlast_last_id)
  show ?thesis using assms(1,2) keeps_line
    by (auto simp: loaded_def bs append_event_def batch_lines_def new_min_least)
qed

lemma load_line_loaded:
  assumes "loaded h lines" "load_line ec line (h, cur) = Inr (h', cur')" "cur \<Longrightarrow> h_batches h \<noteq> []"
  shows "loaded h' (lines @ filter (\<lambda>l. l \<noteq> []) [line]) \<and> (cur' \<longrightarrow> h_batches h' \<noteq> [])"
proof -
  consider "line = []" | "line \<noteq> []" "ec_is_meta ec line" | "line \<noteq> []" "\<not> ec_is_meta ec line" by blast
  then show ?thesis
  proof cases
    case 1
    then show ?thesis using assms by (auto simp: load_line_def)
  next
    case 2
    then show ?thesis using assms loaded_meta[OF assms(1) 2(2)]
      by (auto simp: load_line_def split: option.splits)
  next
    case 3
    then have h': "cur" "h' = h\<lparr>h_minTimestamp := new_min (h_minTimestamp h) (timestamp (ec_process ec line)),
                   h_batches := append_event (h_batches h) (ec_process ec line)\<rparr>"
      using assms(2) by (auto simp: load_line_def Let_def split: option.splits if_splits)
    then show ?thesis using loaded_event[OF assms(1) 3(2)] assms(3) 3(1)
      by (simp add: append_event_def)
  qed
qed

lemma load_lines_loaded:
  assumes "loaded h lines" "loop_res (load_line ec) ls (h, cur) = Inr (h', cur')" "cur \<Longrightarrow> h_batches h \<noteq> []"
  shows "loaded h' (lines @ filter (\<lambda>l. l \<noteq> []) ls)"
  using assms
proof (induction ls arbitrary: h cur lines)
  case (Cons l ls)
  obtain h1 c1 where s: "load_line ec l (h, cur) = Inr (h1, c1)" "loop_res (load_line ec) ls (h1, c1) = Inr (h', cur')"
    using Cons.prems(2) by (auto split: sum.splits)
  have "loaded h1 (lines @ filter (\<lambda>l. l \<noteq> []) [l])" "c1 \<Longrightarrow> h_batches h1 \<noteq> []"
    using load_line_loaded[OF Cons.prems(1) s(1) Cons.prems(3)] by simp_all
  from Cons.IH[OF this(1) s(2) this(2)] show ?case by (cases "l = []") simp_all
qed simp

lemma load_files_loaded:
  assumes "loaded h lines" "loop_res (load_file ec open_file) paths h = Inr h'"
  shows "\<exists>contents. map open_file paths = map Inr contents \<and>
     loaded h' (lines @ filter (\<lambda>l. l \<noteq> []) (concat (map scan_lines contents)))"
  using assms
proof (induction paths arbitrary: h lines)
  case (Cons p ps)
  obtain h1 where s: "load_file ec open_file p h = Inr h1" "loop_res (load_file ec open_file) ps h1 = Inr h'"
    using Cons.prems(2) by (auto split: sum.splits)
  obtain c cur where c: "open_file p = Inr c" "loop_res (load_line ec) (scan_lines c) (h, False) = Inr (h1, cur)"
    using s(1) by (auto simp: load_file_def res_bind_Inr_iff)
  have "loaded h1 (lines @ filter (\<lambda>l. l \<noteq> []) (scan_lines c))"
    by (rule load_lines_loaded[OF Cons.prems(1) c(2)]) simp
  from Cons.IH[OF this s(2)] obtain cs where "map open_file ps = map Inr cs"
    "loaded h' ((lines @ filter (\<lambda>l. l \<noteq> []) (scan_lines c)) @ filter (\<lambda>l. l \<noteq> []) (concat (map scan_lines cs)))"
    by blast
  then show ?case using c(1) by (intro exI[of _ "c # cs"]) simp
qed (auto intro: exI[of _ "[]"])

lemma New_loaded:
  assumes "New ec path tr wr glob open_file = Inr h"
  shows "\<exists>matches contents. glob path = Inr matches \<and> map open_file matches = map Inr contents \<and>
     loaded h (filter (\<lambda>l. l \<noteq> []) (concat (map scan_lines contents)))"
proof -
  obtain matches where m: "glob path = Inr matches"
    "loop_res (load_file ec open_file) matches \<lparr>h_batches = [], h_minTimestamp = 0\<rparr> = Inr h"
    using assms by (auto simp: New_def res_bind_Inr_iff split: if_splits)
  have "loaded \<lparr>h_batches = [], h_minTimestamp = 0\<rparr> []" by (simp add: loaded_def least_time_def)
  from load_files_loaded[OF this m(2)] show ?thesis using m(1) by auto
qed

end

lemma ForEach_payload:
  "payload (ForEach ps (\<lambda>key val ev. (ev\<lparr>objectType := f key, timestamp := g val\<rparr>, False)) ev) = payload ev"
  by (cases ps) auto

interpretation apm: event_collector "APMEventCollector lib" for lib
  by unfold_locales (simp add: APMEventCollector_def APM_Process_def ForEach_payload)

subsection \<open>Properties\<close>


lemma scan_lines_Nil [simp]: "scan_lines [] = []"
  by (subst scan_lines.simps) simp

lemma scan_lines_line:
  assumes "CHR 0x0A \<notin> set l"
  shows "scan_lines (l @ CHR 0x0A # rest) = (if max_line < length l then [] else dropCR l # scan_lines rest)"
  using assms by (subst scan_lines.simps) simp

definition ex_line :: bytes where "ex_line = ''{\"span\":{}}''"
definition ex_file :: bytes where
  "ex_file = (metaHeader @ ''{}}'') @ CHR 0x0A # ex_line @ CHR 0x0A # []"

lemma ex_file_scan: "scan_lines ex_file = [metaHeader @ ''{}}'', ex_line]"
proof -
  have a: "CHR 0x0A \<notin> set (metaHeader @ ''{}}'')" "CHR 0x0A \<notin> set ex_line"
    by (simp_all add: metaHeader_def ex_line_def)
  show ?thesis unfolding ex_file_def scan_lines_line[OF a(1)] scan_lines_line[OF a(2)]
    by (simp add: max_line_def metaHeader_def ex_line_def dropCR_def)
qed

lemma ex_new: "\<exists>h. NewAPM ex_lib ''f'' True (\<lambda>p. Inr [p]) (\<lambda>p. Inr ex_file) = Inr h"
  by (simp add: NewAPM_def New_def load_file_def ex_file_scan load_line_def APMEventCollector_def
      APM_Filter_def APM_IsMeta_def rumMetaHeader_def metaHeader_def ex_line_def append_event_def Let_def)


text \<open>A long line silently ends its file.  A line of more than 65,535 bytes ends the scan, so the
  lines of the file from there on are not loaded; when the lines before it load, loading the file
  reports no error and gives what loading only those lines gives.\<close>

lemma long_line_truncates:
  assumes "CHR 0x0A \<notin> set long" "max_line < length long"
    and "\<forall>l \<in> set ls. CHR 0x0A \<notin> set l \<and> length l \<le> max_line"
    and "open_file p = Inr (concat (map (\<lambda>l. l @ [CHR 0x0A]) ls) @ long @ CHR 0x0A # rest)"
    and "open_file q = Inr (concat (map (\<lambda>l. l @ [CHR 0x0A]) ls))"
  shows "load_file ec open_file p h = load_file ec open_file q h"
proof -
  have l: "scan_lines (concat (map (\<lambda>l. l @ [CHR 0x0A]) ls) @ r) = map dropCR ls @ scan_lines r" for r
    using assms(3) by (induction ls) (simp_all add: scan_lines_line)
  have "scan_lines (long @ CHR 0x0A # rest) = []" using assms(1,2) by (simp add: scan_lines_line)
  then show ?thesis using l[of "long @ CHR 0x0A # rest"] l[of "[]"] assms(4,5) by (simp add: load_file_def)
qed

definition no_handler :: handler where "no_handler = \<lparr>h_batches = [], h_minTimestamp = 0\<rparr>"

definition ex_long_files :: "string \<Rightarrow> string + bytes" where
  "ex_long_files p = Inr (if p = ''p''
     then concat (map (\<lambda>l. l @ [CHR 0x0A]) [''a'']) @ replicate 70000 (CHR ''x'') @ CHR 0x0A # ''b''
     else concat (map (\<lambda>l. l @ [CHR 0x0A]) [''a'']))"

lemma long_line_truncates_witness:
  "load_file (APMEventCollector ex_lib) ex_long_files ''p'' no_handler
   = load_file (APMEventCollector ex_lib) ex_long_files ''q'' no_handler"
  by (rule long_line_truncates[where ls = "[''a'']" and long = "replicate 70000 (CHR ''x'')" and rest = "''b''"])
     (simp_all add: max_line_def ex_long_files_def)

text \<open>A file must start with metadata.  When the first non-empty line of a file passes the filter
  and is not a metadata line, creating the handler dereferences a nil pointer, even when earlier
  files opened batches.\<close>

lemma leading_event_panics:
  assumes "open_file p = Inr content" "scan_lines content = replicate k [] @ line # rest"
    and "line \<noteq> []" "APM_Filter line = None" "\<not> APM_IsMeta line"
  shows "load_file (APMEventCollector lib) open_file p h = Inl (NewPanics NilDereference)"
proof -
  have "loop_res (load_line ec) (replicate k [] @ ls) (h, False) = loop_res (load_line ec) ls (h, False)" for ec ls
    by (induction k) (simp_all add: load_line_def)
  then show ?thesis using assms
    by (simp add: load_file_def load_line_def APMEventCollector_def Let_def)
qed

lemma leading_event_panics_witness:
  "load_file (APMEventCollector ex_lib) (\<lambda>p. Inr (ex_line @ CHR 0x0A # [])) ''f'' no_handler = Inl (NewPanics NilDereference)"
proof -
  have "scan_lines (ex_line @ CHR 0x0A # []) = replicate 0 [] @ ex_line # []"
    by (subst scan_lines_line) (simp_all add: ex_line_def max_line_def dropCR_def)
  then show ?thesis
    by (rule leading_event_panics[OF refl])
       (simp_all add: ex_line_def APM_Filter_def APM_IsMeta_def metaHeader_def rumMetaHeader_def)
qed

end
