(* ===== verification/EventRate.thy ===== *)
theory EventRate
  imports Durations
begin

section \<open>Event rates and limiters (loadgen/limiter.go and the two RateFlag types)\<close>

text \<open>
  An event rate is written \<open>burst/duration\<close>.  The parser exists three times in the program:
  \<open>ParseEventRate\<close> and the \<open>Set\<close> methods of \<open>loadgencfg.RateFlag\<close> and
  \<open>telemetrygen.RateFlag\<close>; each is modelled from its own text.  \<open>GetNewLimiter\<close> turns a rate
  into the arguments of \<open>rate.NewLimiter\<close>; \<open>Lim_Inf\<close> is \<open>rate.Inf\<close>.
\<close>

datatype rate_error =
    RateFormat string
  | RateBurst string num_error
  | RateInterval string dur_error
  | RateNonPositive string

subsection \<open>ParseEventRate\<close>

definition add_one :: "string \<Rightarrow> string" where
  "add_one after =
     (if \<not> (48 \<le> (of_char (hd after) :: nat) \<and> (of_char (hd after) :: nat) \<le> 57)
      then CHR ''1'' # after else after)"

definition ParseEventRate :: "string \<Rightarrow> rate_error + int \<times> duration" where
  "ParseEventRate eventRate =
     (case cut1 CHR ''/'' eventRate of (before, after, ok) \<Rightarrow>
        if \<not> ok \<or> before = [] \<or> after = [] then Inl (RateFormat eventRate)
        else case atoi before of
          Inl e \<Rightarrow> Inl (RateBurst before e)
        | Inr burst \<Rightarrow>
            let after' = add_one after in
            case parse_duration after' of
              Inl e \<Rightarrow> Inl (RateInterval after' e)
            | Inr interval \<Rightarrow>
                if interval \<le> 0 then Inl (RateNonPositive after')
                else Inr (burst, interval))"

subsection \<open>The flags\<close>

record rate_flag =
  Burst :: int
  Interval :: duration

text \<open>\<open>Set\<close> returns the error, or the receiver after both assignments.\<close>

definition RateFlag_Set :: "rate_flag \<Rightarrow> string \<Rightarrow> rate_error + rate_flag" where
  "RateFlag_Set f s =
     (case cut1 CHR ''/'' s of (before, after, ok) \<Rightarrow>
        if \<not> ok \<or> before = [] \<or> after = [] then Inl (RateFormat s)
        else
          res_bind (map_err (RateBurst before) (atoi before)) (\<lambda>burst.
          let after = add_one after in
          res_bind (map_err (RateInterval after) (parse_duration after)) (\<lambda>interval.
          if interval \<le> 0 then Inl (RateNonPositive after)
          else Inr (f\<lparr>Burst := burst, Interval := interval\<rparr>))))"

definition Gen_RateFlag_Set :: "rate_flag \<Rightarrow> string \<Rightarrow> rate_error + rate_flag" where
  "Gen_RateFlag_Set f s =
     (case cut1 CHR ''/'' s of (before, after, ok) \<Rightarrow>
        if \<not> ok \<or> before = [] \<or> after = [] then Inl (RateFormat s)
        else case atoi before of
          Inl e \<Rightarrow> Inl (RateBurst before e)
        | Inr burst \<Rightarrow>
            (case parse_duration (add_one after) of
               Inl e \<Rightarrow> Inl (RateInterval (add_one after) e)
             | Inr interval \<Rightarrow>
                 if interval \<le> 0 then Inl (RateNonPositive (add_one after))
                 else Inr (f\<lparr>Burst := burst, Interval := interval\<rparr>)))"

subsection \<open>GetNewLimiter\<close>

datatype rate_limit = Lim_Inf | Lim f64

record limiter =
  lim_limit :: rate_limit
  lim_burst :: int

definition GetNewLimiter :: "int \<Rightarrow> duration \<Rightarrow> limiter" where
  "GetNewLimiter burst interval =
     (if burst \<le> 0 \<or> interval \<le> 0 then \<lparr>lim_limit = Lim_Inf, lim_burst = 0\<rparr>
      else let eps = f_div (f_of_int burst) (dur_seconds interval)
           in \<lparr>lim_limit = Lim eps, lim_burst = burst\<rparr>)"

subsection \<open>What the parser accepts\<close>

lemmas rate_defs = ParseEventRate_def RateFlag_Set_def Gen_RateFlag_Set_def

lemma atoi_Nil: "atoi [] = Inl ErrSyntax"
  by (simp add: atoi_def)

lemma ParseEventRate_Inr:
  "ParseEventRate s = Inr (b, d) \<longleftrightarrow>
     (\<exists>before after. s = before @ CHR ''/'' # after \<and> CHR ''/'' \<notin> set before \<and> after \<noteq> [] \<and>
        atoi before = Inr b \<and> parse_duration (add_one after) = Inr d \<and> 0 < d)"
proof -
  obtain bf af ok where c: "cut1 CHR ''/'' s = (bf, af, ok)" by (cases "cut1 CHR ''/'' s")
  show ?thesis
  proof (cases ok)
    case True
    then have s: "s = bf @ CHR ''/'' # af" "CHR ''/'' \<notin> set bf" using c cut1_found by auto
    have u: "s = before @ CHR ''/'' # after \<and> CHR ''/'' \<notin> set before \<longleftrightarrow> before = bf \<and> after = af"
      for before after using cut1_found[of "CHR ''/''" s before after] unfolding c using True by blast
    have "(\<exists>before after. s = before @ CHR ''/'' # after \<and> CHR ''/'' \<notin> set before \<and> after \<noteq> [] \<and>
        atoi before = Inr b \<and> parse_duration (add_one after) = Inr d \<and> 0 < d) \<longleftrightarrow>
      af \<noteq> [] \<and> atoi bf = Inr b \<and> parse_duration (add_one af) = Inr d \<and> 0 < d"
      using u by blast
    moreover have "ParseEventRate s = Inr (b, d) \<longleftrightarrow>
      af \<noteq> [] \<and> atoi bf = Inr b \<and> parse_duration (add_one af) = Inr d \<and> 0 < d"
      using c True by (auto simp: ParseEventRate_def Let_def atoi_Nil split: sum.splits)
    ultimately show ?thesis by simp
  next
    case False
    then have "CHR ''/'' \<notin> set s" using c cut1_not_found by auto
    then have "\<not> (\<exists>before after. s = before @ CHR ''/'' # after)" by auto
    moreover have "ParseEventRate s \<noteq> Inr (b, d)" using c False by (simp add: ParseEventRate_def)
    ultimately show ?thesis by blast
  qed
qed

lemma dur_seconds_whole:
  assumes "0 \<le> k" "k < 2 ^ 53"
  shows "dur_seconds (k * dur_second) = Fin (of_int k)"
proof -
  have "(k * dur_second) sdiv dur_second = k" "(k * dur_second) smod dur_second = 0"
    using assms by (cases "k = 0"; simp add: dur_second_def signed_divide_int_def signed_modulo_int_def)+
  then show ?thesis using assms by (simp add: dur_seconds_def f_of_int_def f64_round_of_int)
qed

lemma add_one_digit: "after \<noteq> [] \<Longrightarrow> is_digit (hd after) \<Longrightarrow> add_one after = after"
  by (simp add: add_one_def is_digit_def)

lemma add_one_unit: "\<not> is_digit (hd after) \<Longrightarrow> add_one after = CHR ''1'' # after"
  by (simp add: add_one_def is_digit_def)

text \<open>Evaluation of the parser on a literal by the simplifier.\<close>

lemmas rate_eval =
  ParseEventRate_def Let_def atoi_def add_one_def parse_duration_def dur_loop.simps
  dur_component_def dur_fraction_def is_digit_def is_unit_char_def digit_val_def unit_map_def
  f_of_int_def

subsection \<open>Properties\<close>

text \<open>C26 (a printed rate reads back).  For every burst of the range of \<open>int\<close>, every unit of the
  standard library and every positive count whose product with the unit is a duration, the text
  \<open>burst/count unit\<close> parses to that burst and that duration, and \<open>burst/unit\<close> parses as a
  count of one: the inserted \<open>1\<close> makes \<open>200/s\<close> mean \<open>200/1s\<close>.\<close>

theorem event_rate_roundtrip:
  assumes b: "min_int64 \<le> b" "b \<le> max_int64"
    and u: "map_of unit_map u = Some un"
    and n: "0 < n" "int (n * un) \<le> max_int64"
  shows "ParseEventRate (itoa b @ ''/'' @ nat_str n @ u) = Inr (b, int (n * un))
       \<and> ParseEventRate (itoa b @ ''/'' @ u) = Inr (b, int un)"
proof -
  have uc: "u \<noteq> []" "list_all is_unit_char u" "0 < un" using unit_map_chars[OF u] by auto
  have d: "parse_duration (nat_str n @ u) = Inr (int (n * un))"
    by (rule parse_duration_int_unit[OF u n(2)])
  have "un \<le> n * un" using n(1) by simp
  then have "int (1 * un) \<le> max_int64" using n(2) by linarith
  have one: "nat_str 1 = ''1''" by code_simp
  have d1: "parse_duration (CHR ''1'' # u) = Inr (int un)"
    using parse_duration_int_unit[OF u \<open>int (1 * un) \<le> max_int64\<close>] one by simp
  have a: "add_one (nat_str n @ u) = nat_str n @ u"
    by (rule add_one_digit) (simp_all add: nat_str_hd_digit)
  have a1: "add_one u = CHR ''1'' # u"
    using uc by (intro add_one_unit) (cases u; simp add: is_unit_char_def)
  have pos: "0 < int (n * un)" "0 < int un" using n(1) uc(3) by auto
  show ?thesis
    using d d1 a a1 pos b uc(1) itoa_no_slash[of b]
    by (simp add: ParseEventRate_def Let_def atoi_itoa cut1_append[of "CHR ''/''" "itoa b", simplified])
qed

theorem event_rate_roundtrip_witness:
  "ParseEventRate ''200/5s'' = Inr (200, 5 * dur_second) \<and> ParseEventRate ''200/s'' = Inr (200, dur_second)"
proof -
  have i: "itoa 200 = ''200''" "nat_str 5 = ''5''" by code_simp+
  show ?thesis
    using event_rate_roundtrip[of 200 "''s''" 1000000000 5]
    by (simp add: i min_int64_def max_int64_def unit_map_def dur_second_def)
qed

text \<open>The three parsers are one function.  \<open>RateFlag.Set\<close> of both configuration packages
  fails exactly where \<open>ParseEventRate\<close> fails, with the same error, and otherwise stores exactly the
  burst and the interval that \<open>ParseEventRate\<close> returns.\<close>

lemma event_rate_parsers_agree:
  "RateFlag_Set f s =
     (case ParseEventRate s of Inl e \<Rightarrow> Inl e
      | Inr (b, d) \<Rightarrow> Inr (f\<lparr>Burst := b, Interval := d\<rparr>))
   \<and> Gen_RateFlag_Set f s = RateFlag_Set f s"
  by (simp add: rate_defs Let_def split: prod.splits sum.splits)

text \<open>Accepted rates are usable.  An accepted rate has a strictly positive interval that is a
  duration and a burst that is an \<open>int\<close>, so the limiter built from it is unlimited exactly when
  the burst is not positive, and otherwise has that burst as its bucket size.\<close>

lemma event_rate_limiter:
  assumes "ParseEventRate s = Inr (b, d)"
  shows "0 < d \<and> d \<le> max_int64 \<and> min_int64 \<le> b \<and> b \<le> max_int64
    \<and> (lim_limit (GetNewLimiter b d) = Lim_Inf \<longleftrightarrow> b \<le> 0)
    \<and> lim_burst (GetNewLimiter b d) = max 0 b"
proof -
  obtain bf af where "atoi bf = Inr b" "parse_duration (add_one af) = Inr d" "0 < d"
    using assms ParseEventRate_Inr by blast
  then show ?thesis
    using atoi_range parse_duration_range by (auto simp: GetNewLimiter_def Let_def)
qed

lemma event_rate_limiter_witness:
  "ParseEventRate ''-3/2m'' = Inr (-3, 120000000000)
   \<and> lim_limit (GetNewLimiter (-3) 120000000000) = Lim_Inf"
proof -
  have p: "ParseEventRate ''-3/2m'' = Inr (-3, 120000000000)" by (simp add: rate_eval)
  then show ?thesis using event_rate_limiter[OF p] by simp
qed

text \<open>Events per second.  For an interval of whole seconds and a positive burst, both within
  the exactly representable integers, the limit is the correctly rounded quotient: the conversion
  to seconds loses nothing.\<close>

lemma limiter_eps:
  assumes "0 < b" "b < 2 ^ 53" "0 < k" "k < 2 ^ 53"
  shows "GetNewLimiter b (k * dur_second) =
           \<lparr>lim_limit = Lim (f64_round (of_int b / of_int k)), lim_burst = b\<rparr>"
  using assms dur_seconds_whole[of k] f64_round_of_int[of b]
  by (simp add: GetNewLimiter_def f_of_int_def dur_second_def)

lemma limiter_eps_witness:
  "GetNewLimiter 100 (5 * dur_second) = \<lparr>lim_limit = Lim (Fin 20), lim_burst = 100\<rparr>"
  using limiter_eps[of 100 5] by simp

text \<open>A fraction without its leading zero gets the inserted digit too: \<open>10/.5s\<close> is read as one
  and a half seconds, where \<open>time.ParseDuration\<close> itself reads \<open>.5s\<close> as half a second.\<close>

lemma event_rate_leading_dot:
  "ParseEventRate ''10/.5s'' = Inr (10, 1500000000) \<and> parse_duration ''.5s'' = Inr 500000000"
  by (simp add: rate_eval)

end
