(* ===== verification/Sending.thy ===== *)
theory Sending
  imports Loading EventRate
begin

section \<open>Sending batches (loadgen/eventhandler/handler.go)\<close>

text \<open>
  The limiter, the transport, the compressor, the random source, the clock and the context are the
  environment: functions of a world \<open>'w\<close>.  A burst is \<open>burst\<close> events after one wait of the limiter;
  \<open>state.sent\<close> counts the events sent and says where in the current burst the handler is.  The
  properties are about the log of waits and chunks, which \<open>logged\<close> adds to any environment.
\<close>

datatype send_error = ErrWait string | ErrWrite string | ErrClose string | ErrTransport string

record 'w env =
  waitN :: "int \<Rightarrow> 'w \<Rightarrow> string option \<times> 'w"
  write_batch :: "batch \<Rightarrow> time \<Rightarrow> u64 \<Rightarrow> string + bytes"
  close_writer :: "bytes \<Rightarrow> string + bytes"
  sendEvents :: "bytes \<Rightarrow> 'w \<Rightarrow> string option \<times> 'w"
  rand_Uint64 :: "'w \<Rightarrow> u64 \<times> 'w"
  time_Now :: "'w \<Rightarrow> time \<times> 'w"
  ctx_Done :: "'w \<Rightarrow> bool \<times> 'w"

text \<open>The environment of an APM handler writes batches with \<open>writeAPMEvents\<close>.\<close>

definition apm_writer :: "json_lib \<Rightarrow> config \<Rightarrow> time \<Rightarrow> batch \<Rightarrow> time \<Rightarrow> u64 \<Rightarrow> string + bytes" where
  "apm_writer lib cfg minT b base bits =
     res_bind (writeAPMEvents lib cfg minT newEventWriter b base bits) (\<lambda>w. Inr (stream w))"

record send_state =
  burst :: int
  sent :: int

definition chunk_size :: "send_state \<Rightarrow> nat \<Rightarrow> nat" where
  "chunk_size s n =
     (if burst s > 0 then
        let capacity = burst s - sent s smod burst s in
        if int n > capacity then nat capacity else n
      else n)"

definition starts_burst :: "send_state \<Rightarrow> bool" where
  "starts_burst s = (burst s > 0 \<and> sent s smod burst s = 0)"

lemma smod_less: "0 < b \<Longrightarrow> (a::int) smod b < b"
proof -
  assume b: "0 < b"
  show ?thesis
  proof (cases "0 \<le> a")
    case True
    then have "a smod b = a mod b" using b by (simp add: signed_modulo_int_def sgn_if)
    then show ?thesis using pos_mod_bound[OF b, of a] by linarith
  next
    case False
    then have "a smod b = - ((- a) mod b)" using b by (simp add: signed_modulo_int_def sgn_if)
    then show ?thesis using pos_mod_sign[OF b, of "- a"] b by linarith
  qed
qed

lemma chunk_size_pos: "0 < n \<Longrightarrow> 0 < chunk_size s n"
  using smod_less[of "burst s" "sent s"] by (auto simp: chunk_size_def Let_def)

lemma chunk_size_le: "chunk_size s n \<le> n"
  by (auto simp: chunk_size_def Let_def)

text \<open>One pass of the loop of \<open>sendBatch\<close>: wait if a burst starts, then write and send one chunk.\<close>

definition send_chunk ::
    "'w env \<Rightarrow> bytes \<Rightarrow> time \<Rightarrow> u64 \<Rightarrow> event list \<Rightarrow> send_state \<Rightarrow> 'w \<Rightarrow> send_error option \<times> 'w" where
  "send_chunk env md base bits evs s w =
     (case (if starts_burst s then waitN env (burst s) w else (None, w)) of
        (Some e, w1) \<Rightarrow> (Some (ErrWait e), w1)
      | (None, w1) \<Rightarrow>
          (case write_batch env \<lparr>metadata = md, events = take (chunk_size s (length evs)) evs\<rparr> base bits of
             Inl e \<Rightarrow> (Some (ErrWrite e), w1)
           | Inr plain \<Rightarrow>
               (case close_writer env plain of
                  Inl e \<Rightarrow> (Some (ErrClose e), w1)
                | Inr body \<Rightarrow>
                    (case sendEvents env body w1 of
                       (Some e, w2) \<Rightarrow> (Some (ErrTransport e), w2)
                     | (None, w2) \<Rightarrow> (None, w2)))))"

function sendBatch ::
    "'w env \<Rightarrow> bytes \<Rightarrow> time \<Rightarrow> u64 \<Rightarrow> event list \<Rightarrow> send_state \<Rightarrow> 'w
       \<Rightarrow> send_error option \<times> send_state \<times> 'w" where
  "sendBatch env md base bits evs s w =
     (if evs = [] then (None, s, w)
      else case send_chunk env md base bits evs s w of
        (Some e, w1) \<Rightarrow> (Some e, s, w1)
      | (None, w1) \<Rightarrow>
          sendBatch env md base bits (drop (chunk_size s (length evs)) evs)
            (s\<lparr>sent := wrap64 (sent s + int (chunk_size s (length evs)))\<rparr>) w1)"
  by pat_completeness auto
termination
proof (relation "measure (\<lambda>(env, md, base, bits, evs, s, w). length evs)")
  fix md base bits s w p x w1 and env :: "'w env" and evs :: "event list"
  assume "evs \<noteq> []"
  then show "((env, md, base, bits, drop (chunk_size s (length evs)) evs,
      s\<lparr>sent := wrap64 (sent s + int (chunk_size s (length evs)))\<rparr>, w1), env, md, base, bits, evs, s, w)
      \<in> measure (\<lambda>(env, md, base, bits, evs, s, w). length evs)"
    using chunk_size_pos[of "length evs" s] by simp
qed simp

declare sendBatch.simps [simp del]

fun send_all :: "'w env \<Rightarrow> time \<Rightarrow> u64 \<Rightarrow> batch list \<Rightarrow> send_state \<Rightarrow> 'w \<Rightarrow> send_error option \<times> send_state \<times> 'w" where
  "send_all env base bits [] s w = (None, s, w)"
| "send_all env base bits (b # bs) s w =
     (case sendBatch env (metadata b) base bits (events b) s w of
        (Some e, s1, w1) \<Rightarrow> (Some e, s1, w1)
      | (None, s1, w1) \<Rightarrow> send_all env base bits bs s1 w1)"

definition sendBatches :: "'w env \<Rightarrow> handler \<Rightarrow> send_state \<Rightarrow> 'w \<Rightarrow> send_error option \<times> send_state \<times> 'w" where
  "sendBatches env h s w =
     (case rand_Uint64 env w of (randomBits, w1) \<Rightarrow>
      case time_Now env w1 of (baseTimestamp, w2) \<Rightarrow>
        send_all env baseTimestamp randomBits (h_batches h) s w2)"

definition SendBatches :: "'w env \<Rightarrow> handler \<Rightarrow> limiter \<Rightarrow> 'w \<Rightarrow> int \<times> send_error option \<times> 'w" where
  "SendBatches env h lmt w =
     (case sendBatches env h \<lparr>burst = lim_burst lmt, sent = 0\<rparr> w of (err, s, w') \<Rightarrow> (sent s, err, w'))"

text \<open>The endless loop returns only when the context is done (\<open>None\<close> in the result) or, unless the
  handler runs forever, with the error of a send.\<close>

definition end_of_pass :: "send_state \<Rightarrow> send_state" where
  "end_of_pass s = (if burst s > 0 then s\<lparr>sent := sent s smod burst s\<rparr> else s)"

partial_function (option) send_loop ::
    "'w env \<Rightarrow> bool \<Rightarrow> handler \<Rightarrow> send_state \<Rightarrow> 'w \<Rightarrow> (send_error option \<times> 'w) option" where
  "send_loop env run_forever h s w =
     (case ctx_Done env w of (d, w1) \<Rightarrow>
        if d then Some (None, w1)
        else (case sendBatches env h s w1 of
            (Some e, s2, w2) \<Rightarrow> if run_forever then send_loop env run_forever h s2 w2 else Some (Some e, w2)
          | (None, s2, w2) \<Rightarrow> send_loop env run_forever h (end_of_pass s2) w2))"

definition SendBatchesInLoop :: "'w env \<Rightarrow> bool \<Rightarrow> handler \<Rightarrow> limiter \<Rightarrow> 'w \<Rightarrow> (send_error option \<times> 'w) option" where
  "SendBatchesInLoop env run_forever h lmt w =
     send_loop env run_forever h \<lparr>burst = lim_burst lmt, sent = 0\<rparr> w"

subsection \<open>The log of an environment\<close>

datatype action = Waited int | Sent bytes

definition note_if :: "string option \<Rightarrow> action \<Rightarrow> action list \<Rightarrow> action list" where
  "note_if e a l = (if e = None then l @ [a] else l)"

definition logged :: "'w env \<Rightarrow> (action list \<times> 'w) env" where
  "logged env =
     \<lparr>waitN = \<lambda>n (l, w). (case waitN env n w of (e, w') \<Rightarrow> (e, (note_if e (Waited n) l, w'))),
      write_batch = write_batch env, close_writer = close_writer env,
      sendEvents = \<lambda>b (l, w). (case sendEvents env b w of (e, w') \<Rightarrow> (e, (note_if e (Sent b) l, w'))),
      rand_Uint64 = \<lambda>(l, w). (case rand_Uint64 env w of (x, w') \<Rightarrow> (x, (l, w'))),
      time_Now = \<lambda>(l, w). (case time_Now env w of (x, w') \<Rightarrow> (x, (l, w'))),
      ctx_Done = \<lambda>(l, w). (case ctx_Done env w of (x, w') \<Rightarrow> (x, (l, w')))\<rparr>"

definition waits :: "action list \<Rightarrow> int" where
  "waits l = int (length (filter (\<lambda>a. case a of Waited n \<Rightarrow> True | _ \<Rightarrow> False) l))"

definition bodies :: "action list \<Rightarrow> bytes list" where
  "bodies l = concat (map (\<lambda>a. case a of Sent b \<Rightarrow> [b] | _ \<Rightarrow> []) l)"

lemma log_simps [simp]:
  "waits [] = 0" "waits (l @ m) = waits l + waits m" "waits [Waited n] = 1" "waits [Sent b] = 0"
  "bodies [] = []" "bodies (l @ m) = bodies l @ bodies m" "bodies [Waited n] = []" "bodies [Sent b] = [b]"
  by (simp_all add: bodies_def waits_def)

definition body_of :: "'w env \<Rightarrow> bytes \<Rightarrow> time \<Rightarrow> u64 \<Rightarrow> event list \<Rightarrow> string + bytes" where
  "body_of env md base bits evs =
     res_bind (write_batch env \<lparr>metadata = md, events = evs\<rparr> base bits) (close_writer env)"

text \<open>The number of bursts that \<open>n\<close> events need.\<close>

definition bursts :: "int \<Rightarrow> int \<Rightarrow> int" where
  "bursts b n = (n + b - 1) div b"

lemma bursts_bound: "0 < b \<Longrightarrow> n \<le> b * bursts b n"
proof -
  assume b: "0 < b"
  have "b * ((n + b - 1) div b) = n + b - 1 - (n + b - 1) mod b" by (simp add: minus_mod_eq_mult_div)
  moreover have "(n + b - 1) mod b < b" using b by simp
  ultimately show ?thesis by (simp add: bursts_def)
qed

lemma bursts_step:
  assumes "0 < b" "0 \<le> s" "1 \<le> n" "n \<le> b - s mod b"
  shows "bursts b (s + n) = bursts b s + (if s mod b = 0 then 1 else 0)"
proof -
  define q r where qr: "q = s div b" "r = s mod b"
  have s: "s = b * q + r" "0 \<le> r" "r < b" using assms(1) by (simp_all add: qr)
  have d: "(b * k + x) div b = k" if "0 \<le> x" "x < b" for k x
    using that assms(1) by (simp add: div_pos_pos_trivial)
  have e: "s + n + b - 1 = b * (q + 1) + (r + n - 1)" "s + b - 1 = b * (q + 1) + (r - 1)"
    "s + b - 1 = b * q + (r + b - 1)"
    unfolding distrib_left using s(1) by linarith+
  have "(s + n + b - 1) div b = q + 1"
    unfolding e(1) using assms(3,4) s(2) by (intro d) (simp_all add: qr)
  moreover have "(s + b - 1) div b = q" if "r = 0"
    unfolding e(3) using that assms(1) by (intro d) simp_all
  moreover have "(s + b - 1) div b = q + 1" if "r \<noteq> 0"
    unfolding e(2) using that s(2,3) by (intro d) simp_all
  ultimately show ?thesis unfolding bursts_def qr(2)[symmetric] by auto
qed

lemma smod_mod: "0 < b \<Longrightarrow> 0 \<le> s \<Longrightarrow> (s::int) smod b = s mod b"
  by (simp add: signed_modulo_int_def sgn_if)

lemma send_chunk_cases:
  assumes "send_chunk (logged env) md base bits evs s (l, w) = (err, (l', w'))"
  obtains (ok) body where "err = None" "body_of env md base bits (take (chunk_size s (length evs)) evs) = Inr body"
      "l' = l @ (if starts_burst s then [Waited (burst s)] else []) @ [Sent body]"
    | (fails) e where "err = Some e" "l' = l \<or> (starts_burst s \<and> l' = l @ [Waited (burst s)])"
proof -
  let ?chunk = "take (chunk_size s (length evs)) evs" and ?w = "if starts_burst s then [Waited (burst s)] else []"
  obtain e1 l1 w1 where wt: "(if starts_burst s then waitN (logged env) (burst s) (l, w) else (None, (l, w))) = (e1, (l1, w1))"
    by (metis prod_cases3)
  have l1: "l1 = l @ ?w" if "e1 = None"
    using wt that by (auto simp: logged_def note_if_def split: prod.splits if_splits)
  have l1': "l1 = l" if "e1 \<noteq> None"
    using wt that by (auto simp: logged_def note_if_def split: prod.splits if_splits)
  show ?thesis
  proof (cases e1)
    case (Some e)
    then show ?thesis using assms wt l1' fails by (auto simp: send_chunk_def)
  next
    case None
    have lg: "write_batch (logged env) = write_batch env" "close_writer (logged env) = close_writer env"
      by (simp_all add: logged_def)
    show ?thesis
    proof (cases "body_of env md base bits ?chunk")
      case (Inl e)
      then have "err \<noteq> None \<and> l' = l1"
        using assms wt None by (auto simp: send_chunk_def lg body_of_def split: sum.splits)
      then show ?thesis using l1[OF None] fails by (auto split: if_splits)
    next
      case (Inr body)
      obtain e2 w2 where se: "sendEvents env body w1 = (e2, w2)" by fastforce
      then have sl: "sendEvents (logged env) body (l1, w1) = (e2, (note_if e2 (Sent body) l1, w2))"
        by (simp add: logged_def)
      have "err = map_option ErrTransport e2 \<and> l' = note_if e2 (Sent body) l1"
        using assms wt None Inr sl
        by (auto simp: send_chunk_def lg body_of_def res_bind_Inr_iff split: option.splits)
      then show ?thesis using l1[OF None] fails ok Inr by (cases e2) (auto simp: note_if_def split: if_splits)
    qed
  qed
qed

text \<open>What holds of a state and its log, when bursts are on: the bursts begun are the waits, up to the
  difference \<open>d\<close> there was at the start.\<close>

definition paced :: "int \<Rightarrow> send_state \<Rightarrow> action list \<Rightarrow> bool" where
  "paced d s l \<longleftrightarrow> 0 \<le> sent s \<and> bursts (burst s) (sent s) \<le> waits l + d"

definition on_pace :: "int \<Rightarrow> send_state \<Rightarrow> action list \<Rightarrow> bool" where
  "on_pace d s l \<longleftrightarrow> 0 \<le> sent s \<and> bursts (burst s) (sent s) = waits l + d"

lemma sendBatch_pace:
  assumes "sendBatch (logged env) md base bits evs s (l, w) = (err, s', (l', w'))"
    and "0 < burst s" "sent s + int (length evs) < 2 ^ 63" "on_pace d s l"
  shows "burst s' = burst s \<and> paced d s' l' \<and> sent s' \<le> sent s + int (length evs)
     \<and> (err = None \<longrightarrow> on_pace d s' l' \<and> sent s' = sent s + int (length evs))"
  using assms
proof (induction "length evs" arbitrary: evs s l w rule: less_induct)
  case less
  show ?case
  proof (cases "evs = []")
    case True
    then show ?thesis using less.prems
      by (subst (asm) sendBatch.simps) (auto simp: paced_def on_pace_def)
  next
    case False
    let ?n = "chunk_size s (length evs)" and ?b = "burst s"
    let ?s1 = "s\<lparr>sent := wrap64 (sent s + int ?n)\<rparr>"
    obtain e1 l1 w1 where c: "send_chunk (logged env) md base bits evs s (l, w) = (e1, (l1, w1))"
      by (metis prod_cases3)
    have nn: "0 < ?n" "?n \<le> length evs" using False chunk_size_pos[of "length evs"] chunk_size_le by auto
    have s0: "0 \<le> sent s" "sent s smod ?b = sent s mod ?b"
      using less.prems(2,4) by (simp_all add: on_pace_def smod_mod)
    have n: "int ?n \<le> ?b - sent s mod ?b"
      using less.prems(2) s0(2) by (auto simp: chunk_size_def Let_def intro: less_imp_le)
    have wr: "wrap64 (sent s + int ?n) = sent s + int ?n" using nn s0(1) less.prems(3) by simp
    have step: "bursts ?b (sent s + int ?n) = bursts ?b (sent s) + (if starts_burst s then 1 else 0)"
      using bursts_step[OF less.prems(2) s0(1) _ n] nn(1) s0(2) less.prems(2) by (simp add: starts_burst_def)
    from c show ?thesis
    proof (cases rule: send_chunk_cases)
      case (ok body)
      have p: "on_pace d ?s1 l1" using less.prems(4) s0(1) by (auto simp: on_pace_def ok wr step)
      have r: "sendBatch (logged env) md base bits (drop ?n evs) ?s1 (l1, w1) = (err, s', (l', w'))"
        using less.prems(1) False by (subst (asm) sendBatch.simps) (simp add: c ok(1))
      have "length (drop ?n evs) < length evs" using nn by simp
      from less.hyps[OF this r] show ?thesis using p less.prems(2,3) nn by (simp add: wr)
    next
      case (fails e)
      then have "err = Some e" "s' = s" "l' = l1"
        using less.prems(1) False by (subst (asm) sendBatch.simps, simp add: c)+
      then show ?thesis using fails less.prems(4) by (auto simp: on_pace_def paced_def)
    qed
  qed
qed

definition total_events :: "batch list \<Rightarrow> int" where
  "total_events bs = (\<Sum>b\<leftarrow>bs. int (length (events b)))"

lemma total_events_simps [simp]:
  "total_events [] = 0" "total_events (b # bs) = int (length (events b)) + total_events bs"
  by (simp_all add: total_events_def)

lemma total_events_nonneg [simp]: "0 \<le> total_events bs"
  by (induction bs) auto

lemma send_all_pace:
  assumes "send_all (logged env) base bits bs s (l, w) = (err, s', (l', w'))"
    and "0 < burst s" "sent s + total_events bs < 2 ^ 63" "on_pace d s l"
  shows "burst s' = burst s \<and> paced d s' l' \<and> sent s' \<le> sent s + total_events bs
     \<and> (err = None \<longrightarrow> on_pace d s' l' \<and> sent s' = sent s + total_events bs)"
  using assms
proof (induction bs arbitrary: s l w)
  case Nil
  then show ?case by (auto simp: paced_def on_pace_def)
next
  case (Cons b bs)
  obtain e1 s1 l1 w1 where c: "sendBatch (logged env) (metadata b) base bits (events b) s (l, w) = (e1, s1, (l1, w1))"
    by (metis prod_cases4)
  have lt: "sent s + int (length (events b)) < 2 ^ 63" using Cons.prems(3) total_events_nonneg[of bs] by (simp del: total_events_nonneg)
  note p = sendBatch_pace[OF c Cons.prems(2) lt Cons.prems(4)]
  show ?case
  proof (cases e1)
    case None
    then have "send_all (logged env) base bits bs s1 (l1, w1) = (err, s', (l', w'))"
      using Cons.prems(1) c by simp
    from Cons.IH[OF this] show ?thesis using p None Cons.prems(2,3) by (simp add: algebra_simps)
  next
    case (Some e)
    then show ?thesis using Cons.prems(1) c p total_events_nonneg[of bs] by (auto simp del: total_events_nonneg)
  qed
qed

subsection \<open>Properties\<close>

text \<open>C13 (the event rate is respected).  Run \<open>SendBatches\<close> with a positive burst in any environment
  and log the successful waits of the limiter and the requests: the events reported as sent never
  exceed one burst per wait, also when the call ends in an error; and when it succeeds it has sent
  every event of every batch and waited exactly as often as that many events need.\<close>

theorem send_rate_bound:
  assumes "SendBatches (logged env) h lmt ([], w) = (n, err, (l, w'))"
    and "0 < lim_burst lmt" "total_events (h_batches h) < 2 ^ 63"
  shows "n \<le> lim_burst lmt * waits l
     \<and> (err = None \<longrightarrow> n = total_events (h_batches h) \<and> waits l = bursts (lim_burst lmt) n)"
proof -
  let ?s = "\<lparr>burst = lim_burst lmt, sent = 0\<rparr>"
  obtain base bits w1 s' where r: "send_all (logged env) base bits (h_batches h) ?s ([], w1) = (err, s', (l, w'))"
    "sent s' = n"
    using assms(1) by (auto simp: SendBatches_def sendBatches_def logged_def split: prod.splits)
  have "on_pace 0 ?s []" using assms(2) by (simp add: on_pace_def bursts_def)
  from send_all_pace[OF r(1) _ _ this] assms(2,3)
  have p: "burst s' = lim_burst lmt" "paced 0 s' l" "err = None \<longrightarrow> on_pace 0 s' l \<and> sent s' = total_events (h_batches h)"
    by simp_all
  have "n \<le> lim_burst lmt * bursts (lim_burst lmt) n" using assms(2) by (rule bursts_bound)
  also have "\<dots> \<le> lim_burst lmt * waits l" using p(1,2) r(2) assms(2) by (simp add: paced_def)
  finally show ?thesis using p(1,3) r(2) by (auto simp: on_pace_def)
qed

definition ex_batches :: "batch list" where
  "ex_batches = [\<lparr>metadata = ''A'', events = [ex_event 1, ex_event 2, ex_event 3]\<rparr>, \<lparr>metadata = ''B'', events = [ex_event 4]\<rparr>]"

text \<open>An environment in which nothing fails and the context is never done.\<close>

definition ex_env :: "unit env" where
  "ex_env = \<lparr>waitN = \<lambda>n w. (None, w), write_batch = \<lambda>b t r. Inr (metadata b), close_writer = Inr,
     sendEvents = \<lambda>b w. (None, w), rand_Uint64 = \<lambda>w. (0, w), time_Now = \<lambda>w. (0, w), ctx_Done = \<lambda>w. (False, w)\<rparr>"

definition ex_handler :: handler where "ex_handler = \<lparr>h_batches = ex_batches, h_minTimestamp = 1\<rparr>"

lemma ex_env_ok:
  "sendBatch (logged ex_env) md base bits evs s (l, w) = (err, s', x) \<Longrightarrow> err = None"
proof (induction "length evs" arbitrary: evs s l w rule: less_induct)
  case less
  show ?case
  proof (cases "evs = []")
    case True
    then show ?thesis using less.prems by (subst (asm) sendBatch.simps) simp
  next
    case False
    let ?n = "chunk_size s (length evs)"
    obtain l1 w1 where "send_chunk (logged ex_env) md base bits evs s (l, w) = (None, (l1, w1))"
      by (cases "starts_burst s") (auto simp: send_chunk_def logged_def ex_env_def)
    then have "sendBatch (logged ex_env) md base bits (drop ?n evs) (s\<lparr>sent := wrap64 (sent s + int ?n)\<rparr>) (l1, w1) = (err, s', x)"
      using less.prems False by (subst (asm) sendBatch.simps) simp
    moreover have "length (drop ?n evs) < length evs" using False chunk_size_pos[of "length evs" s] by simp
    ultimately show ?thesis using less.hyps by blast
  qed
qed

lemma ex_env_all_ok: "send_all (logged ex_env) base bits bs s (l, w) = (err, s', x) \<Longrightarrow> err = None"
proof (induction bs arbitrary: s l w)
  case (Cons b bs)
  obtain e1 s1 l1 w1 where c: "sendBatch (logged ex_env) (metadata b) base bits (events b) s (l, w) = (e1, s1, (l1, w1))"
    by (metis prod_cases4)
  then show ?case using Cons ex_env_ok[OF c] by auto
qed simp

lemma ex_run: "\<exists>n l. SendBatches (logged ex_env) ex_handler \<lparr>lim_limit = Lim_Inf, lim_burst = b\<rparr> ([], ()) = (n, None, (l, ()))"
proof -
  obtain err s' l u where r: "send_all (logged ex_env) 0 0 ex_batches \<lparr>burst = b, sent = 0\<rparr> ([], ()) = (err, s', (l, u))"
    by (metis prod_cases4)
  then show ?thesis using ex_env_all_ok[OF r]
    by (simp add: SendBatches_def sendBatches_def ex_handler_def logged_def ex_env_def)
qed

theorem send_rate_bound_witness:
  "\<exists>l. SendBatches (logged ex_env) ex_handler \<lparr>lim_limit = Lim_Inf, lim_burst = 3\<rparr> ([], ()) = (4, None, (l, ()))
     \<and> waits l = 2"
proof -
  obtain n l where r: "SendBatches (logged ex_env) ex_handler \<lparr>lim_limit = Lim_Inf, lim_burst = 3\<rparr> ([], ()) = (n, None, (l, ()))"
    using ex_run by blast
  from send_rate_bound[OF r] have "n = 4" "waits l = 2"
    by (simp_all add: ex_handler_def ex_batches_def bursts_def)
  then show ?thesis using r by blast
qed

lemma sendBatch_bodies:
  assumes "sendBatch (logged env) md base bits evs s (l, w) = (None, s', (l', w'))"
  shows "\<exists>cs. concat cs = evs \<and> [] \<notin> set cs
     \<and> map Inr (bodies l') = map Inr (bodies l) @ map (body_of env md base bits) cs"
  using assms
proof (induction "length evs" arbitrary: evs s l w rule: less_induct)
  case less
  show ?case
  proof (cases "evs = []")
    case True
    then show ?thesis using less.prems
      by (subst (asm) sendBatch.simps) (auto intro!: exI[of _ "[]"])
  next
    case False
    let ?n = "chunk_size s (length evs)"
    obtain e1 l1 w1 where c: "send_chunk (logged env) md base bits evs s (l, w) = (e1, (l1, w1))"
      by (metis prod_cases3)
    from c show ?thesis
    proof (cases rule: send_chunk_cases)
      case (ok body)
      have r: "sendBatch (logged env) md base bits (drop ?n evs) (s\<lparr>sent := wrap64 (sent s + int ?n)\<rparr>) (l1, w1) = (None, s', (l', w'))"
        using less.prems False by (subst (asm) sendBatch.simps) (simp add: c ok(1))
      have n: "length (drop ?n evs) < length evs" "take ?n evs \<noteq> []"
        using False chunk_size_pos[of "length evs" s] by auto
      from less.hyps[OF n(1) r] obtain cs where cs: "concat cs = drop ?n evs" "[] \<notin> set cs"
        "map Inr (bodies l') = map Inr (bodies l1) @ map (body_of env md base bits) cs" by blast
      have "bodies l1 = bodies l @ [body]" by (auto simp: ok(3))
      then show ?thesis using cs n(2) ok(2) by (intro exI[of _ "take ?n evs # cs"]) simp
    next
      case (fails e)
      then show ?thesis using less.prems False by (subst (asm) sendBatch.simps) (simp add: c)
    qed
  qed
qed

lemma send_all_bodies:
  assumes "send_all (logged env) base bits bs s (l, w) = (None, s', (l', w'))"
  shows "\<exists>css. list_all2 (\<lambda>b cs. concat cs = events b \<and> [] \<notin> set cs) bs css
     \<and> map Inr (bodies l') = map Inr (bodies l)
         @ concat (map (\<lambda>(b, cs). map (body_of env (metadata b) base bits) cs) (zip bs css))"
  using assms
proof (induction bs arbitrary: s l w)
  case (Cons b bs)
  obtain e1 s1 l1 w1 where c: "sendBatch (logged env) (metadata b) base bits (events b) s (l, w) = (e1, s1, (l1, w1))"
    by (metis prod_cases4)
  then have n: "e1 = None" and r: "send_all (logged env) base bits bs s1 (l1, w1) = (None, s', (l', w'))"
    using Cons.prems by (auto split: option.splits)
  obtain cs where cs: "concat cs = events b" "[] \<notin> set cs"
    "map Inr (bodies l1) = map Inr (bodies l) @ map (body_of env (metadata b) base bits) cs"
    using sendBatch_bodies[OF c[unfolded n]] by blast
  obtain css where "list_all2 (\<lambda>b cs. concat cs = events b \<and> [] \<notin> set cs) bs css"
    "map Inr (bodies l') = map Inr (bodies l1) @ concat (map (\<lambda>(b, cs). map (body_of env (metadata b) base bits) cs) (zip bs css))"
    using Cons.IH[OF r] by blast
  then show ?case using cs by (intro exI[of _ "cs # css"]) simp
qed (auto intro!: exI[of _ "[]"])

text \<open>C7 (a pass sends everything once, under one random number and base time).  Whatever was sent
  before and wherever the burst stands, a pass that succeeds splits the events of every batch, from
  the first batch on, into non-empty chunks that together are the batch's events in order, and posts
  one body per chunk, each with the batch's metadata; all are written with the same base time and the
  same random bits, so identifiers shared between batches stay shared.  A pass after a failed one
  therefore posts again the batches that had been sent.\<close>

theorem pass_sends_everything:
  assumes "sendBatches (logged env) h s (l, w) = (None, s', (l', w'))"
  shows "\<exists>base bits css.
     list_all2 (\<lambda>b cs. concat cs = events b \<and> [] \<notin> set cs) (h_batches h) css
     \<and> map Inr (bodies l') = map Inr (bodies l)
         @ concat (map (\<lambda>(b, cs). map (body_of env (metadata b) base bits) cs) (zip (h_batches h) css))"
proof -
  obtain base bits w1 where "send_all (logged env) base bits (h_batches h) s (l, w1) = (None, s', (l', w'))"
    using assms by (auto simp: sendBatches_def logged_def split: prod.splits)
  from send_all_bodies[OF this] show ?thesis by blast
qed

theorem pass_sends_everything_witness:
  "\<exists>s' l' css. sendBatches (logged ex_env) ex_handler \<lparr>burst = 2, sent = 0\<rparr> ([], ()) = (None, s', (l', ()))
     \<and> list_all2 (\<lambda>b cs. concat cs = events b \<and> [] \<notin> set cs) ex_batches css
     \<and> map Inr (bodies l') = concat (map (\<lambda>(b, cs). map (\<lambda>c. Inr (metadata b) :: string + bytes) cs) (zip ex_batches css))"
proof -
  obtain err s' l u where a: "send_all (logged ex_env) 0 0 ex_batches \<lparr>burst = 2, sent = 0\<rparr> ([], ()) = (err, s', (l, u))"
    by (metis prod_cases4)
  then have r: "sendBatches (logged ex_env) ex_handler \<lparr>burst = 2, sent = 0\<rparr> ([], ()) = (None, s', (l, ()))"
    using ex_env_all_ok[OF a] by (simp add: sendBatches_def ex_handler_def logged_def ex_env_def)
  have b: "body_of ex_env md t bits = (\<lambda>c. Inr md)" for md t bits by (simp add: body_of_def ex_env_def fun_eq_iff)
  obtain css where "list_all2 (\<lambda>b cs. concat cs = events b \<and> [] \<notin> set cs) ex_batches css"
     "map Inr (bodies l) = concat (map (\<lambda>(b, cs). map (\<lambda>c. Inr (metadata b) :: string + bytes) cs) (zip ex_batches css))"
    using pass_sends_everything[OF r] by (auto simp: b ex_handler_def)
  then show ?thesis using r by blast
qed

text \<open>One pass of the endless loop, continuing with a state or stopping with a result.\<close>

definition pass :: "'w env \<Rightarrow> bool \<Rightarrow> handler \<Rightarrow> send_state \<Rightarrow> 'w \<Rightarrow> send_state \<times> 'w + send_error option \<times> 'w" where
  "pass env run_forever h s w =
     (case ctx_Done env w of (d, w1) \<Rightarrow>
        if d then Inr (None, w1)
        else (case sendBatches env h s w1 of
            (Some e, s2, w2) \<Rightarrow> if run_forever then Inl (s2, w2) else Inr (Some e, w2)
          | (None, s2, w2) \<Rightarrow> Inl (end_of_pass s2, w2)))"

fun passes :: "nat \<Rightarrow> 'w env \<Rightarrow> bool \<Rightarrow> handler \<Rightarrow> send_state \<Rightarrow> 'w \<Rightarrow> (send_error option \<times> 'w) option" where
  "passes 0 env rf h s w = None"
| "passes (Suc k) env rf h s w = (case pass env rf h s w of Inr r \<Rightarrow> Some r | Inl (s', w') \<Rightarrow> passes k env rf h s' w')"

lemma send_loop_pass:
  "send_loop env rf h s w = (case pass env rf h s w of Inr r \<Rightarrow> Some r | Inl (s', w') \<Rightarrow> send_loop env rf h s' w')"
  by (subst send_loop.simps) (auto simp: pass_def split: prod.splits option.splits)

lemma send_loop_passes:
  assumes "send_loop env rf h s w = Some r" shows "\<exists>k. passes k env rf h s w = Some r"
proof (rule send_loop.raw_induct[OF _ assms, where P = "\<lambda>env rf h s w r. \<exists>k. passes k env rf h s w = Some r"])
  fix loop env rf h s w r
  assume IH: "\<And>env rf h s w r. loop env rf h s w = Some r \<Longrightarrow> \<exists>k. passes k env rf h s w = Some r"
    and body: "(case ctx_Done env w of (d, w1) \<Rightarrow>
        if d then Some (None, w1)
        else (case sendBatches env h s w1 of
            (None, s2, w2) \<Rightarrow> loop env rf h (end_of_pass s2) w2
          | (Some e, s2, w2) \<Rightarrow> if rf then loop env rf h s2 w2 else Some (Some e, w2))) = Some r"
  show "\<exists>k. passes k env rf h s w = Some r"
  proof (cases "pass env rf h s w")
    case (Inl p)
    obtain s' w' where p: "p = (s', w')" by (cases p)
    have "loop env rf h s' w' = Some r"
      using body Inl by (auto simp: p pass_def split: prod.splits option.splits if_splits)
    then obtain k where "passes k env rf h s' w' = Some r" using IH by blast
    then show ?thesis using Inl p by (intro exI[of _ "Suc k"]) simp
  next
    case (Inr q)
    then have "q = r" using body by (auto simp: pass_def split: prod.splits option.splits if_splits)
    then show ?thesis using Inr by (intro exI[of _ "Suc 0"]) simp
  qed
qed

lemma passes_send_loop: "passes k env rf h s w = Some r \<Longrightarrow> send_loop env rf h s w = Some r"
proof (induction k arbitrary: s w)
  case (Suc k)
  then show ?case by (subst send_loop_pass) (auto split: sum.splits)
qed simp

lemma send_loop_iff_passes: "send_loop env rf h s w = Some r \<longleftrightarrow> (\<exists>k. passes k env rf h s w = Some r)"
proof
  assume "\<exists>k. passes k env rf h s w = Some r"
  then obtain k where "passes k env rf h s w = Some r" ..
  then show "send_loop env rf h s w = Some r" by (rule passes_send_loop)
qed (rule send_loop_passes)

lemma passes_forever:
  assumes "passes k env True h s w = Some (e, w')" shows "e = None \<and> (\<exists>v. ctx_Done env v = (True, w'))"
  using assms
  by (induction k arbitrary: s w)
     (auto simp: pass_def split: sum.splits prod.splits option.splits if_splits)

text \<open>Up to \<open>k\<close> passes of the loop, and the number of events they send: the events each pass adds to the
  state.\<close>

fun count_passes :: "nat \<Rightarrow> 'w env \<Rightarrow> bool \<Rightarrow> handler \<Rightarrow> send_state \<Rightarrow> 'w \<Rightarrow> int \<times> 'w" where
  "count_passes 0 env rf h s w = (0, w)"
| "count_passes (Suc k) env rf h s w =
     (case ctx_Done env w of (d, w1) \<Rightarrow>
        if d then (0, w1)
        else case sendBatches env h s w1 of (err, s2, w2) \<Rightarrow>
          if err \<noteq> None \<and> \<not> rf then (sent s2 - sent s, w2)
          else case count_passes k env rf h (if err = None then end_of_pass s2 else s2) w2 of
            (n, w3) \<Rightarrow> (sent s2 - sent s + n, w3))"

lemma count_passes_world: "passes k env rf h s w = Some (e, w') \<Longrightarrow> snd (count_passes k env rf h s w) = w'"
proof (induction k arbitrary: s w)
  case (Suc k)
  then show ?case
    by (auto simp: pass_def split: prod.splits option.splits if_splits sum.splits) (metis snd_conv)+
qed simp

lemma sendBatches_pace:
  assumes "sendBatches (logged env) h s (l, w) = (err, s', (l', w'))"
    and "0 < burst s" "0 \<le> sent s" "sent s + total_events (h_batches h) < 2 ^ 63"
  shows "burst s' = burst s" "0 \<le> sent s'" "sent s' \<le> sent s + total_events (h_batches h)"
    "bursts (burst s) (sent s') - bursts (burst s) (sent s) \<le> waits l' - waits l"
proof -
  obtain base bits w1 where r: "send_all (logged env) base bits (h_batches h) s (l, w1) = (err, s', (l', w'))"
    using assms(1) by (auto simp: sendBatches_def logged_def split: prod.splits)
  have "on_pace (bursts (burst s) (sent s) - waits l) s l" using assms(3) by (simp add: on_pace_def)
  from send_all_pace[OF r assms(2,4) this]
  show "burst s' = burst s" "0 \<le> sent s'" "sent s' \<le> sent s + total_events (h_batches h)"
    "bursts (burst s) (sent s') - bursts (burst s) (sent s) \<le> waits l' - waits l"
    by (auto simp: paced_def)
qed

text \<open>The events a begun burst still allows; the end of a pass keeps them.\<close>

definition slack :: "int \<Rightarrow> int \<Rightarrow> int" where
  "slack b n = b * bursts b n - n"

lemma slack_nonneg: "0 < b \<Longrightarrow> 0 \<le> slack b n"
  using bursts_bound[of b n] by (simp add: slack_def)

lemma slack_mod: "0 < b \<Longrightarrow> slack b (n mod b) = slack b n"
proof -
  assume b: "0 < b"
  have "n + b - 1 = (n mod b + b - 1) + n div b * b" using div_mult_mod_eq[of n b] by linarith
  then have "bursts b n = n div b + bursts b (n mod b)"
    unfolding bursts_def using b by (simp only: div_mult_self3) simp
  then show ?thesis using div_mult_mod_eq[of n b] by (simp add: slack_def algebra_simps)
qed

lemma count_passes_pace:
  assumes "count_passes k (logged env) rf h s (l, w) = (n, (l', w'))"
    and "0 < burst s" "0 \<le> sent s" "sent s + int k * total_events (h_batches h) < 2 ^ 63"
  shows "n \<le> burst s * (waits l' - waits l) + slack (burst s) (sent s)"
  using assms
proof (induction k arbitrary: s l w n)
  case 0
  then show ?case using slack_nonneg[of "burst s" "sent s"] by simp
next
  case (Suc k)
  let ?b = "burst s" and ?t = "total_events (h_batches h)"
  obtain d u where dn: "ctx_Done (logged env) (l, w) = (d, (l, u))" 
    by (cases "ctx_Done env w") (simp add: logged_def)
  obtain err s2 l2 w2 where r: "sendBatches (logged env) h s (l, u) = (err, s2, (l2, w2))" by (metis prod_cases4)
  have lt: "sent s + ?t + int k * ?t < 2 ^ 63" using Suc.prems(4) by (simp add: distrib_right)
  moreover have "0 \<le> int k * ?t" by simp
  ultimately have "sent s + ?t < 2 ^ 63" by linarith
  note p = sendBatches_pace[OF r Suc.prems(2,3) this]
  have pass: "sent s2 - sent s + slack ?b (sent s2) \<le> ?b * (waits l2 - waits l) + slack ?b (sent s)"
    using mult_left_mono[OF p(4), of ?b] Suc.prems(2) by (simp add: slack_def right_diff_distrib)
  let ?s = "if err = None then end_of_pass s2 else s2"
  have s: "burst ?s = ?b" "0 \<le> sent ?s" "sent ?s \<le> sent s2" "slack ?b (sent ?s) = slack ?b (sent s2)"
    using p(1,2) Suc.prems(2) zmod_le_nonneg_dividend[OF p(2)] by (auto simp: end_of_pass_def smod_mod slack_mod)
  show ?case
  proof (cases "d \<or> err \<noteq> None \<and> \<not> rf")
    case True
    then show ?thesis using Suc.prems(1,2) pass slack_nonneg[of ?b "sent s2"] slack_nonneg[of ?b "sent s"]
      by (cases d) (auto simp: dn r)
  next
    case False
    obtain m where m: "count_passes k (logged env) rf h ?s (l2, w2) = (m, (l', w'))" "n = sent s2 - sent s + m"
      using Suc.prems(1) False by (auto simp: dn r split: prod.splits)
    have "sent ?s + int k * ?t < 2 ^ 63" using s(3) p(3) lt by linarith
    from Suc.IH[OF m(1) _ s(2) this] have "m \<le> ?b * (waits l' - waits l2) + slack ?b (sent s2)"
      using s(1,4) Suc.prems(2) by simp
    then show ?thesis using pass m(2) by (simp add: right_diff_distrib)
  qed
qed

text \<open>C21 (the endless loop).  \<open>SendBatchesInLoop\<close> returns a result exactly when some finite number of
  passes ends with it; a handler that runs forever returns only when the context was found done, with
  the context's error, and never returns while the context is not done, however many sends fail.\<close>

theorem loop_until_done:
  "(SendBatchesInLoop env rf h lmt w = Some r \<longleftrightarrow>
      (\<exists>k. passes k env rf h \<lparr>burst = lim_burst lmt, sent = 0\<rparr> w = Some r))
   \<and> (SendBatchesInLoop env True h lmt w = Some (e, w') \<longrightarrow> e = None \<and> (\<exists>v. ctx_Done env v = (True, w')))
   \<and> ((\<forall>v. \<not> fst (ctx_Done env v)) \<longrightarrow> SendBatchesInLoop env True h lmt w = None)"
proof -
  have iff: "SendBatchesInLoop env rf h lmt w = Some r \<longleftrightarrow>
      (\<exists>k. passes k env rf h \<lparr>burst = lim_burst lmt, sent = 0\<rparr> w = Some r)" for rf r
    by (simp add: SendBatchesInLoop_def send_loop_iff_passes)
  have stop: "e = None \<and> (\<exists>v. ctx_Done env v = (True, w'))"
    if run: "SendBatchesInLoop env True h lmt w = Some (e, w')" for e w'
  proof -
    obtain k where "passes k env True h \<lparr>burst = lim_burst lmt, sent = 0\<rparr> w = Some (e, w')"
      using run iff[of True "(e, w')"] by auto
    then show ?thesis by (rule passes_forever)
  qed
  have "SendBatchesInLoop env True h lmt w = None" if nd: "\<forall>v. \<not> fst (ctx_Done env v)"
  proof (cases "SendBatchesInLoop env True h lmt w")
    case (Some x)
    then obtain v where "ctx_Done env v = (True, snd x)" using stop[of "fst x" "snd x"] by auto
    then show ?thesis using nd by (metis fst_conv)
  qed
  then show ?thesis by (intro conjI impI iff) (use stop in blast)+
qed

theorem loop_until_done_witness:
  "SendBatchesInLoop ex_env True ex_handler \<lparr>lim_limit = Lim_Inf, lim_burst = 3\<rparr> () = None"
proof -
  have "\<forall>v. \<not> fst (ctx_Done ex_env v)" by (simp add: ex_env_def)
  then show ?thesis
    by (rule loop_until_done[THEN conjunct2, THEN conjunct2, THEN mp])
qed

end
