(* ===== verification/Transport.thy ===== *)
theory Transport
  imports Sending
begin

section \<open>The APM transport and event handlers (loadgen/eventhandler/apm.go, loadgen/eventhandler.go)\<close>

text \<open>
  \<open>NewAPMTransport\<close> builds the headers of every intake request, \<open>SendEvents\<close> posts a body and turns
  the status into an error, and \<open>NewEventHandler\<close> chooses the handler for a protocol.  A header set is
  a map from canonical names to values (\<open>Header.Set\<close> canonicalises the name and replaces the value);
  the caller's headers are the entries of a Go map in the order one \<open>range\<close> visits them.  Sending the
  request is a parameter that gives a status or an error.
\<close>

subsection \<open>http.Header\<close>

definition is_token_char :: "char \<Rightarrow> bool" where
  "is_token_char c =
     (in_range c 48 57 \<or> in_range c 65 90 \<or> in_range c 97 122 \<or> byte_val c \<in> {33, 35, 36, 37, 38, 39, 42, 43, 45, 46, 94, 95, 96, 124, 126})"

definition upper_char :: "char \<Rightarrow> char" where
  "upper_char c = (if in_range c 97 122 then chr (byte_val c - 32) else c)"

definition lower_char :: "char \<Rightarrow> char" where
  "lower_char c = (if in_range c 65 90 then chr (byte_val c + 32) else c)"

fun canon_loop :: "bool \<Rightarrow> string \<Rightarrow> string" where
  "canon_loop upper [] = []"
| "canon_loop upper (c # cs) = (if upper then upper_char c else lower_char c) # canon_loop (c = CHR ''-'') cs"

definition canonical_key :: "string \<Rightarrow> string" where
  "canonical_key s = (if list_all is_token_char s then canon_loop True s else s)"

type_synonym header = "string \<rightharpoonup> string"

definition header_Set :: "string \<Rightarrow> string \<Rightarrow> header \<Rightarrow> header" where
  "header_Set name v h = h(canonical_key name \<mapsto> v)"

definition header_Get :: "header \<Rightarrow> string \<Rightarrow> string" where
  "header_Get h name = (case h (canonical_key name) of Some v \<Rightarrow> v | None \<Rightarrow> [])"

subsection \<open>The transport\<close>

definition getAuthHeader :: "string \<Rightarrow> string \<Rightarrow> string" where
  "getAuthHeader token apiKey =
     (let auth = (if token \<noteq> [] then ''Bearer '' @ token else [])
      in if apiKey \<noteq> [] then ''ApiKey '' @ apiKey else auth)"

record apm_transport =
  intakeHeaders :: header
  intakeV2URL :: string

definition NewAPMTransport :: "string \<Rightarrow> string \<Rightarrow> string \<Rightarrow> go_map \<Rightarrow> apm_transport" where
  "NewAPMTransport srvURL token apiKey headers =
     (let h1 = header_Set ''Content-Encoding'' ''deflate'' Map.empty;
          h2 = header_Set ''Content-Type'' ''application/x-ndjson'' h1;
          h3 = header_Set ''Transfer-Encoding'' ''chunked'' h2;
          h4 = header_Set ''Authorization'' (getAuthHeader token apiKey) h3;
          h5 = fold (\<lambda>(name, v). header_Set name v) headers h4
      in \<lparr>intakeHeaders = h5, intakeV2URL = srvURL @ ''/intake/v2/events''\<rparr>)"

record http_request =
  req_url :: string
  req_header :: header
  req_host :: string
  req_body :: bytes
  req_length :: int

datatype http_error = ErrNewRequest string | ErrDo string | ErrClient int | ErrServer int

definition sendEvents_status :: "(http_request \<Rightarrow> 'w \<Rightarrow> (string + int) \<times> 'w) \<Rightarrow> http_request \<Rightarrow> bool \<Rightarrow> 'w \<Rightarrow> http_error option \<times> 'w" where
  "sendEvents_status client_Do req ignoreErrs w =
     (case client_Do req w of
        (Inl e, w') \<Rightarrow> (Some (ErrDo e), w')
      | (Inr status, w') \<Rightarrow>
          if \<not> ignoreErrs then
            (if status sdiv 100 = 4 then (Some (ErrClient status), w')
             else if status sdiv 100 = 5 then (Some (ErrServer status), w')
             else (None, w'))
          else (None, w'))"

definition intake_request :: "apm_transport \<Rightarrow> bytes \<Rightarrow> http_request" where
  "intake_request t body =
     \<lparr>req_url = intakeV2URL t, req_header = intakeHeaders t, req_host = header_Get (intakeHeaders t) ''Host'',
      req_body = body, req_length = - 1\<rparr>"

definition SendEvents ::
    "apm_transport \<Rightarrow> (string \<Rightarrow> string option) \<Rightarrow> (http_request \<Rightarrow> 'w \<Rightarrow> (string + int) \<times> 'w) \<Rightarrow> bytes \<Rightarrow> bool \<Rightarrow> 'w
       \<Rightarrow> http_error option \<times> 'w" where
  "SendEvents t bad_url client_Do body ignoreErrs w =
     (case bad_url (intakeV2URL t) of
        Some e \<Rightarrow> (Some (ErrNewRequest e), w)
      | None \<Rightarrow>
          sendEvents_status client_Do (intake_request t body) ignoreErrs w)"

subsection \<open>Event handler parameters\<close>

record event_handler_params =
  P_Logger :: bool
  P_Path :: string
  P_URL :: string
  P_Token :: string
  P_APIKey :: string
  P_Limiter :: "limiter option"
  P_IgnoreErrors :: bool
  P_RunForever :: bool
  P_RewriteIDs :: bool
  P_RewriteServiceNames :: bool
  P_RewriteServiceNodeNames :: bool
  P_RewriteServiceTargetNames :: bool
  P_RewriteSpanNames :: bool
  P_RewriteTransactionNames :: bool
  P_RewriteTransactionTypes :: bool
  P_RewriteTimestamps :: bool
  P_Headers :: go_map
  P_Protocol :: string
  P_Datatype :: string
  P_Insecure :: bool
  P_TargetStackVersion :: target_stack_version

text \<open>A handler together with the configuration its operations read.\<close>

record event_handler =
  eh_loaded :: handler
  eh_config :: config
  eh_transport :: apm_transport
  eh_limiter :: limiter

datatype handler_error =
    ErrNilLogger
  | ErrInvalidDatatype string string
  | ErrInvalidProtocol string
  | ErrHTTPTransport string
  | ErrNew new_error

text \<open>\<open>filepath.Join(\"events\", p)\<close> for a pattern without dot and slash elements.\<close>

definition events_path :: "string \<Rightarrow> string" where
  "events_path p = (if p = [] then ''events'' else ''events/'' @ p)"

definition newAPMEventHandler ::
    "json_lib \<Rightarrow> (bool \<Rightarrow> string option) \<Rightarrow> (string \<Rightarrow> string + string list) \<Rightarrow> (string \<Rightarrow> string + bytes)
       \<Rightarrow> event_handler_params \<Rightarrow> handler_error + event_handler" where
  "newAPMEventHandler lib transport_error glob open_file p =
     (case transport_error (P_Insecure p) of
        Some e \<Rightarrow> Inl (ErrHTTPTransport e)
      | None \<Rightarrow>
          let c = \<lparr>IgnoreErrors = P_IgnoreErrors p, RunForever = P_RunForever p,
                   RewriteTimestamps = P_RewriteTimestamps p, RewriteIDs = P_RewriteIDs p,
                   RewriteServiceNames = P_RewriteServiceNames p,
                   RewriteServiceNodeNames = P_RewriteServiceNodeNames p,
                   RewriteServiceTargetNames = P_RewriteServiceTargetNames p,
                   RewriteSpanNames = P_RewriteSpanNames p,
                   RewriteTransactionNames = P_RewriteTransactionNames p,
                   RewriteTransactionTypes = P_RewriteTransactionTypes p,
                   TargetStackVersion = P_TargetStackVersion p\<rparr>;
              t = NewAPMTransport (P_URL p) (P_Token p) (P_APIKey p) (P_Headers p);
              lmt = (case P_Limiter p of Some l \<Rightarrow> l | None \<Rightarrow> \<lparr>lim_limit = Lim_Inf, lim_burst = 0\<rparr>)
          in res_bind (map_err ErrNew (NewAPM lib (events_path (P_Path p)) True glob open_file)) (\<lambda>h.
             Inr \<lparr>eh_loaded = h, eh_config = c, eh_transport = t, eh_limiter = lmt\<rparr>))"

definition NewEventHandler ::
    "json_lib \<Rightarrow> (bool \<Rightarrow> string option) \<Rightarrow> (string \<Rightarrow> string + string list) \<Rightarrow> (string \<Rightarrow> string + bytes)
       \<Rightarrow> event_handler_params \<Rightarrow> handler_error + event_handler" where
  "NewEventHandler lib transport_error glob open_file p =
     (if \<not> P_Logger p then Inl ErrNilLogger
      else if P_Protocol p = ''apm/http'' then newAPMEventHandler lib transport_error glob open_file p
      else if P_Protocol p = ''otlp/http'' then Inl (ErrInvalidDatatype (P_Datatype p) (P_Protocol p))
      else Inl (ErrInvalidProtocol (P_Protocol p)))"

subsection \<open>What the parameters log\<close>

datatype log_value = LogString string | LogBool bool

text \<open>\<open>MarshalLogObject\<close>: the fields in the order they are added.\<close>

definition params_MarshalLogObject :: "event_handler_params \<Rightarrow> (string \<times> log_value) list" where
  "params_MarshalLogObject e =
     [(''path'', LogString (P_Path e)), (''url'', LogString (P_URL e)),
      (''token'', LogString ''REDACTED''), (''api_key'', LogString ''REDACTED''),
      (''ignore_errors'', LogBool (P_IgnoreErrors e)), (''rewrite_ids'', LogBool (P_RewriteIDs e)),
      (''rewrite_service_names'', LogBool (P_RewriteServiceNames e)),
      (''rewrite_service_node_names'', LogBool (P_RewriteServiceNodeNames e)),
      (''rewrite_service_target_names'', LogBool (P_RewriteServiceTargetNames e)),
      (''rewrite_span_names'', LogBool (P_RewriteSpanNames e)),
      (''rewrite_transaction_names'', LogBool (P_RewriteTransactionNames e)),
      (''rewrite_transaction_tpes'', LogBool (P_RewriteTransactionTypes e)),
      (''rewrite_timestamps'', LogBool (P_RewriteTimestamps e))]
     @ map (\<lambda>(k, v). (k, LogString v)) (P_Headers e)"

subsection \<open>The environment of a handler\<close>

text \<open>What is outside the program: the limiter's \<open>WaitN\<close>, zlib, the HTTP client, the random source of
  the handler, the clock and the context.\<close>

record 'w outside =
  o_waitN :: "limiter \<Rightarrow> int \<Rightarrow> 'w \<Rightarrow> string option \<times> 'w"
  o_compress :: "bytes \<Rightarrow> string + bytes"
  o_bad_url :: "string \<Rightarrow> string option"
  o_client_Do :: "http_request \<Rightarrow> 'w \<Rightarrow> (string + int) \<times> 'w"
  o_Uint64 :: "'w \<Rightarrow> u64 \<times> 'w"
  o_Now :: "'w \<Rightarrow> time \<times> 'w"
  o_Done :: "'w \<Rightarrow> bool \<times> 'w"

fun http_error_text :: "http_error \<Rightarrow> string" where
  "http_error_text (ErrNewRequest e) = e"
| "http_error_text (ErrDo e) = e"
| "http_error_text (ErrClient s) = ''unexpected client error: '' @ itoa s"
| "http_error_text (ErrServer s) = ''unexpected server error: '' @ itoa s"

definition handler_env :: "json_lib \<Rightarrow> 'w outside \<Rightarrow> event_handler \<Rightarrow> 'w env" where
  "handler_env lib out eh =
     \<lparr>waitN = o_waitN out (eh_limiter eh),
      write_batch = apm_writer lib (eh_config eh) (h_minTimestamp (eh_loaded eh)),
      close_writer = o_compress out,
      sendEvents = (\<lambda>body w.
        case SendEvents (eh_transport eh) (o_bad_url out) (o_client_Do out) body (IgnoreErrors (eh_config eh)) w of
          (e, w') \<Rightarrow> (map_option http_error_text e, w')),
      rand_Uint64 = o_Uint64 out, time_Now = o_Now out, ctx_Done = o_Done out\<rparr>"

definition handler_SendBatches :: "json_lib \<Rightarrow> 'w outside \<Rightarrow> event_handler \<Rightarrow> 'w \<Rightarrow> int \<times> send_error option \<times> 'w" where
  "handler_SendBatches lib out eh w = SendBatches (handler_env lib out eh) (eh_loaded eh) (eh_limiter eh) w"

definition handler_SendBatchesInLoop :: "json_lib \<Rightarrow> 'w outside \<Rightarrow> event_handler \<Rightarrow> 'w \<Rightarrow> (send_error option \<times> 'w) option" where
  "handler_SendBatchesInLoop lib out eh w =
     SendBatchesInLoop (handler_env lib out eh) (RunForever (eh_config eh)) (eh_loaded eh) (eh_limiter eh) w"

subsection \<open>Properties\<close>

lemma header_fold:
  "fold (\<lambda>(name, v). header_Set name v) hs h k =
     (case map_of (rev (map (\<lambda>(n, v). (canonical_key n, v)) hs)) k of Some v \<Rightarrow> Some v | None \<Rightarrow> h k)"
  by (induction hs arbitrary: h) (auto simp: header_Set_def map_add_def split: option.splits)

text \<open>The four defaults, under their canonical names.\<close>

definition default_headers :: "string \<Rightarrow> string \<Rightarrow> header" where
  "default_headers token apiKey =
     [''Content-Encoding'' \<mapsto> ''deflate'', ''Content-Type'' \<mapsto> ''application/x-ndjson'',
      ''Transfer-Encoding'' \<mapsto> ''chunked'',
      ''Authorization'' \<mapsto> (if apiKey \<noteq> [] then ''ApiKey '' @ apiKey else if token \<noteq> [] then ''Bearer '' @ token else [])]"

lemma canonical_defaults:
  "canonical_key ''Content-Encoding'' = ''Content-Encoding''" "canonical_key ''Content-Type'' = ''Content-Type''"
  "canonical_key ''Transfer-Encoding'' = ''Transfer-Encoding''" "canonical_key ''Authorization'' = ''Authorization''"
proof -
  have fix_point: "canonical_key s = s" if "list_all is_token_char s" "canon_loop True s = s" for s
    using that by (simp add: canonical_key_def)
  show "canonical_key ''Content-Encoding'' = ''Content-Encoding''" "canonical_key ''Content-Type'' = ''Content-Type''"
    "canonical_key ''Transfer-Encoding'' = ''Transfer-Encoding''" "canonical_key ''Authorization'' = ''Authorization''"
    by (rule fix_point; simp add: is_token_char_def in_range_def byte_val_def upper_char_def lower_char_def)+
qed

text \<open>C30 (the headers of an intake request).  Every request is posted to the server's intake path with
  chunked length; each header is the caller's when the caller gives one whose canonical name it is,
  and otherwise the default; the default authorisation is the API key when there is one and the
  secret token otherwise.  The outcome does not depend on the order of the caller's map when the
  canonical names are distinct.\<close>

theorem request_headers:
  assumes "distinct (map (canonical_key \<circ> fst) headers)" "bad_url (srvURL @ ''/intake/v2/events'') = None"
    and "t = NewAPMTransport srvURL token apiKey headers"
  shows "SendEvents t bad_url client_Do body ig w = sendEvents_status client_Do (intake_request t body) ig w
     \<and> req_url (intake_request t body) = srvURL @ ''/intake/v2/events''
     \<and> req_body (intake_request t body) = body \<and> req_length (intake_request t body) = - 1
     \<and> req_header (intake_request t body) = default_headers token apiKey ++ map_of (map (\<lambda>(n, v). (canonical_key n, v)) headers)"
proof -
  let ?hs = "map (\<lambda>(n, v). (canonical_key n, v)) headers"
  have d: "distinct (map fst ?hs)" using assms(1) by (simp add: comp_def case_prod_unfold)
  have m: "map_of (rev ?hs) = map_of ?hs"
    using d by (intro map_of_perm) (simp_all add: go_map_ok_def rev_map[symmetric])
  have h4: "header_Set ''Authorization'' (getAuthHeader token apiKey) (header_Set ''Transfer-Encoding'' ''chunked''
      (header_Set ''Content-Type'' ''application/x-ndjson'' (header_Set ''Content-Encoding'' ''deflate'' Map.empty)))
      = default_headers token apiKey"
    by (simp add: header_Set_def canonical_defaults default_headers_def getAuthHeader_def)
  have "intakeHeaders t = default_headers token apiKey ++ map_of ?hs"
    by (rule ext) (simp add: assms(3) NewAPMTransport_def Let_def h4 header_fold m map_add_def)
  moreover have "intakeV2URL t = srvURL @ ''/intake/v2/events''" by (simp add: assms(3) NewAPMTransport_def)
  ultimately show ?thesis using assms(2) by (simp add: SendEvents_def intake_request_def)
qed

theorem request_headers_witness:
  "req_header (intake_request (NewAPMTransport ''http://x'' ''tok'' [] [(''Authorization'', ''mine'')]) ''b'') ''Authorization''
     = Some ''mine''
   \<and> req_header (intake_request (NewAPMTransport ''http://x'' ''tok'' [] [(''Authorization'', ''mine'')]) ''b'') ''Content-Encoding''
     = Some ''deflate''"
proof -
  have d: "distinct (map (canonical_key \<circ> fst) [(''Authorization'', ''mine'')])" by simp
  show ?thesis
    using request_headers[OF d, of "\<lambda>u. None" "''http://x''" "NewAPMTransport ''http://x'' ''tok'' [] [(''Authorization'', ''mine'')]"
        "''tok''" "[]" "\<lambda>r w. (Inr 202, w)" "''b''" False "()"]
    by (simp add: canonical_defaults default_headers_def)
qed

text \<open>When a post is an error.  Posting fails exactly when the request cannot be built or sent,
  or errors are not ignored and the status is a client or server error; other statuses, redirects
  included, count as success.\<close>

lemma post_fails_iff:
  assumes "bad_url (intakeV2URL t) = None"
    and "\<And>r. client_Do r w = (outcome, w')" "\<And>s. outcome = Inr s \<Longrightarrow> 0 \<le> s"
  shows "fst (SendEvents t bad_url client_Do body ig w) \<noteq> None \<longleftrightarrow>
     (case outcome of Inl e \<Rightarrow> True | Inr s \<Rightarrow> \<not> ig \<and> 400 \<le> s \<and> s < 600)"
proof (cases outcome)
  case (Inl e)
  then show ?thesis using assms by (simp add: SendEvents_def sendEvents_status_def)
next
  case (Inr s)
  have s: "s sdiv 100 = s div 100" using assms(3)[OF Inr] by (simp add: signed_divide_int_def sgn_if)
  have "s div 100 = 4 \<or> s div 100 = 5 \<longleftrightarrow> 400 \<le> s \<and> s < 600" by linarith
  then show ?thesis using assms Inr s
    by (cases "s div 100 = 4"; cases "s div 100 = 5") (auto simp: SendEvents_def sendEvents_status_def)
qed

lemma post_fails_iff_witness:
  "fst (SendEvents \<lparr>intakeHeaders = Map.empty, intakeV2URL = ''u''\<rparr> (\<lambda>u. None) (\<lambda>r w. (Inr 503, w)) ''b'' False ()) \<noteq> None"
  using post_fails_iff[of "\<lambda>u. None" "\<lparr>intakeHeaders = Map.empty, intakeV2URL = ''u''\<rparr>"
      "\<lambda>r w. (Inr 503, w)" "()" "Inr 503" "()" "''b''" False] by simp

text \<open>Which parameters give a handler.  A handler is created exactly for parameters with a logger
  and the protocol \<open>apm/http\<close> whose transport can be built and whose files load; it then has the
  loaded batches, the limiter of the parameters or an unlimited one, and each option as given.  In
  particular \<open>otlp/http\<close> is always an error.\<close>

lemma new_event_handler_ok_iff:
  "NewEventHandler lib terr glob open_file p = Inr eh \<longleftrightarrow>
     P_Logger p \<and> P_Protocol p = ''apm/http'' \<and> terr (P_Insecure p) = None
     \<and> NewAPM lib (events_path (P_Path p)) True glob open_file = Inr (eh_loaded eh)
     \<and> eh_transport eh = NewAPMTransport (P_URL p) (P_Token p) (P_APIKey p) (P_Headers p)
     \<and> eh_limiter eh = (case P_Limiter p of Some l \<Rightarrow> l | None \<Rightarrow> \<lparr>lim_limit = Lim_Inf, lim_burst = 0\<rparr>)
     \<and> IgnoreErrors (eh_config eh) = P_IgnoreErrors p \<and> RunForever (eh_config eh) = P_RunForever p
     \<and> RewriteTimestamps (eh_config eh) = P_RewriteTimestamps p \<and> RewriteIDs (eh_config eh) = P_RewriteIDs p
     \<and> RewriteServiceNames (eh_config eh) = P_RewriteServiceNames p
     \<and> RewriteServiceNodeNames (eh_config eh) = P_RewriteServiceNodeNames p
     \<and> RewriteServiceTargetNames (eh_config eh) = P_RewriteServiceTargetNames p
     \<and> RewriteSpanNames (eh_config eh) = P_RewriteSpanNames p
     \<and> RewriteTransactionNames (eh_config eh) = P_RewriteTransactionNames p
     \<and> RewriteTransactionTypes (eh_config eh) = P_RewriteTransactionTypes p
     \<and> TargetStackVersion (eh_config eh) = P_TargetStackVersion p"
  by (cases eh; cases "eh_config eh")
     (auto simp: NewEventHandler_def newAPMEventHandler_def res_bind_Inr_iff Let_def split: option.splits)

end
