(* ===== verification/StubEs.thy ===== *)
theory StubEs
  imports Transport
begin

section \<open>The Elasticsearch stub (internal/proxy, cmd/moxy)\<close>

text \<open>
  \<open>ServeHTTP\<close> answers the requests an APM Server makes to Elasticsearch; \<open>moxy\<close> serves it.  A body is
  the bytes that can be read and the error at their end; the gzip and zstd readers are parameters.
  The pool of buffers is state: the buffers that were put back.
\<close>

subsection \<open>Requests and responses\<close>

type_synonym reader = "bytes \<times> string option"

record request =
  rq_path :: string
  rq_header :: header
  rq_body :: reader

record response =
  rs_status :: "int option"
  rs_header :: header
  rs_body :: bytes

definition no_response :: response where
  "no_response = \<lparr>rs_status = None, rs_header = Map.empty, rs_body = []\<rparr>"

text \<open>Only the first \<open>WriteHeader\<close> counts; \<open>Write\<close> implies status 200, and so does the end of the handler.\<close>

definition WriteHeader :: "int \<Rightarrow> response \<Rightarrow> response" where
  "WriteHeader code w = (if rs_status w = None then w\<lparr>rs_status := Some code\<rparr> else w)"

definition resp_Write :: "bytes \<Rightarrow> response \<Rightarrow> response" where
  "resp_Write b w = (let w = WriteHeader 200 w in w\<lparr>rs_body := rs_body w @ b\<rparr>)"

definition resp_Set :: "string \<Rightarrow> string \<Rightarrow> response \<Rightarrow> response" where
  "resp_Set k v w = w\<lparr>rs_header := header_Set k v (rs_header w)\<rparr>"

definition http_Error :: "string \<Rightarrow> int \<Rightarrow> response \<Rightarrow> response" where
  "http_Error msg code w =
     resp_Write (msg @ [CHR 0x0A]) (WriteHeader code
       (resp_Set ''X-Content-Type-Options'' ''nosniff'' (resp_Set ''Content-Type'' ''text/plain; charset=utf-8'' w)))"

definition final_status :: "response \<Rightarrow> int" where
  "final_status w = (case rs_status w of Some c \<Rightarrow> c | None \<Rightarrow> 200)"

subsection \<open>Base64\<close>

definition b64_char :: "nat \<Rightarrow> char" where
  "b64_char n = chr (if n < 26 then 65 + n else if n < 52 then 97 + (n - 26) else if n < 62 then 48 + (n - 52)
                     else if n = 62 then 43 else 47)"

fun b64_encode :: "bytes \<Rightarrow> string" where
  "b64_encode [] = []"
| "b64_encode [a] = [b64_char (byte_val a div 4), b64_char (byte_val a mod 4 * 16), CHR ''='', CHR ''='']"
| "b64_encode [a, b] =
     [b64_char (byte_val a div 4), b64_char (byte_val a mod 4 * 16 + byte_val b div 16), b64_char (byte_val b mod 16 * 4), CHR ''='']"
| "b64_encode (a # b # c # s) =
     b64_char (byte_val a div 4) # b64_char (byte_val a mod 4 * 16 + byte_val b div 16)
       # b64_char (byte_val b mod 16 * 4 + byte_val c div 64) # b64_char (byte_val c mod 64) # b64_encode s"

subsection \<open>The handler and its options\<close>

record stub_es =
  st_auth :: string
  st_info :: bytes
  st_license :: bytes
  st_unknown :: "request \<Rightarrow> response \<Rightarrow> response"

type_synonym stub_option = "stub_es \<Rightarrow> stub_es"

definition StubESWithAuth :: "string \<Rightarrow> string \<Rightarrow> stub_option" where
  "StubESWithAuth username password h = h\<lparr>st_auth := b64_encode (username @ '':'' @ password)\<rparr>"

definition StubESWithInfo :: "string \<Rightarrow> stub_option" where
  "StubESWithInfo info h = h\<lparr>st_info := info\<rparr>"

definition StubESWithLicense :: "string \<Rightarrow> stub_option" where
  "StubESWithLicense license h = h\<lparr>st_license := license\<rparr>"

definition StubESWithUnknownPathCallback :: "(request \<Rightarrow> response \<Rightarrow> response) \<Rightarrow> stub_option" where
  "StubESWithUnknownPathCallback cb h = h\<lparr>st_unknown := cb\<rparr>"

definition defaultLicense :: string where
  "defaultLicense = ''{\"license\":{\"uid\":\"cc49813b-6b8e-2138-fbb8-243ae2b3deed\",\"type\":\"enterprise\",\"status\":\"active\"}}''"

definition nl :: string where "nl = [CHR 0x0A]"

definition defaultInfo :: string where
  "defaultInfo = ''{'' @ nl @ ''\"name\": \"instance-0000000001\",'' @ nl
     @ ''\"cluster_name\": \"eca3b3c3bbee4816bb92f82184e328dd\",'' @ nl
     @ ''\"cluster_uuid\": \"cc49813b-6b8e-2138-fbb8-243ae2b3deed\",'' @ nl @ ''\"version\": {'' @ nl
     @ CHR 0x09 # ''\"number\": \"8.15.1\",'' @ nl @ CHR 0x09 # ''\"build_flavor\": \"default\",'' @ nl
     @ CHR 0x09 # ''\"build_type\": \"docker\",'' @ nl
     @ CHR 0x09 # ''\"build_hash\": \"253e8544a65ad44581194068936f2a5d57c2c051\",'' @ nl
     @ CHR 0x09 # ''\"build_date\": \"2024-09-02T22:04:47.310170297Z\",'' @ nl
     @ CHR 0x09 # ''\"build_snapshot\": false,'' @ nl @ CHR 0x09 # ''\"lucene_version\": \"9.11.1\",'' @ nl
     @ CHR 0x09 # ''\"minimum_wire_compatibility_version\": \"7.17.0\",'' @ nl
     @ CHR 0x09 # ''\"minimum_index_compatibility_version\": \"7.0.0\"'' @ nl
     @ ''},'' @ nl @ ''\"tagline\": \"You Know, for Search\"'' @ nl @ ''}''"

definition zero_stub :: stub_es where
  "zero_stub = \<lparr>st_auth = [], st_info = [], st_license = [], st_unknown = \<lambda>req w. w\<rparr>"

definition NewHandlerStubES :: "stub_option list \<Rightarrow> stub_es" where
  "NewHandlerStubES options =
     fold (\<lambda>opt h. opt h)
       ([StubESWithInfo defaultInfo, StubESWithLicense defaultLicense, StubESWithUnknownPathCallback (\<lambda>req w. w)] @ options)
       zero_stub"

definition moxy_handler :: "string \<Rightarrow> string \<Rightarrow> stub_es" where
  "moxy_handler username password =
     (let options = (if username \<noteq> [] \<and> password \<noteq> [] then [StubESWithAuth username password] else [])
      in NewHandlerStubES options)"

subsection \<open>Scanning a body\<close>

text \<open>The lines a scanner of the body yields, and its error when it stops: a line that is too long, or
  the error of the reader, after which what was read before is still split into lines.\<close>

function scan_reader :: "bytes \<Rightarrow> string option \<Rightarrow> bytes list \<times> string option" where
  "scan_reader s err =
     (let line = takeWhile (\<lambda>c. c \<noteq> CHR 0x0A) s in
      if s = [] then ([], err)
      else if max_line < length line then ([], Some ''bufio.Scanner: token too long'')
      else (case scan_reader (drop (Suc (length line)) s) err of (ls, e) \<Rightarrow> (dropCR line # ls, e)))"
  by pat_completeness auto
termination
  by (relation "measure (\<lambda>(s, e). length s)") auto

declare scan_reader.simps [simp del]

text \<open>The loop of \<open>_bulk\<close> over the scanned lines, two at a time: the buffer, or nothing when a source is
  missing.\<close>

definition create_item :: bytes where "create_item = ''{\"create\":{\"status\":201}}''"

fun bulk_loop :: "bool \<Rightarrow> bytes list \<Rightarrow> bytes \<Rightarrow> bytes option" where
  "bulk_loop first [] jsonw = Some jsonw"
| "bulk_loop first [action] jsonw = None"
| "bulk_loop first (action # source # ls) jsonw =
     bulk_loop False ls ((if first then jsonw else jsonw @ '','') @ create_item)"

subsection \<open>ServeHTTP\<close>

record readers =
  gzip_reader :: "reader \<Rightarrow> string + reader"
  zstd_reader :: "reader \<Rightarrow> string + reader"

definition open_body :: "readers \<Rightarrow> request \<Rightarrow> string + reader" where
  "open_body rds req =
     (let enc = header_Get (rq_header req) ''Content-Encoding'' in
      if enc = ''gzip'' then gzip_reader rds (rq_body req)
      else if enc = ''zstd'' then zstd_reader rds (rq_body req)
      else Inr (rq_body req))"

text \<open>\<open>memPool.Get\<close> takes a buffer of the pool, or a new one; the deferred function puts it back empty.\<close>

definition pool_Get :: "bytes list \<Rightarrow> bytes \<times> bytes list" where
  "pool_Get pool = (case pool of [] \<Rightarrow> ([], []) | b # bs \<Rightarrow> (b, bs))"

definition bulk :: "readers \<Rightarrow> request \<Rightarrow> response \<Rightarrow> bytes list \<Rightarrow> response \<times> bytes list" where
  "bulk rds req w pool =
     (case open_body rds req of
        Inl err \<Rightarrow> (http_Error (''reader error: '' @ err) 500 w, pool)
      | Inr (s, e) \<Rightarrow>
          (case pool_Get pool of (jsonw, pool) \<Rightarrow>
             (let jsonw = jsonw @ ''{\"items\":['' in
              case scan_reader s e of (ls, err) \<Rightarrow>
                (case bulk_loop True ls jsonw of
                   None \<Rightarrow> (http_Error ''expected source'' 400 w, [] # pool)
                 | Some jsonw \<Rightarrow>
                     (case err of
                        Some err \<Rightarrow> (http_Error (''scanner error: '' @ err) 400 w, [] # pool)
                      | None \<Rightarrow> (resp_Write (jsonw @ '']}'') w, [] # pool))))))"

definition ServeHTTP :: "stub_es \<Rightarrow> readers \<Rightarrow> request \<Rightarrow> bytes list \<Rightarrow> response \<times> bytes list" where
  "ServeHTTP h rds req pool =
     (let w = resp_Set ''X-Elastic-Product'' ''Elasticsearch'' no_response;
          (auth, found) = cut_prefix (header_Get (rq_header req) ''Authorization'') ''Basic ''
      in if length (st_auth h) > 0 \<and> auth \<noteq> st_auth h then (WriteHeader 401 w, pool)
      else if rq_path req = ''/'' then (resp_Write (st_info h) w, pool)
      else if rq_path req = ''/.apm-agent-configuration/_search'' then
        (WriteHeader 200 (resp_Write ''{}'' (resp_Set ''Content-Type'' ''application/json'' w)), pool)
      else if rq_path req = ''/_license'' then (resp_Write (st_license h) w, pool)
      else if rq_path req = ''/_bulk'' then bulk rds req w pool
      else (st_unknown h req w, pool))"

subsection \<open>Base64 is injective\<close>

lemma b64_char_inj: "m < 64 \<Longrightarrow> n < 64 \<Longrightarrow> b64_char m = b64_char n \<longleftrightarrow> m = n"
proof
  assume mn: "m < 64" "n < 64" and e: "b64_char m = b64_char n"
  define f :: "nat \<Rightarrow> nat" where
    "f n = (if n < 26 then 65 + n else if n < 52 then 97 + (n - 26) else if n < 62 then 48 + (n - 52) else if n = 62 then 43 else 47)" for n
  have small: "f n < 256" if "n < 64" for n using that by (auto simp: f_def)
  have "byte_val (b64_char n) = f n" if "n < 64" for n
    unfolding b64_char_def using small[OF that] by (simp only: f_def[symmetric] byte_val_chr)
  then have "f m = f n" using mn e by metis
  then show "m = n" using mn by (auto simp: f_def split: if_splits)
qed simp

lemma b64_char_not_pad: "n < 64 \<Longrightarrow> b64_char n \<noteq> CHR ''=''"
proof
  assume n: "n < 64" and e: "b64_char n = CHR ''=''"
  have "byte_val (b64_char n) = 61" using e by (simp add: byte_val_def)
  then show False using n by (auto simp: b64_char_def split: if_splits)
qed

lemma sextet_bounds:
  "byte_val a div 4 < 64" "byte_val a mod 4 * 16 < 64" "byte_val a mod 4 * 16 + byte_val b div 16 < 64"
  "byte_val b mod 16 * 4 < 64" "byte_val b mod 16 * 4 + byte_val c div 64 < 64" "byte_val c mod 64 < 64"
proof -
  have "byte_val x div 4 < 64" "byte_val x div 16 < 16" "byte_val x div 64 < 4" for x using byte_val_less[of x] by linarith+
  moreover have "x mod 4 < 4" "x mod 16 < 16" "x mod 64 < 64" for x :: nat by simp_all
  ultimately have b: "byte_val a div 4 < 64" "byte_val a mod 4 < 4" "byte_val b div 16 < 16" "byte_val b mod 16 < 16"
    "byte_val c div 64 < 4" "byte_val c mod 64 < 64" by blast+
  show "byte_val a div 4 < 64" "byte_val a mod 4 * 16 < 64" "byte_val a mod 4 * 16 + byte_val b div 16 < 64"
    "byte_val b mod 16 * 4 < 64" "byte_val b mod 16 * 4 + byte_val c div 64 < 64" "byte_val c mod 64 < 64"
    using b by linarith+
qed

lemma byte_val_inj: "byte_val a = byte_val b \<longleftrightarrow> a = b"
  by (metis chr_byte_val)

lemma char_eqI:
  "byte_val a div 4 = byte_val b div 4 \<Longrightarrow> byte_val a mod 4 = byte_val b mod 4 \<Longrightarrow> a = b"
  "byte_val a div 16 = byte_val b div 16 \<Longrightarrow> byte_val a mod 16 = byte_val b mod 16 \<Longrightarrow> a = b"
  "byte_val a div 64 = byte_val b div 64 \<Longrightarrow> byte_val a mod 64 = byte_val b mod 64 \<Longrightarrow> a = b"
proof -
  have d: "m = n" if "m div k = n div k" "m mod k = n mod k" for m n k :: nat
    by (subst div_mult_mod_eq[of m k, symmetric], subst div_mult_mod_eq[of n k, symmetric]) (simp only: that)
  show "byte_val a div 4 = byte_val b div 4 \<Longrightarrow> byte_val a mod 4 = byte_val b mod 4 \<Longrightarrow> a = b"
    "byte_val a div 16 = byte_val b div 16 \<Longrightarrow> byte_val a mod 16 = byte_val b mod 16 \<Longrightarrow> a = b"
    "byte_val a div 64 = byte_val b div 64 \<Longrightarrow> byte_val a mod 64 = byte_val b mod 64 \<Longrightarrow> a = b"
    by (rule iffD1[OF byte_val_inj], rule d, assumption+)+
qed

lemma digit_split: "y < k \<Longrightarrow> y' < k \<Longrightarrow> x * k + y = x' * k + y' \<longleftrightarrow> x = x' \<and> y = (y'::nat)"
proof
  assume y: "y < k" "y' < k" and e: "x * k + y = x' * k + y'"
  have "(x * k + y) div k = x" "(x' * k + y') div k = x'" using y by simp_all
  then have "x = x'" using e by simp
  then show "x = x' \<and> y = y'" using e by simp
qed simp

lemma sextet_split:
  "byte_val a mod 4 * 16 + byte_val b div 16 = byte_val a' mod 4 * 16 + byte_val b' div 16
     \<longleftrightarrow> byte_val a mod 4 = byte_val a' mod 4 \<and> byte_val b div 16 = byte_val b' div 16"
  "byte_val b mod 16 * 4 + byte_val c div 64 = byte_val b' mod 16 * 4 + byte_val c' div 64
     \<longleftrightarrow> byte_val b mod 16 = byte_val b' mod 16 \<and> byte_val c div 64 = byte_val c' div 64"
proof -
  have "byte_val x div 16 < 16" "byte_val x div 64 < 4" for x using byte_val_less[of x] by linarith+
  then show "byte_val a mod 4 * 16 + byte_val b div 16 = byte_val a' mod 4 * 16 + byte_val b' div 16
     \<longleftrightarrow> byte_val a mod 4 = byte_val a' mod 4 \<and> byte_val b div 16 = byte_val b' div 16"
    "byte_val b mod 16 * 4 + byte_val c div 64 = byte_val b' mod 16 * 4 + byte_val c' div 64
     \<longleftrightarrow> byte_val b mod 16 = byte_val b' mod 16 \<and> byte_val c div 64 = byte_val c' div 64"
    by (simp_all add: digit_split)
qed

lemmas b64_simps = b64_char_inj b64_char_not_pad b64_char_not_pad[symmetric] sextet_bounds sextet_split

lemma b64_encode_inj: "b64_encode s = b64_encode t \<longleftrightarrow> s = t"
proof
  show "b64_encode s = b64_encode t \<Longrightarrow> s = t"
  proof (induction s arbitrary: t rule: b64_encode.induct)
    case 1
    then show ?case by (cases t rule: b64_encode.cases) auto
  next
    case (2 a)
    then show ?case by (cases t rule: b64_encode.cases) (auto simp: b64_simps intro: char_eqI)
  next
    case (3 a b)
    then show ?case
      by (cases t rule: b64_encode.cases) (auto simp: b64_simps intro: char_eqI)
  next
    case (4 a b c s)
    then show ?case
      by (cases t rule: b64_encode.cases)
         (auto simp: b64_simps intro: char_eqI)
  qed
qed simp

subsection \<open>Authentication\<close>

lemma b64_nonempty: "s \<noteq> [] \<Longrightarrow> b64_encode s \<noteq> []"
  by (cases s rule: b64_encode.cases) auto

lemma new_handler_auth: "st_auth (NewHandlerStubES []) = []"
  by (simp add: NewHandlerStubES_def zero_stub_def StubESWithInfo_def StubESWithLicense_def StubESWithUnknownPathCallback_def)

lemma new_handler_unknown: "st_unknown (NewHandlerStubES []) = (\<lambda>req w. w)"
  by (simp add: NewHandlerStubES_def zero_stub_def StubESWithInfo_def StubESWithLicense_def StubESWithUnknownPathCallback_def)

lemma moxy_handler_eq:
  "moxy_handler u p = (if u \<noteq> [] \<and> p \<noteq> [] then (NewHandlerStubES [])\<lparr>st_auth := b64_encode (u @ '':'' @ p)\<rparr> else NewHandlerStubES [])"
  by (simp add: moxy_handler_def NewHandlerStubES_def StubESWithAuth_def StubESWithInfo_def StubESWithLicense_def
      StubESWithUnknownPathCallback_def)

lemma status_simps:
  "final_status (resp_Write b w) = final_status w"
  "final_status (resp_Set k v w) = final_status w"
  "final_status (WriteHeader c no_response) = c"
  "final_status no_response = 200"
  "rs_status w = None \<Longrightarrow> final_status (WriteHeader c w) = c"
  "rs_status w = None \<Longrightarrow> final_status (http_Error m c w) = c"
  "rs_status w = Some n \<Longrightarrow> final_status (WriteHeader c w) = n"
  "rs_status (resp_Set k v w) = rs_status w"
  "rs_status no_response = None"
  by (auto simp: final_status_def resp_Write_def WriteHeader_def resp_Set_def no_response_def http_Error_def Let_def)

lemma bulk_status: "rs_status w = None \<Longrightarrow> final_status (fst (bulk rds req w pool)) \<in> {200, 400, 500}"
proof -
  assume w: "rs_status w = None"
  then have "final_status (resp_Write b w) = 200" for b by (simp add: status_simps(1)) (simp add: final_status_def)
  then show ?thesis using w
    by (auto simp: bulk_def status_simps Let_def split: sum.split prod.split option.split)
qed

lemma authorised_status:
  assumes "st_auth h = [] \<or> fst (cut_prefix (header_Get (rq_header req) ''Authorization'') ''Basic '') = st_auth h"
    and "st_unknown h = (\<lambda>req w. w)"
  shows "final_status (fst (ServeHTTP h rds req pool)) \<noteq> 401"
proof -
  let ?w = "resp_Set ''X-Elastic-Product'' ''Elasticsearch'' no_response"
  have w: "rs_status ?w = None" "final_status ?w = 200" by (simp_all add: status_simps)
  have "final_status (WriteHeader 200 (resp_Write b (resp_Set k v ?w))) = 200" for b k v
    by (auto simp: final_status_def resp_Write_def WriteHeader_def resp_Set_def no_response_def Let_def)
  then show ?thesis
    using bulk_status[OF w(1), of rds req pool] w assms
    by (auto simp: ServeHTTP_def Let_def status_simps(1) case_prod_unfold)
qed

text \<open>C25 (who may use the stub).  A client that authenticates as user \<open>u\<close> with password \<open>p\<close> is refused
  exactly when \<open>moxy\<close> was given both a user name and a password and the pair is another one; without
  a password everyone is served.\<close>

theorem stub_authentication:
  assumes "header_Get (rq_header req) ''Authorization'' = ''Basic '' @ b64_encode (u @ '':'' @ p)"
  shows "final_status (fst (ServeHTTP (moxy_handler user pw) rds req pool)) = 401
     \<longleftrightarrow> user \<noteq> [] \<and> pw \<noteq> [] \<and> u @ '':'' @ p \<noteq> user @ '':'' @ pw"
proof -
  have cut: "cut_prefix (header_Get (rq_header req) ''Authorization'') ''Basic '' = (b64_encode (u @ '':'' @ p), True)"
    unfolding assms cut_prefix_def has_prefix_append by simp
  show ?thesis
  proof (cases "user \<noteq> [] \<and> pw \<noteq> [] \<and> u @ '':'' @ p \<noteq> user @ '':'' @ pw")
    case True
    let ?h = "moxy_handler user pw"
    have "st_auth ?h = b64_encode (user @ '':'' @ pw)" using True by (simp add: moxy_handler_eq)
    moreover have "b64_encode (user @ '':'' @ pw) \<noteq> []" by (intro b64_nonempty) simp
    moreover have "b64_encode (u @ '':'' @ p) \<noteq> b64_encode (user @ '':'' @ pw)" using True b64_encode_inj by blast
    ultimately have "ServeHTTP ?h rds req pool = (WriteHeader 401 (resp_Set ''X-Elastic-Product'' ''Elasticsearch'' no_response), pool)"
      unfolding ServeHTTP_def Let_def cut by simp
    then show ?thesis using True by (simp add: status_simps)
  next
    case False
    have "final_status (fst (ServeHTTP (moxy_handler user pw) rds req pool)) \<noteq> 401"
    proof (rule authorised_status)
      show "st_unknown (moxy_handler user pw) = (\<lambda>req w. w)" by (simp add: moxy_handler_eq new_handler_unknown)
      show "st_auth (moxy_handler user pw) = []
          \<or> fst (cut_prefix (header_Get (rq_header req) ''Authorization'') ''Basic '') = st_auth (moxy_handler user pw)"
        unfolding cut using False by (auto simp: moxy_handler_eq new_handler_auth)
    qed
    with False show ?thesis by blast
  qed
qed

subsection \<open>Bulk requests\<close>

lemma bulk_loop_eq:
  "bulk_loop first ls jsonw =
     (if odd (length ls) then None
      else Some (jsonw @ (if first then join_with '','' (replicate (length ls div 2) create_item)
                          else concat (replicate (length ls div 2) ('','' @ create_item)))))"
proof (induction first ls jsonw rule: bulk_loop.induct)
  case (3 first action source ls jsonw)
  then show ?case by (simp add: join_with_Cons map_replicate)
qed simp_all

lemma scan_reader_line:
  "CHR 0x0A \<notin> set l \<Longrightarrow> length l \<le> max_line \<Longrightarrow>
     scan_reader (l @ CHR 0x0A # s) err = (dropCR l # fst (scan_reader s err), snd (scan_reader s err))"
proof -
  assume l: "CHR 0x0A \<notin> set l" "length l \<le> max_line"
  have t: "takeWhile (\<lambda>c. c \<noteq> CHR 0x0A) (l @ CHR 0x0A # s) = l"
    using l(1) by (subst takeWhile_append2) auto
  show ?thesis using l(2) by (subst scan_reader.simps) (simp add: Let_def t case_prod_unfold)
qed

lemma scan_reader_Nil: "scan_reader [] err = ([], err)"
  by (subst scan_reader.simps) simp

lemma scan_reader_lines:
  "list_all (\<lambda>l. CHR 0x0A \<notin> set l \<and> length l \<le> max_line) ls \<Longrightarrow>
     scan_reader (concat (map (\<lambda>l. l @ nl) ls)) err = (map dropCR ls, err)"
  by (induction ls) (simp_all add: scan_reader_Nil scan_reader_line nl_def)

text \<open>C10 (bulk requests).  For an authorised bulk request whose body can be opened, the answer has one item
  for every two lines, joined by commas, and status 200; a missing source or, with no source missing,
  a scanner error is status 400.  A body of well-formed lines is scanned completely.  Whatever the
  outcome, the pool keeps only empty buffers.\<close>

theorem bulk_response:
  assumes "st_auth h = [] \<or> fst (cut_prefix (header_Get (rq_header req) ''Authorization'') ''Basic '') = st_auth h"
    and "rq_path req = ''/_bulk''" "open_body rds req = Inr (s, e)" "list_all (\<lambda>b. b = []) pool"
    and "scan_reader s e = (ls, err)" "ServeHTTP h rds req pool = (w, pool')"
  shows "(case (odd (length ls), err) of
        (True, _) \<Rightarrow> final_status w = 400 \<and> rs_body w = ''expected source'' @ nl
      | (False, Some m) \<Rightarrow> final_status w = 400 \<and> rs_body w = ''scanner error: '' @ m @ nl
      | (False, None) \<Rightarrow> final_status w = 200
          \<and> rs_body w = ''{\"items\":['' @ join_with '','' (replicate (length ls div 2) create_item) @ '']}'')
     \<and> list_all (\<lambda>b. b = []) pool'"
proof -
  let ?w = "resp_Set ''X-Elastic-Product'' ''Elasticsearch'' no_response"
  have serve: "ServeHTTP h rds req pool = bulk rds req ?w pool"
    unfolding ServeHTTP_def Let_def using assms(1,2) by (auto simp: case_prod_unfold)
  obtain rest where get: "pool_Get pool = ([], rest)" "list_all (\<lambda>b. b = []) rest"
    using assms(4) by (cases pool) (auto simp: pool_Get_def)
  have b: "bulk rds req ?w pool =
      (case (odd (length ls), err) of
        (True, _) \<Rightarrow> (http_Error ''expected source'' 400 ?w, [] # rest)
      | (False, Some m) \<Rightarrow> (http_Error (''scanner error: '' @ m) 400 ?w, [] # rest)
      | (False, None) \<Rightarrow> (resp_Write ((''{\"items\":['' @ join_with '','' (replicate (length ls div 2) create_item)) @ '']}'') ?w, [] # rest))"
    unfolding bulk_def assms(3) sum.case prod.case get(1) Let_def assms(5) bulk_loop_eq
    by (cases "odd (length ls)"; cases err) simp_all
  have body: "rs_body (http_Error m c ?w) = m @ nl" "rs_body (resp_Write x ?w) = x" for m c x
    by (simp_all add: http_Error_def resp_Write_def WriteHeader_def resp_Set_def no_response_def nl_def Let_def)
  have st: "final_status (http_Error m c ?w) = c" "final_status (resp_Write x ?w) = 200" for m c x
    by (simp_all add: status_simps)
  show ?thesis
    using assms(6) unfolding serve b
    by (cases "odd (length ls)"; cases err) (auto simp: body st get(2))
qed

definition ex_bulk :: request where
  "ex_bulk = \<lparr>rq_path = ''/_bulk'', rq_header = Map.empty, rq_body = (concat (map (\<lambda>l. l @ nl) [''a'', ''b'', ''c'', ''d'']), None)\<rparr>"

definition no_readers :: readers where "no_readers = \<lparr>gzip_reader = Inr, zstd_reader = Inr\<rparr>"

theorem bulk_response_witness:
  "\<exists>w pool'. ServeHTTP (NewHandlerStubES []) no_readers ex_bulk [] = (w, pool') \<and> final_status w = 200
     \<and> rs_body w = ''{\"items\":['' @ create_item @ '','' @ create_item @ '']}''"
proof -
  obtain w pool' where s: "ServeHTTP (NewHandlerStubES []) no_readers ex_bulk [] = (w, pool')"
    by (cases "ServeHTTP (NewHandlerStubES []) no_readers ex_bulk []")
  have o: "open_body no_readers ex_bulk = Inr (concat (map (\<lambda>l. l @ nl) [''a'', ''b'', ''c'', ''d'']), None)"
    by (simp add: open_body_def ex_bulk_def header_Get_def)
  have sc: "scan_reader (concat (map (\<lambda>l. l @ nl) [''a'', ''b'', ''c'', ''d''])) None = (map dropCR [''a'', ''b'', ''c'', ''d''], None)"
    by (rule scan_reader_lines) (simp add: max_line_def)
  have p: "rq_path ex_bulk = ''/_bulk''" by (simp add: ex_bulk_def)
  have a: "st_auth (NewHandlerStubES []) = [] \<or> fst (cut_prefix (header_Get (rq_header ex_bulk) ''Authorization'') ''Basic '') = st_auth (NewHandlerStubES [])"
    by (simp add: new_handler_auth)
  from bulk_response[OF a p o _ sc s] s show ?thesis by simp
qed

theorem stub_authentication_witness:
  "final_status (fst (ServeHTTP (moxy_handler ''elastic'' ''pw'') no_readers
     \<lparr>rq_path = ''/'', rq_header = [canonical_key ''Authorization'' \<mapsto> ''Basic '' @ b64_encode (''elastic'' @ '':'' @ ''no'')], rq_body = ([], None)\<rparr> []))
     = 401"
proof -
  let ?r = "\<lparr>rq_path = ''/'', rq_header = [canonical_key ''Authorization'' \<mapsto> ''Basic '' @ b64_encode (''elastic'' @ '':'' @ ''no'')], rq_body = ([], None)\<rparr>"
  have "header_Get (rq_header ?r) ''Authorization'' = ''Basic '' @ b64_encode (''elastic'' @ '':'' @ ''no'')"
    by (simp add: header_Get_def)
  from stub_authentication[OF this, of "''elastic''" "''pw''" no_readers "[]"] show ?thesis by simp
qed

end
