(* ===== verification/DurationString.thy ===== *)
theory DurationString
  imports Durations
begin

section \<open>Printing a duration (time.Duration.String)\<close>

text \<open>
  \<open>Duration.String\<close> of the standard library, which the rate flags print with: units below a second for
  durations that are shorter, hours, minutes and seconds otherwise, a fraction without its trailing
  zeros.  As in the library the text grows from its end, in \<open>buf\<close>.  Every duration that is printed
  parses back to itself, the least one included: the fraction is exact in the doubles of the parser.
\<close>

subsection \<open>fmtFrac and String\<close>

fun frac_loop :: "nat \<Rightarrow> bool \<Rightarrow> nat \<Rightarrow> string \<Rightarrow> bool \<times> string \<times> nat" where
  "frac_loop 0 printed v buf = (printed, buf, v)"
| "frac_loop (Suc n) printed v buf =
     (let digit = v mod 10; printed' = (printed \<or> digit \<noteq> 0)
      in frac_loop n printed' (v div 10) (if printed' then digit_char digit # buf else buf))"

definition fmtFrac :: "nat \<Rightarrow> nat \<Rightarrow> string \<Rightarrow> string \<times> nat" where
  "fmtFrac prec v buf =
     (case frac_loop prec False v buf of (printed, buf, v) \<Rightarrow> (if printed then CHR ''.'' # buf else buf, v))"

definition fmtInt :: "nat \<Rightarrow> string \<Rightarrow> string" where
  "fmtInt v buf = nat_str v @ buf"

definition small_string :: "nat \<Rightarrow> nat \<Rightarrow> string \<Rightarrow> string" where
  "small_string prec u unit = (case fmtFrac prec u unit of (buf, u) \<Rightarrow> fmtInt u buf)"

definition large_string :: "nat \<Rightarrow> string" where
  "large_string u =
     (case fmtFrac 9 u ''s'' of (buf, u) \<Rightarrow>
        let buf = fmtInt (u mod 60) buf; u = u div 60 in
        if u > 0 then
          let buf = fmtInt (u mod 60) (CHR ''m'' # buf); u = u div 60 in
          if u > 0 then fmtInt u (CHR ''h'' # buf) else buf
        else buf)"

definition abs_string :: "nat \<Rightarrow> string" where
  "abs_string u =
     (if u < 1000000000 then
        (if u = 0 then ''0s''
         else if u < 1000 then small_string 0 u ''ns''
         else if u < 1000000 then small_string 3 u [CHR 0xC2, CHR 0xB5, CHR ''s'']
         else small_string 6 u ''ms'')
      else large_string u)"

definition dur_String :: "duration \<Rightarrow> string" where
  "dur_String d = (let buf = abs_string (nat \<bar>d\<bar>) in if d < 0 then CHR ''-'' # buf else buf)"

subsection \<open>The fraction that is printed\<close>

lemma frac_loop_printing:
  "\<exists>ds. frac_loop n True v buf = (True, ds @ buf, v div 10 ^ n) \<and> list_all is_digit ds \<and> length ds = n
     \<and> digits_val 0 ds = v mod 10 ^ n"
proof (induction n arbitrary: v buf)
  case 0
  show ?case by (intro exI[of _ "[]"]) simp
next
  case (Suc n)
  let ?d = "digit_char (v mod 10)"
  obtain ds where ds: "frac_loop n True (v div 10) (?d # buf) = (True, ds @ ?d # buf, v div 10 div 10 ^ n)"
    "list_all is_digit ds" "length ds = n" "digits_val 0 ds = v div 10 mod 10 ^ n" using Suc.IH by blast
  have "v mod 10 ^ Suc n = 10 * (v div 10 mod 10 ^ n) + v mod 10" by (simp add: mod_mult2_eq)
  then have "digits_val 0 (ds @ [?d]) = v mod 10 ^ Suc n" using ds(4) by simp
  then show ?case using ds(1-3) by (intro exI[of _ "ds @ [?d]"]) (simp add: div_mult2_eq)
qed

lemma frac_loop_cases:
  "(v mod 10 ^ n = 0 \<and> frac_loop n False v buf = (False, buf, v div 10 ^ n)) \<or>
   (\<exists>ds. frac_loop n False v buf = (True, ds @ buf, v div 10 ^ n) \<and> list_all is_digit ds \<and> length ds \<le> n
      \<and> ds \<noteq> [] \<and> digits_val 0 ds * 10 ^ (n - length ds) = v mod 10 ^ n)"
proof (induction n arbitrary: v)
  case (Suc n)
  have v: "v mod 10 ^ Suc n = 10 * (v div 10 mod 10 ^ n) + v mod 10" by (simp add: mod_mult2_eq)
  show ?case
  proof (cases "v mod 10 = 0")
    case True
    from Suc.IH[of "v div 10"] show ?thesis
    proof
      assume "v div 10 mod 10 ^ n = 0 \<and> frac_loop n False (v div 10) buf = (False, buf, v div 10 div 10 ^ n)"
      then show ?thesis using True v by (simp add: div_mult2_eq)
    next
      assume "\<exists>ds. frac_loop n False (v div 10) buf = (True, ds @ buf, v div 10 div 10 ^ n) \<and> list_all is_digit ds
        \<and> length ds \<le> n \<and> ds \<noteq> [] \<and> digits_val 0 ds * 10 ^ (n - length ds) = v div 10 mod 10 ^ n"
      then obtain ds where ds: "frac_loop n False (v div 10) buf = (True, ds @ buf, v div 10 div 10 ^ n)" "list_all is_digit ds"
        "length ds \<le> n" "ds \<noteq> []" "digits_val 0 ds * 10 ^ (n - length ds) = v div 10 mod 10 ^ n" by blast
      have "digits_val 0 ds * 10 ^ (Suc n - length ds) = v mod 10 ^ Suc n"
        using ds(3,5) True v by (simp add: Suc_diff_le)
      then show ?thesis using ds True by (intro disjI2 exI[of _ ds]) (simp add: div_mult2_eq)
    qed
  next
    case False
    let ?d = "digit_char (v mod 10)"
    obtain ds where ds: "frac_loop n True (v div 10) (?d # buf) = (True, ds @ ?d # buf, v div 10 div 10 ^ n)"
      "list_all is_digit ds" "length ds = n" "digits_val 0 ds = v div 10 mod 10 ^ n" using frac_loop_printing by blast
    then have "digits_val 0 (ds @ [?d]) = v mod 10 ^ Suc n" using v by simp
    then show ?thesis using ds False by (intro disjI2 exI[of _ "ds @ [?d]"]) (simp add: div_mult2_eq)
  qed
qed simp

text \<open>A fraction is nothing, or a point and digits worth \<open>f\<close> parts of \<open>10 ^ prec\<close>.\<close>

definition fraction :: "nat \<Rightarrow> nat \<Rightarrow> string \<Rightarrow> bool" where
  "fraction prec f fr \<longleftrightarrow> fr = [] \<and> f = 0 \<or>
     (\<exists>ds. fr = CHR ''.'' # ds \<and> ds \<noteq> [] \<and> list_all is_digit ds \<and> length ds \<le> prec \<and> digits_val 0 ds * 10 ^ (prec - length ds) = f)"

lemma fmtFrac_fraction:
  obtains fr where "fmtFrac prec v buf = (fr @ buf, v div 10 ^ prec)" "fraction prec (v mod 10 ^ prec) fr"
  using frac_loop_cases[of v prec buf]
proof
  assume "v mod 10 ^ prec = 0 \<and> frac_loop prec False v buf = (False, buf, v div 10 ^ prec)"
  then show ?thesis using that[of "[]"] by (simp add: fmtFrac_def fraction_def)
next
  assume "\<exists>ds. frac_loop prec False v buf = (True, ds @ buf, v div 10 ^ prec) \<and> list_all is_digit ds \<and> length ds \<le> prec
      \<and> ds \<noteq> [] \<and> digits_val 0 ds * 10 ^ (prec - length ds) = v mod 10 ^ prec"
  then obtain ds where "frac_loop prec False v buf = (True, ds @ buf, v div 10 ^ prec)" "list_all is_digit ds" "length ds \<le> prec"
      "ds \<noteq> []" "digits_val 0 ds * 10 ^ (prec - length ds) = v mod 10 ^ prec" by blast
  then show ?thesis using that[of "CHR ''.'' # ds"] by (auto simp: fmtFrac_def fraction_def)
qed

subsection \<open>The fraction that is parsed\<close>

lemma digits_val_bound: "list_all is_digit ds \<Longrightarrow> x < 10 ^ j \<Longrightarrow> digits_val x ds < 10 ^ (j + length ds)"
proof (induction ds arbitrary: x j)
  case (Cons c ds)
  have "x * 10 + digit_val c < 10 ^ Suc j" using Cons.prems digit_val_less[of c] by simp
  then show ?case using Cons.IH[of "x * 10 + digit_val c" "Suc j"] Cons.prems(1) by simp
qed simp

lemma f64_power10: "j \<le> 15 \<Longrightarrow> f64_round (10 ^ j) = Fin (10 ^ j)"
proof -
  assume "j \<le> 15"
  then have "(10 :: int) ^ j \<le> 10 ^ 15" by (intro power_increasing) auto
  then have "\<bar>(10 :: int) ^ j\<bar> < 2 ^ 53" by simp
  from f64_round_of_int[OF this] show ?thesis by simp
qed

lemma leading_frac_digits:
  assumes "list_all is_digit ds" "x < 10 ^ j" "j + length ds \<le> 15" "r = [] \<or> \<not> is_digit (hd r)"
  shows "leading_frac x (Fin (10 ^ j)) False (ds @ r) = (digits_val x ds, Fin (10 ^ (j + length ds)), r)"
  using assms
proof (induction ds arbitrary: x j)
  case Nil
  then show ?case by (cases r) auto
next
  case (Cons c ds)
  let ?y = "x * 10 + digit_val c"
  have y: "?y < 10 ^ Suc j" using Cons.prems(1,2) digit_val_less[of c] by simp
  have "(10 :: nat) ^ Suc j \<le> 10 ^ 15" using Cons.prems(3) by (intro power_increasing) auto
  then have b: "?y < 10 ^ 15" using y by linarith
  have "f_mul (Fin (10 ^ j)) (Fin 10) = Fin (10 ^ Suc j)"
    using f64_power10[of "Suc j"] Cons.prems(3) by (simp add: mult.commute)
  then show ?case using Cons.IH[of ?y "Suc j"] Cons.prems y b by (simp add: Let_def)
qed

lemma dur_component_fraction:
  assumes u: "map_of unit_map u = Some (10 ^ prec)" and prec: "prec \<le> 9"
    and fr: "fraction prec f fr" and n: "n * 10 ^ prec + f \<le> 2 ^ 63" and r: "r = [] \<or> is_digit (hd r)"
  shows "dur_component (nat_str n @ fr @ u @ r) = Inr (n * 10 ^ prec + f, r)"
proof -
  have uc: "u \<noteq> []" "list_all is_unit_char u" using unit_map_chars[OF u] by auto
  then have hu: "\<not> is_digit (hd (u @ r))" "hd (u @ r) \<noteq> CHR ''.''" "u @ r \<noteq> []"
    by (cases u; auto simp: is_unit_char_def)+
  have tw: "takeWhile is_unit_char (u @ r) = u" "dropWhile is_unit_char (u @ r) = r"
    using uc(2) r by (cases r; auto simp: takeWhile_append dropWhile_append is_unit_char_def list_all_iff)+
  have hd: "is_digit (hd (nat_str n @ fr @ u @ r))" using nat_str_hd_digit by simp
  have nu: "n \<le> 2 ^ 63 div 10 ^ prec" using n by (simp add: less_eq_div_iff_mult_less_eq)
  then have "n \<le> 2 ^ 63" by (meson div_le_dividend order_trans)
  moreover have "fr @ u @ r = [] \<or> \<not> is_digit (hd (fr @ u @ r))"
    using fr hu(1) by (auto simp: fraction_def is_digit_def)
  ultimately have li: "leading_int 0 (nat_str n @ fr @ u @ r) = Some (n, fr @ u @ r)"
    using leading_int_digits[of "nat_str n" 0 "fr @ u @ r"] by simp
  show ?thesis
  proof (cases "fr = []")
    case True
    then have "f = 0" using fr by (simp add: fraction_def)
    then show ?thesis using True li hd hu uc(1) tw u nu by (simp add: dur_component_def dur_fraction_def Let_def)
  next
    case False
    then obtain ds where ds: "fr = CHR ''.'' # ds" "ds \<noteq> []" "list_all is_digit ds" "length ds \<le> prec"
      "digits_val 0 ds * 10 ^ (prec - length ds) = f" using fr by (auto simp: fraction_def)
    let ?x = "digits_val 0 ds" and ?k = "length ds"
    have "leading_frac 0 (Fin 1) False (ds @ u @ r) = (?x, Fin (10 ^ ?k), u @ r)"
      using leading_frac_digits[OF ds(3), of 0 0 "u @ r"] hu(1) ds(4) prec by simp
    then have df: "dur_fraction (fr @ u @ r) = (?x, Fin (10 ^ ?k), True, u @ r)"
      using ds(2) by (simp add: dur_fraction_def ds(1))
    have split: "(10 :: nat) ^ prec = 10 ^ ?k * 10 ^ (prec - ?k)" using ds(4) by (simp flip: power_add)
    have q: "f_div (f_of_int (int (10 ^ prec))) (Fin (10 ^ ?k)) = Fin (10 ^ (prec - ?k))"
    proof -
      have "(of_nat (10 ^ prec) :: rat) / 10 ^ ?k = 10 ^ (prec - ?k)" unfolding split by simp
      then show ?thesis using f64_power10[of prec] f64_power10[of "prec - ?k"] prec by (simp add: f_of_int_def)
    qed
    have "?x < 10 ^ ?k" using digits_val_bound[OF ds(3), of 0 0] by simp
    also have "(10 :: nat) ^ ?k \<le> 10 ^ 9" using ds(4) prec by (intro power_increasing) auto
    finally have x: "?x < 10 ^ 9" .
    have "f < 10 ^ prec" using \<open>?x < 10 ^ ?k\<close> unfolding split ds(5)[symmetric] by simp
    also have "(10 :: nat) ^ prec \<le> 10 ^ 9" using prec by (intro power_increasing) auto
    finally have "f < 10 ^ 9" .
    then have "f64_round (of_nat ?x) = Fin (of_nat ?x)" "f64_round (of_nat f) = Fin (of_nat f)"
      using f64_round_of_int[of "int ?x"] f64_round_of_int[of "int f"] x by simp_all
    moreover have "(of_nat ?x * 10 ^ (prec - ?k) :: rat) = of_nat f" by (simp flip: ds(5))
    ultimately have "f_mul (f_of_int (int ?x)) (Fin (10 ^ (prec - ?k))) = Fin (of_nat f)"
      by (simp add: f_of_int_def)
    then have "f_trunc_nat (f_mul (f_of_int (int ?x)) (f_div (f_of_int (int (10 ^ prec))) (Fin (10 ^ ?k)))) = f"
      unfolding q by simp
    moreover have "f = 0" if "?x = 0" using ds(5) that by simp
    ultimately show ?thesis using li hd hu uc(1) tw u nu n df
      by (auto simp: dur_component_def Let_def)
  qed
qed

subsection \<open>Printing and parsing\<close>

lemma dur_loop_step:
  "dur_component s = Inr (v, r) \<Longrightarrow> d + v \<le> 2 ^ 63 \<Longrightarrow> dur_loop d s = dur_loop (d + v) r"
  by (subst dur_loop.simps) (auto simp: Let_def dur_component_def)

lemma dur_loop_end [simp]: "dur_loop d [] = Inr d"
  by (simp add: dur_loop.simps)

lemma dur_component_unit:
  assumes u: "map_of unit_map u = Some un" and n: "n * un \<le> 2 ^ 63" and r: "r = [] \<or> is_digit (hd r)"
  shows "dur_component (nat_str n @ u @ r) = Inr (n * un, r)"
proof -
  have uc: "u \<noteq> []" "list_all is_unit_char u" "0 < un" using unit_map_chars[OF u] by auto
  then have hu: "\<not> is_digit (hd (u @ r))" "hd (u @ r) \<noteq> CHR ''.''" "u @ r \<noteq> []"
    by (cases u; auto simp: is_unit_char_def)+
  have tw: "takeWhile is_unit_char (u @ r) = u" "dropWhile is_unit_char (u @ r) = r"
    using uc(2) r by (cases r; auto simp: takeWhile_append dropWhile_append is_unit_char_def list_all_iff)+
  have nu: "n \<le> 2 ^ 63 div un" using n uc(3) by (simp add: less_eq_div_iff_mult_less_eq)
  then have "n \<le> 2 ^ 63" by (meson div_le_dividend order_trans)
  then have li: "leading_int 0 (nat_str n @ u @ r) = Some (n, u @ r)"
    using leading_int_digits[of "nat_str n" 0 "u @ r"] hu(1) by simp
  have "is_digit (hd (nat_str n @ u @ r))" using nat_str_hd_digit by simp
  then show ?thesis using li hu uc(1) tw u nu by (simp add: dur_component_def dur_fraction_def Let_def)
qed

lemma nat_str_hd_app: "is_digit (hd (nat_str n @ s))" "nat_str n @ s \<noteq> []"
  using nat_str_hd_digit by simp_all

lemma small_string_parses:
  assumes "map_of unit_map unit = Some (10 ^ prec)" "prec \<le> 9" "u \<le> 2 ^ 63"
  shows "dur_loop 0 (small_string prec u unit) = Inr u"
proof -
  obtain fr where fr: "fmtFrac prec u unit = (fr @ unit, u div 10 ^ prec)" "fraction prec (u mod 10 ^ prec) fr"
    by (rule fmtFrac_fraction)
  have v: "u div 10 ^ prec * 10 ^ prec + u mod 10 ^ prec = u" by (rule div_mult_mod_eq)
  have "dur_component (nat_str (u div 10 ^ prec) @ fr @ unit @ []) = Inr (u, [])"
    using dur_component_fraction[OF assms(1,2) fr(2), of "u div 10 ^ prec" "[]"] assms(3) unfolding v by simp
  then show ?thesis using dur_loop_step[of _ u "[]" 0] assms(3) by (simp add: small_string_def fmtInt_def fr(1))
qed

lemma unit_values:
  "map_of unit_map ''ns'' = Some (10 ^ 0)" "map_of unit_map [CHR 0xC2, CHR 0xB5, CHR ''s''] = Some (10 ^ 3)"
  "map_of unit_map ''ms'' = Some (10 ^ 6)" "map_of unit_map ''s'' = Some (10 ^ 9)"
  "map_of unit_map ''m'' = Some 60000000000" "map_of unit_map ''h'' = Some 3600000000000"
  by (simp_all add: unit_map_def)

lemma large_string_parses:
  assumes "u \<le> 2 ^ 63" shows "dur_loop 0 (large_string u) = Inr u"
proof -
  define s m h where smh: "s = u div 10 ^ 9 mod 60" "m = u div 10 ^ 9 div 60 mod 60" "h = u div 10 ^ 9 div 60 div 60"
  obtain fr where fr: "fmtFrac 9 u ''s'' = (fr @ ''s'', u div 10 ^ 9)" "fraction 9 (u mod 10 ^ 9) fr"
    by (rule fmtFrac_fraction)
  let ?ss = "nat_str s @ fr @ ''s''" and ?sv = "s * 10 ^ 9 + u mod 10 ^ 9"
  have split: "a = x * k + y \<Longrightarrow> x = z * 60 + s' \<Longrightarrow> z = h' * 60 + m' \<Longrightarrow>
      a = h' * (3600 * k) + m' * (60 * k) + (s' * k + y)" for a x y z k h' m' s' :: nat
    by (simp add: algebra_simps)
  have "u = u div 10 ^ 9 * 10 ^ 9 + u mod 10 ^ 9" by (rule div_mult_mod_eq[symmetric])
  moreover have "u div 10 ^ 9 = u div 10 ^ 9 div 60 * 60 + s" unfolding smh by (rule div_mult_mod_eq[symmetric])
  moreover have "u div 10 ^ 9 div 60 = h * 60 + m" unfolding smh by (rule div_mult_mod_eq[symmetric])
  ultimately have u: "u = h * 3600000000000 + m * 60000000000 + ?sv" using split by fastforce
  have s: "dur_loop d ?ss = Inr (d + ?sv)" if "d + ?sv \<le> 2 ^ 63" for d
    using dur_loop_step[OF dur_component_fraction[OF unit_values(4) _ fr(2), of s "[]"] that] that by simp
  have m: "dur_loop d (nat_str m @ ''m'' @ ?ss) = Inr (d + m * 60000000000 + ?sv)" if "d + m * 60000000000 + ?sv \<le> 2 ^ 63" for d
    using dur_loop_step[OF dur_component_unit[OF unit_values(5), of m ?ss], of d] s[OF that] that nat_str_hd_app by simp
  have h: "dur_loop 0 (nat_str h @ ''h'' @ nat_str m @ ''m'' @ ?ss) = Inr u"
    using dur_loop_step[OF dur_component_unit[OF unit_values(6), of h "nat_str m @ ''m'' @ ?ss"], of 0] m[of "h * 3600000000000"]
      assms u nat_str_hd_app by simp
  have "large_string u = (if u div 10 ^ 9 div 60 > 0 then (if h > 0 then nat_str h @ ''h'' @ nat_str m @ ''m'' @ ?ss else nat_str m @ ''m'' @ ?ss) else ?ss)"
    using fr(1) by (simp add: large_string_def fmtInt_def smh Let_def)
  moreover have "h = 0 \<and> m = 0" if "u div 10 ^ 9 div 60 = 0" using that by (simp add: smh)
  ultimately show ?thesis using h m[of 0] s[of 0] u assms by auto
qed

definition dur_shape :: "string \<Rightarrow> bool" where
  "dur_shape s \<longleftrightarrow> (\<exists>c w. s = c # w \<and> is_digit c \<and> w \<noteq> [])"

lemma dur_shape_app: "s \<noteq> [] \<Longrightarrow> dur_shape (nat_str n @ s)"
  using nat_str_hd_digit[of n] by (cases "nat_str n") (auto simp: dur_shape_def)

lemma string_shape [simp]:
  "unit \<noteq> [] \<Longrightarrow> dur_shape (small_string prec u unit)" "dur_shape (large_string u)"
proof -
  assume unit: "unit \<noteq> []"
  obtain fr where "fmtFrac prec u unit = (fr @ unit, u div 10 ^ prec)" by (rule fmtFrac_fraction)
  then show "dur_shape (small_string prec u unit)" using unit by (simp add: small_string_def fmtInt_def dur_shape_app)
next
  obtain fr where "fmtFrac 9 u ''s'' = (fr @ ''s'', u div 10 ^ 9)" by (rule fmtFrac_fraction)
  then show "dur_shape (large_string u)" by (simp add: large_string_def fmtInt_def Let_def dur_shape_app)
qed

text \<open>The printed absolute value, and its parse.\<close>

lemma dur_String_abs:
  obtains c w where "dur_String d = (if d < 0 then CHR ''-'' # c # w else c # w)" "is_digit c" "w \<noteq> []"
    "nat \<bar>d\<bar> \<le> 2 ^ 63 \<Longrightarrow> dur_loop 0 (c # w) = Inr (nat \<bar>d\<bar>)"
proof -
  let ?u = "nat \<bar>d\<bar>"
  have zero: "dur_loop 0 ''0s'' = Inr 0"
  proof -
    have "nat_str 0 = ''0''" by code_simp
    then show ?thesis using dur_loop_step[OF dur_component_unit[OF unit_values(4), of 0 "[]"], of 0] by simp
  qed
  have "dur_shape ''0s''" by (simp add: dur_shape_def is_digit_def)
  then have "dur_shape (abs_string ?u)" by (simp add: abs_string_def)
  then obtain c w where cw: "abs_string ?u = c # w" "is_digit c" "w \<noteq> []" unfolding dur_shape_def by blast
  have "dur_loop 0 (abs_string ?u) = Inr ?u" if "?u \<le> 2 ^ 63"
    using zero large_string_parses[OF that] small_string_parses[OF unit_values(1) _ that]
      small_string_parses[OF unit_values(2) _ that] small_string_parses[OF unit_values(3) _ that] by (simp add: abs_string_def)
  moreover have "dur_String d = (if d < 0 then CHR ''-'' # c # w else c # w)" using cw(1) by (simp add: dur_String_def Let_def)
  ultimately show ?thesis using that cw by metis
qed

lemma duration_roundtrip:
  assumes "min_int64 \<le> d" "d \<le> max_int64"
  shows "parse_duration (dur_String d) = Inr d"
proof -
  have u: "nat \<bar>d\<bar> \<le> 2 ^ 63" using assms by (simp add: min_int64_def max_int64_def)
  obtain c w where cw: "dur_String d = (if d < 0 then CHR ''-'' # c # w else c # w)" "is_digit c" "w \<noteq> []"
    "dur_loop 0 (c # w) = Inr (nat \<bar>d\<bar>)" using dur_String_abs u by metis
  then show ?thesis
    using is_digit_not_sign[OF cw(2)] assms by (auto simp: parse_duration_def Let_def max_int64_def)
qed

end
