(* ===== verification/RateFlags.thy ===== *)
theory RateFlags
  imports EventRate DurationString
begin

section \<open>The text of a rate flag (loadgen/config, pkg/telemetrygen)\<close>

text \<open>
  \<open>String\<close> of both rate flags prints the burst and the interval; what a flag prints can be set again and
  gives the same rate.
\<close>

definition RateFlag_String :: "rate_flag \<Rightarrow> string" where
  "RateFlag_String f = itoa (Burst f) @ ''/'' @ dur_String (Interval f)"

definition Gen_RateFlag_String :: "rate_flag \<Rightarrow> string" where
  "Gen_RateFlag_String f = itoa (Burst f) @ ''/'' @ dur_String (Interval f)"

text \<open>An interval that begins with a minus gets the inserted digit in front of it and has no unit then.\<close>

lemma minus_after_one:
  assumes "is_digit c" shows "parse_duration (CHR ''1'' # CHR ''-'' # c # w) = Inl DurUnknownUnit"
proof -
  have d: "is_digit CHR ''1''" "\<not> is_digit CHR ''-''" "digit_val CHR ''1'' = 1" by (simp_all add: is_digit_def digit_val_def)
  have li: "leading_int 0 (CHR ''1'' # CHR ''-'' # c # w) = Some (1, CHR ''-'' # c # w)" using d by simp
  have tw: "takeWhile is_unit_char (CHR ''-'' # c # w) = ''-''" using assms d(2) by (simp add: is_unit_char_def)
  have "dur_component (CHR ''1'' # CHR ''-'' # c # w) = Inl DurUnknownUnit"
    unfolding dur_component_def li using d(1) tw by (simp add: dur_fraction_def Let_def unit_map_def del: takeWhile.simps)
  then show ?thesis by (simp add: parse_duration_def dur_loop.simps)
qed

text \<open>C27 (a printed rate flag reads back).  For every burst of the range of \<open>int\<close> and every interval that is
  a duration, setting the text a flag prints stores the same burst and interval when the interval is
  positive.  The zero interval of a flag that was never set is rejected, and so is a negative one, for
  a unit that is missing in the text with the inserted digit.  The flags of both packages agree.\<close>

theorem rate_flag_roundtrip:
  assumes "min_int64 \<le> Burst f" "Burst f \<le> max_int64" "min_int64 \<le> Interval f" "Interval f \<le> max_int64"
  shows "RateFlag_Set g (RateFlag_String f) =
       (if 0 < Interval f then Inr (g\<lparr>Burst := Burst f, Interval := Interval f\<rparr>)
        else if Interval f = 0 then Inl (RateNonPositive ''0s'')
        else Inl (RateInterval (CHR ''1'' # dur_String (Interval f)) DurUnknownUnit))
     \<and> Gen_RateFlag_Set g (Gen_RateFlag_String f) = RateFlag_Set g (RateFlag_String f)"
proof
  obtain c w where cw: "dur_String (Interval f) = (if Interval f < 0 then CHR ''-'' # c # w else c # w)" "is_digit c"
    by (rule dur_String_abs)
  have cut: "cut1 CHR ''/'' (RateFlag_String f) = (itoa (Burst f), dur_String (Interval f), True)"
    using itoa_no_slash by (simp add: RateFlag_String_def)
  have set: "RateFlag_Set g (RateFlag_String f) =
      res_bind (map_err (RateInterval (add_one (dur_String (Interval f)))) (parse_duration (add_one (dur_String (Interval f))))) (\<lambda>interval.
        if interval \<le> 0 then Inl (RateNonPositive (add_one (dur_String (Interval f))))
        else Inr (g\<lparr>Burst := Burst f, Interval := interval\<rparr>))"
  proof -
    have "dur_String (Interval f) \<noteq> []" using cw(1) by simp
    then show ?thesis using atoi_itoa[OF assms(1,2)] by (simp add: RateFlag_Set_def cut Let_def)
  qed
  show "RateFlag_Set g (RateFlag_String f) =
       (if 0 < Interval f then Inr (g\<lparr>Burst := Burst f, Interval := Interval f\<rparr>)
        else if Interval f = 0 then Inl (RateNonPositive ''0s'')
        else Inl (RateInterval (CHR ''1'' # dur_String (Interval f)) DurUnknownUnit))"
  proof (cases "Interval f < 0")
    case True
    then have "add_one (dur_String (Interval f)) = CHR ''1'' # CHR ''-'' # c # w"
      using cw(1) by (simp add: add_one_unit is_digit_def)
    then show ?thesis using True cw minus_after_one by (simp add: set)
  next
    case False
    then have "add_one (dur_String (Interval f)) = dur_String (Interval f)" using cw by (simp add: add_one_digit)
    moreover have "dur_String 0 = ''0s''" by (simp add: dur_String_def abs_string_def)
    ultimately show ?thesis using False duration_roundtrip[OF assms(3,4)] by (auto simp: set)
  qed
  show "Gen_RateFlag_Set g (Gen_RateFlag_String f) = RateFlag_Set g (RateFlag_String f)"
    using event_rate_parsers_agree[of g "RateFlag_String f"] by (simp add: RateFlag_String_def Gen_RateFlag_String_def)
qed

theorem rate_flag_roundtrip_witness:
  "RateFlag_Set \<lparr>Burst = 0, Interval = 0\<rparr> (RateFlag_String \<lparr>Burst = 300, Interval = 3661500000000\<rparr>)
     = Inr \<lparr>Burst = 300, Interval = 3661500000000\<rparr>"
  using rate_flag_roundtrip[of "\<lparr>Burst = 300, Interval = 3661500000000\<rparr>" "\<lparr>Burst = 0, Interval = 0\<rparr>"]
  by (simp add: min_int64_def max_int64_def)

end
