(* ===== verification/AggConfig.thy ===== *)
theory AggConfig
  imports Float64
begin

section \<open>Aggregation configurations (cmd/otelinmemexporter/store.go, config.go)\<close>

text \<open>
  A configuration names a metric, the label values to match, an aggregation type and a unique key.
  \<open>AggregationType\<close> is a string type in the code, so any string can occur before validation.
  \<open>validateAndGroup\<close> checks a list of configurations and groups it by key and by metric name;
  the lemmas characterise when it succeeds (\<open>cfgs_ok\<close>) and what it returns.
\<close>

type_synonym agg_type = string

definition Agg_Last :: agg_type where "Agg_Last = ''last''"
definition Agg_Rate :: agg_type where "Agg_Rate = ''rate''"
definition Agg_Max :: agg_type where "Agg_Max = ''max''"
definition Agg_Sum :: agg_type where "Agg_Sum = ''sum''"
definition Agg_Percentile :: agg_type where "Agg_Percentile = ''percentile''"

lemmas agg_type_defs = Agg_Last_def Agg_Rate_def Agg_Max_def Agg_Sum_def Agg_Percentile_def

lemma agg_types_distinct [simp]:
  "Agg_Last \<noteq> Agg_Rate" "Agg_Last \<noteq> Agg_Max" "Agg_Last \<noteq> Agg_Sum" "Agg_Last \<noteq> Agg_Percentile"
  "Agg_Rate \<noteq> Agg_Last" "Agg_Rate \<noteq> Agg_Max" "Agg_Rate \<noteq> Agg_Sum" "Agg_Rate \<noteq> Agg_Percentile"
  "Agg_Max \<noteq> Agg_Last" "Agg_Max \<noteq> Agg_Rate" "Agg_Max \<noteq> Agg_Sum" "Agg_Max \<noteq> Agg_Percentile"
  "Agg_Sum \<noteq> Agg_Last" "Agg_Sum \<noteq> Agg_Rate" "Agg_Sum \<noteq> Agg_Max" "Agg_Sum \<noteq> Agg_Percentile"
  "Agg_Percentile \<noteq> Agg_Last" "Agg_Percentile \<noteq> Agg_Rate" "Agg_Percentile \<noteq> Agg_Max"
  "Agg_Percentile \<noteq> Agg_Sum"
  by (simp_all add: agg_type_defs)

definition IsValid :: "agg_type \<Rightarrow> bool" where
  "IsValid agg \<longleftrightarrow> agg = Agg_Last \<or> agg = Agg_Rate \<or> agg = Agg_Max \<or> agg = Agg_Sum \<or> agg = Agg_Percentile"

record agg_config =
  Key :: string
  Name :: string
  MatchLabelValues :: go_map
  Type :: agg_type
  Percentile :: f64
  GroupBy :: string

datatype agg_error =
    ErrNoName
  | ErrNoKey
  | ErrInvalidType string agg_type
  | ErrInvalidPercentile string f64
  | ErrDuplicateKey string
  | ErrDifferentTypes string
  | ErrDuplicateConfig string

definition validate :: "agg_config \<Rightarrow> agg_error option" where
  "validate cfg =
     (if Name cfg = [] then Some ErrNoName
      else if Key cfg = [] then Some ErrNoKey
      else if \<not> IsValid (Type cfg) then Some (ErrInvalidType (Key cfg) (Type cfg))
      else if Type cfg = Agg_Percentile \<and>
              (f_le (Percentile cfg) (Fin 0) \<or> f_lt (Fin 100) (Percentile cfg))
        then Some (ErrInvalidPercentile (Key cfg) (Percentile cfg))
      else None)"

definition checkDuplicateAggConfigForName :: "agg_config \<Rightarrow> agg_config \<Rightarrow> agg_error option" where
  "checkDuplicateAggConfigForName src target =
     (if Name src \<noteq> Name target then None
      else if length (MatchLabelValues src) \<noteq> length (MatchLabelValues target) then None
      else if \<not> list_all (\<lambda>(k, v). map_of (MatchLabelValues target) k = Some v) (MatchLabelValues src)
        then None
      else if Type src \<noteq> Type target then Some (ErrDifferentTypes (Name src))
      else if Type src = Agg_Percentile \<and> Type target = Agg_Percentile \<and>
              \<not> f_eq (Percentile src) (Percentile target)
        then None
      else Some (ErrDuplicateConfig (Name src)))"

type_synonym key_to_agg = "string \<rightharpoonup> agg_config"
type_synonym name_to_aggs = "string \<rightharpoonup> agg_config list"

text \<open>The inner loop over the configurations already recorded for the name.\<close>

fun check_all :: "agg_config list \<Rightarrow> agg_config \<Rightarrow> agg_error option" where
  "check_all [] src = None"
| "check_all (toCfg # cs) src =
     (case checkDuplicateAggConfigForName toCfg src of Some e \<Rightarrow> Some e | None \<Rightarrow> check_all cs src)"

definition group_step ::
    "agg_config \<Rightarrow> key_to_agg \<times> name_to_aggs \<Rightarrow> agg_error + key_to_agg \<times> name_to_aggs" where
  "group_step srcCfg st =
     (case st of (keyM, nameM) \<Rightarrow>
        case validate srcCfg of
          Some e \<Rightarrow> Inl e
        | None \<Rightarrow>
            if keyM (Key srcCfg) \<noteq> None then Inl (ErrDuplicateKey (Key srcCfg))
            else
              let toCfgs = (case nameM (Name srcCfg) of None \<Rightarrow> [] | Some cs \<Rightarrow> cs) in
              case check_all toCfgs srcCfg of
                Some e \<Rightarrow> Inl e
              | None \<Rightarrow>
                  Inr (keyM(Key srcCfg \<mapsto> srcCfg), nameM(Name srcCfg \<mapsto> toCfgs @ [srcCfg])))"

definition validateAndGroup :: "agg_config list \<Rightarrow> agg_error + key_to_agg \<times> name_to_aggs" where
  "validateAndGroup src = loop_res group_step src (Map.empty, Map.empty)"

text \<open>\<open>Config.Validate\<close> of the exporter.\<close>

record exporter_config =
  Aggregations :: "agg_config list"
  Endpoint :: string

datatype config_error = ErrAggregation agg_error | ErrEmptyEndpoint

definition Config_Validate :: "exporter_config \<Rightarrow> config_error option" where
  "Config_Validate cfg =
     (case validateAndGroup (Aggregations cfg) of
        Inl e \<Rightarrow> Some (ErrAggregation e)
      | Inr _ \<Rightarrow> if Endpoint cfg = [] then Some ErrEmptyEndpoint else None)"

definition createDefaultConfig :: exporter_config where
  "createDefaultConfig = \<lparr>Aggregations = [], Endpoint = '':8081''\<rparr>"

subsection \<open>What validation promises\<close>

text \<open>Two configurations select the same series when name and labels agree; they conflict unless
  they are percentiles that differ.\<close>

definition same_series :: "agg_config \<Rightarrow> agg_config \<Rightarrow> bool" where
  "same_series c d \<longleftrightarrow> Name c = Name d \<and> map_of (MatchLabelValues c) = map_of (MatchLabelValues d)"

definition conflict :: "agg_config \<Rightarrow> agg_config \<Rightarrow> bool" where
  "conflict c d \<longleftrightarrow> same_series c d \<and>
     \<not> (Type c = Agg_Percentile \<and> Type d = Agg_Percentile \<and> \<not> f_eq (Percentile c) (Percentile d))"

definition labels_ok :: "agg_config \<Rightarrow> bool" where
  "labels_ok c = go_map_ok (MatchLabelValues c)"

definition cfgs_ok :: "agg_config list \<Rightarrow> bool" where
  "cfgs_ok cs \<longleftrightarrow> (\<forall>c \<in> set cs. validate c = None) \<and> distinct (map Key cs)
     \<and> sorted_wrt (\<lambda>c d. \<not> conflict c d) cs"

definition by_key :: "agg_config list \<Rightarrow> key_to_agg" where
  "by_key cs = map_of (map (\<lambda>c. (Key c, c)) cs)"

definition by_name :: "agg_config list \<Rightarrow> name_to_aggs" where
  "by_name cs n = (let xs = filter (\<lambda>c. Name c = n) cs in if xs = [] then None else Some xs)"

lemma labels_subset_eq:
  assumes "go_map_ok m" "go_map_ok m'"
  shows "length m = length m' \<and> list_all (\<lambda>(k, v). map_of m' k = Some v) m \<longleftrightarrow> map_of m = map_of m'"
    (is "?L \<longleftrightarrow> ?R")
proof
  assume L: ?L
  have "set m \<subseteq> set m'" using L map_of_SomeD by (fastforce simp: list_all_iff)
  moreover have "card (set m) = card (set m')"
    using L assms by (metis distinct_card distinct_map go_map_ok_def)
  ultimately have "set m = set m'" by (simp add: card_subset_eq)
  then show ?R using map_of_perm assms by blast
next
  assume R: ?R
  have s: "set m = set m'"
    using R assms map_of_eq_Some_iff_ok by (metis subrelI subset_antisym)
  then have "length m = length m'" using go_map_ok_length_eq assms by blast
  then show ?L using R assms by (auto simp: list_all_iff map_of_eq_Some_iff_ok s)
qed

lemma checkDuplicate_None:
  assumes "labels_ok c" "labels_ok d"
  shows "checkDuplicateAggConfigForName c d = None \<longleftrightarrow> \<not> conflict c d"
proof -
  have "length (MatchLabelValues c) = length (MatchLabelValues d) \<and>
        list_all (\<lambda>(k, v). map_of (MatchLabelValues d) k = Some v) (MatchLabelValues c)
        \<longleftrightarrow> map_of (MatchLabelValues c) = map_of (MatchLabelValues d)"
    using labels_subset_eq assms by (simp add: labels_ok_def)
  then show ?thesis
    by (auto simp: checkDuplicateAggConfigForName_def conflict_def same_series_def)
qed

lemma check_all_None: "check_all cs d = None \<longleftrightarrow> (\<forall>c \<in> set cs. checkDuplicateAggConfigForName c d = None)"
  by (induction cs) (auto split: option.splits)

lemma f_eq_commute: "f_eq x y = f_eq y x"
  by (cases x; cases y) auto

lemma conflict_sym: "conflict c d = conflict d c"
  using f_eq_commute by (auto simp: conflict_def same_series_def)

lemma by_key_None: "by_key cs k = None \<longleftrightarrow> k \<notin> Key ` set cs"
  by (force simp: by_key_def map_of_eq_None_iff)

lemma by_key_snoc: "by_key cs (Key c) = None \<Longrightarrow> (by_key cs)(Key c \<mapsto> c) = by_key (cs @ [c])"
  by (auto simp: by_key_def map_of_append fun_eq_iff map_add_def split: option.splits)

lemma by_name_get:
  "(case by_name cs n of None \<Rightarrow> [] | Some xs \<Rightarrow> xs) = filter (\<lambda>c. Name c = n) cs"
  by (simp add: by_name_def Let_def)

lemma by_name_snoc:
  "(by_name cs)(Name c \<mapsto> filter (\<lambda>d. Name d = Name c) cs @ [c]) = by_name (cs @ [c])"
  by (auto simp: by_name_def fun_eq_iff Let_def)

lemma group_step_ok:
  assumes "\<forall>d \<in> set (cs @ [c]). labels_ok d"
  shows "group_step c (by_key cs, by_name cs) =
     (if validate c = None \<and> Key c \<notin> Key ` set cs \<and> (\<forall>d \<in> set cs. \<not> conflict d c)
      then Inr (by_key (cs @ [c]), by_name (cs @ [c]))
      else group_step c (by_key cs, by_name cs))
   \<and> (is_ok (group_step c (by_key cs, by_name cs)) \<longleftrightarrow>
        validate c = None \<and> Key c \<notin> Key ` set cs \<and> (\<forall>d \<in> set cs. \<not> conflict d c))"
proof -
  have "check_all (filter (\<lambda>d. Name d = Name c) cs) c = None \<longleftrightarrow> (\<forall>d \<in> set cs. \<not> conflict d c)"
    using assms checkDuplicate_None by (auto simp: check_all_None conflict_def same_series_def)
  then show ?thesis
    by (auto simp: group_step_def by_name_get Let_def by_key_None by_key_snoc by_name_snoc
        split: option.splits)
qed

lemma cfgs_ok_snoc:
  "cfgs_ok (cs @ [c]) \<longleftrightarrow>
     cfgs_ok cs \<and> validate c = None \<and> Key c \<notin> Key ` set cs \<and> (\<forall>d \<in> set cs. \<not> conflict d c)"
  by (auto simp: cfgs_ok_def sorted_wrt_append)

lemma validateAndGroup_ok_iff:
  assumes "\<forall>c \<in> set cs. labels_ok c"
  shows "is_ok (validateAndGroup cs) = cfgs_ok cs
    \<and> (cfgs_ok cs \<longrightarrow> validateAndGroup cs = Inr (by_key cs, by_name cs))"
  using assms
proof (induction cs rule: rev_induct)
  case Nil
  then show ?case by (simp add: validateAndGroup_def cfgs_ok_def by_key_def by_name_def fun_eq_iff)
next
  case (snoc c cs)
  let ?r = "validateAndGroup cs"
  have app: "validateAndGroup (cs @ [c]) = res_bind ?r (loop_res group_step [c])"
    by (simp add: validateAndGroup_def loop_res_append)
  show ?case
  proof (cases "cfgs_ok cs")
    case True
    then have r: "?r = Inr (by_key cs, by_name cs)" using snoc by simp
    have "validateAndGroup (cs @ [c]) = group_step c (by_key cs, by_name cs)"
      by (cases "group_step c (by_key cs, by_name cs)") (simp_all add: app r)
    then show ?thesis using group_step_ok[of cs c] snoc.prems True by (auto simp: cfgs_ok_snoc)
  next
    case False
    then obtain e where "?r = Inl e" using snoc by (cases ?r) auto
    then show ?thesis using False app by (simp add: cfgs_ok_snoc)
  qed
qed

lemma validateAndGroup_Inr_iff:
  assumes "\<forall>c \<in> set cs. labels_ok c"
  shows "validateAndGroup cs = Inr (k, n) \<longleftrightarrow> cfgs_ok cs \<and> k = by_key cs \<and> n = by_name cs"
  using validateAndGroup_ok_iff[OF assms] by (auto simp: is_ok_iff)

lemma by_key_Some:
  "distinct (map Key cs) \<Longrightarrow> by_key cs k = Some c \<longleftrightarrow> c \<in> set cs \<and> Key c = k"
proof -
  assume "distinct (map Key cs)"
  then have "distinct (map fst (map (\<lambda>c. (Key c, c)) cs))" by (simp add: comp_def)
  from map_of_eq_Some_iff[OF this] show ?thesis by (auto simp: by_key_def)
qed

subsection \<open>Properties\<close>

text \<open>C12 (validation is exact).  For configurations whose label values are Go maps, grouping succeeds
  exactly when every configuration is valid on its own, the keys are distinct and no two select the
  same series with types that cannot coexist; it then returns the configurations indexed by key and,
  per metric name, listed in their order.\<close>

theorem validate_and_group_exact:
  assumes "\<forall>c \<in> set cs. labels_ok c"
  shows "validateAndGroup cs = Inr (keyM, nameM) \<longleftrightarrow>
     (\<forall>c \<in> set cs. validate c = None) \<and> distinct (map Key cs)
     \<and> sorted_wrt (\<lambda>c d. \<not> conflict c d) cs
     \<and> keyM = by_key cs \<and> nameM = by_name cs"
  using validateAndGroup_Inr_iff[OF assms] by (auto simp: cfgs_ok_def)

definition ex_cfg :: "string \<Rightarrow> agg_type \<Rightarrow> f64 \<Rightarrow> agg_config" where
  "ex_cfg k t p = \<lparr>Key = k, Name = ''latency'', MatchLabelValues = [(''svc'', ''api'')],
                   Type = t, Percentile = p, GroupBy = []\<rparr>"

lemma ex_cfg_labels_ok [simp]: "labels_ok (ex_cfg k t p)"
  by (simp add: ex_cfg_def labels_ok_def go_map_ok_def)

theorem validate_and_group_exact_witness:
  "validateAndGroup [ex_cfg ''p50'' Agg_Percentile (Fin 50), ex_cfg ''p99'' Agg_Percentile (Fin 99)]
     = Inr (by_key [ex_cfg ''p50'' Agg_Percentile (Fin 50), ex_cfg ''p99'' Agg_Percentile (Fin 99)],
            by_name [ex_cfg ''p50'' Agg_Percentile (Fin 50), ex_cfg ''p99'' Agg_Percentile (Fin 99)])"
  by (subst validate_and_group_exact)
     (simp_all add: ex_cfg_def validate_def IsValid_def agg_type_defs conflict_def f_le_def
        labels_ok_def go_map_ok_def)

text \<open>Which configurations clash.  Validation of a pair of valid configurations with different
  keys for the same series fails, whatever the order of the two, unless both are percentiles and
  these differ; the error says whether the types differ or the configuration is a duplicate.\<close>

lemma duplicate_configs_rejected:
  assumes "labels_ok c" "labels_ok d" "validate c = None" "validate d = None"
    and "Key c \<noteq> Key d" "same_series c d"
    and "\<not> (Type c = Agg_Percentile \<and> Type d = Agg_Percentile \<and> \<not> f_eq (Percentile c) (Percentile d))"
  shows "validateAndGroup [c, d] =
           Inl (if Type c \<noteq> Type d then ErrDifferentTypes (Name c) else ErrDuplicateConfig (Name c))"
proof -
  have lab: "length (MatchLabelValues c) = length (MatchLabelValues d)"
    "list_all (\<lambda>(k, v). map_of (MatchLabelValues d) k = Some v) (MatchLabelValues c)"
    using assms(1,2,6) labels_subset_eq by (auto simp: labels_ok_def same_series_def)
  have dup: "checkDuplicateAggConfigForName c d =
      Some (if Type c \<noteq> Type d then ErrDifferentTypes (Name c) else ErrDuplicateConfig (Name c))"
    using assms(6,7) lab by (auto simp: checkDuplicateAggConfigForName_def same_series_def)
  show ?thesis using assms(3-6) dup
    by (simp add: validateAndGroup_def group_step_def same_series_def)
qed

lemma duplicate_configs_rejected_witness:
  "validateAndGroup [ex_cfg ''a'' Agg_Last (Fin 0), ex_cfg ''b'' Agg_Sum (Fin 0)]
     = Inl (ErrDifferentTypes ''latency'')"
  using duplicate_configs_rejected[of "ex_cfg ''a'' Agg_Last (Fin 0)" "ex_cfg ''b'' Agg_Sum (Fin 0)"]
  by (simp add: ex_cfg_def validate_def IsValid_def same_series_def labels_ok_def go_map_ok_def)

text \<open>The percentile check.  A configuration that passes validation has a non-empty name and key
  and a known type, and a percentile configuration has a percentile in the half-open range from 0
  to 100 or NaN: the two comparisons are both false for NaN, which the documented range excludes.\<close>

lemma validate_passes_iff:
  "validate cfg = None \<longleftrightarrow>
     Name cfg \<noteq> [] \<and> Key cfg \<noteq> [] \<and> IsValid (Type cfg) \<and>
     (Type cfg = Agg_Percentile \<longrightarrow>
        Percentile cfg = F_NaN \<or> (\<exists>p. Percentile cfg = Fin p \<and> 0 < p \<and> p \<le> 100))"
  by (cases "Percentile cfg") (auto simp: validate_def f_le_def)

lemma validate_passes_iff_witness:
  "validate (ex_cfg ''k'' Agg_Percentile F_NaN) = None \<and> validate (ex_cfg ''k'' Agg_Percentile (Fin 101)) \<noteq> None"
  using validate_passes_iff[of "ex_cfg ''k'' Agg_Percentile F_NaN"]
    validate_passes_iff[of "ex_cfg ''k'' Agg_Percentile (Fin 101)"]
  by (simp add: ex_cfg_def IsValid_def)

end
