(* ===== verification/Histogram.thy ===== *)
theory Histogram
  imports Float64 "HOL-Library.Multiset"
begin

section \<open>Histogram data points (cmd/otelinmemexporter/histogram.go)\<close>

text \<open>
  A histogram data point holds its bucket counts and the explicit bounds between them, with
  \<open>uint64\<close> counters (\<open>64 word\<close>, wrapping) and \<open>float64\<close> values.  The record lists what the
  accessors of the collector's data point return; optional fields are options whose getter gives
  zero when unset.  Slice accesses that can be out of range are written with \<open>slice_at\<close>, so a
  panic is a value of the model.  Modelled: extracting buckets, the quantile, and merging.
\<close>

record explicit_bucket =
  UpperBound :: f64
  Count :: u64

record hist_dp =
  h_count :: u64
  h_sum :: "f64 option"
  h_min :: "f64 option"
  h_max :: "f64 option"
  h_buckets :: "u64 list"
  h_bounds :: "f64 list"
  h_exemplars :: "string list"
  h_start :: u64
  h_time :: u64

definition NewHistogramDataPoint :: hist_dp where
  "NewHistogramDataPoint = \<lparr>h_count = 0, h_sum = None, h_min = None, h_max = None, h_buckets = [],
     h_bounds = [], h_exemplars = [], h_start = 0, h_time = 0\<rparr>"

definition opt_f64 :: "f64 option \<Rightarrow> f64" where
  "opt_f64 x = (case x of None \<Rightarrow> Fin 0 | Some v \<Rightarrow> v)"

subsection \<open>explicitBucketsFromHistogramDataPoint\<close>

fun buckets_loop :: "u64 list \<Rightarrow> int \<Rightarrow> f64 list \<Rightarrow> panic + explicit_bucket list" where
  "buckets_loop counts i [] = Inr []"
| "buckets_loop counts i (ub # bounds) =
     res_bind (slice_at counts i) (\<lambda>c.
     res_bind (buckets_loop counts (i + 1) bounds) (\<lambda>bs.
     Inr (\<lparr>UpperBound = ub, Count = c\<rparr> # bs)))"

definition explicitBucketsFromHistogramDataPoint :: "hist_dp \<Rightarrow> panic + explicit_bucket list" where
  "explicitBucketsFromHistogramDataPoint dp =
     res_bind (buckets_loop (h_buckets dp) 0 (h_bounds dp)) (\<lambda>bs.
     res_bind (slice_at (h_buckets dp) (int (length (h_buckets dp)) - 1)) (\<lambda>c.
     Inr (bs @ [\<lparr>UpperBound = F_PosInf, Count = c\<rparr>])))"

subsection \<open>deltaExplicitBucketsQuantile\<close>

definition observations :: "explicit_bucket list \<Rightarrow> u64" where
  "observations buckets = foldl (\<lambda>n b. n + Count b) 0 buckets"

text \<open>\<open>slices.IndexFunc\<close> with its closure over \<open>countSoFar\<close>: the index found (-1 when none) and the
  counter's value when the search stops.\<close>

fun bucket_index :: "f64 \<Rightarrow> int \<Rightarrow> u64 \<Rightarrow> explicit_bucket list \<Rightarrow> int \<times> u64" where
  "bucket_index rank i countSoFar [] = (- 1, countSoFar)"
| "bucket_index rank i countSoFar (b # bs) =
     (let c = countSoFar + Count b
      in if f_le rank (f_of_u64 c) then (i, c) else bucket_index rank (i + 1) c bs)"

definition interpolate :: "f64 \<Rightarrow> f64 \<Rightarrow> f64 \<Rightarrow> f64" where
  "interpolate bucketStart bucketEnd bucketQuantile =
     f_add bucketStart (f_mul (f_sub bucketEnd bucketStart) bucketQuantile)"

definition bucket_quantile :: "f64 \<Rightarrow> u64 \<Rightarrow> u64 \<Rightarrow> f64" where
  "bucket_quantile rank countSoFar bucketCount =
     f_div (f_sub rank (f_of_u64 (countSoFar - bucketCount))) (f_of_u64 bucketCount)"

definition sort_buckets :: "explicit_bucket list \<Rightarrow> explicit_bucket list" where
  "sort_buckets bs = sort_key UpperBound bs"

definition quantile_sorted :: "f64 \<Rightarrow> explicit_bucket list \<Rightarrow> panic + f64" where
  "quantile_sorted q buckets =
     (if length buckets < 2 then Inr F_NaN
      else if UpperBound (last buckets) \<noteq> F_PosInf then Inr F_NaN
      else if observations buckets = 0 then Inr F_NaN
      else
        let rank = f_mul q (f_of_u64 (observations buckets));
            (bucketIdx, countSoFar) = bucket_index rank 0 0 buckets;
            n = int (length buckets)
        in if bucketIdx = n - 1 then res_bind (slice_at buckets (n - 2)) (\<lambda>b. Inr (UpperBound b))
           else if bucketIdx = 0 then res_bind (slice_at buckets 0) (\<lambda>b. Inr (UpperBound b))
           else
             res_bind (slice_at buckets (bucketIdx - 1)) (\<lambda>prev.
             res_bind (slice_at buckets bucketIdx) (\<lambda>b.
             Inr (interpolate (UpperBound prev) (UpperBound b)
                    (bucket_quantile rank countSoFar (Count b))))))"

definition deltaExplicitBucketsQuantile :: "f64 \<Rightarrow> explicit_bucket list \<Rightarrow> panic + f64" where
  "deltaExplicitBucketsQuantile q buckets =
     (if q = F_NaN then Inr F_NaN
      else if f_lt q (Fin 0) then Inr F_NegInf
      else if f_lt (Fin 1) q then Inr F_PosInf
      else quantile_sorted q (sort_buckets buckets))"

subsection \<open>addHistogramDataPoint\<close>

fun slice_equal :: "f64 list \<Rightarrow> f64 list \<Rightarrow> bool" where
  "slice_equal [] [] = True"
| "slice_equal (a # as) (b # bs) = (f_eq a b \<and> slice_equal as bs)"
| "slice_equal _ _ = False"

definition float64SliceEqual :: "f64 list \<Rightarrow> f64 list \<Rightarrow> bool" where
  "float64SliceEqual a b = (length a = length b \<and> slice_equal a b)"

text \<open>The bucket loop writes \<open>to[b] := to[b] + from[b]\<close> for every index of \<open>from\<close>.\<close>

fun add_buckets :: "u64 list \<Rightarrow> int \<Rightarrow> u64 list \<Rightarrow> panic + u64 list" where
  "add_buckets to b [] = Inr to"
| "add_buckets to b (c # from) =
     res_bind (slice_at to b) (\<lambda>x.
     res_bind (slice_set to b (x + c)) (\<lambda>to'. add_buckets to' (b + 1) from))"

text \<open>The four conditional overwrites of the merge, in the code's order.\<close>

definition overwrite_min :: "hist_dp \<Rightarrow> hist_dp \<Rightarrow> hist_dp" where
  "overwrite_min from to =
     (if h_min to \<noteq> None \<and> f_lt (opt_f64 (h_min from)) (opt_f64 (h_min to))
      then to\<lparr>h_min := Some (opt_f64 (h_min from))\<rparr> else to)"

definition overwrite_max :: "hist_dp \<Rightarrow> hist_dp \<Rightarrow> hist_dp" where
  "overwrite_max from to =
     (if h_max to \<noteq> None \<and> f_lt (opt_f64 (h_max to)) (opt_f64 (h_max from))
      then to\<lparr>h_max := Some (opt_f64 (h_max from))\<rparr> else to)"

definition overwrite_start :: "hist_dp \<Rightarrow> hist_dp \<Rightarrow> hist_dp" where
  "overwrite_start from to =
     (if h_start from < h_start to then to\<lparr>h_start := h_start from\<rparr> else to)"

definition overwrite_time :: "hist_dp \<Rightarrow> hist_dp \<Rightarrow> hist_dp" where
  "overwrite_time from to =
     (if h_time from > h_time to then to\<lparr>h_time := h_time from\<rparr> else to)"

text \<open>
  The result is the pair of both data points after the call: \<open>CopyTo\<close> copies and leaves its
  source alone, \<open>MoveAndAppendTo\<close> moves the exemplars out of \<open>from\<close>.
\<close>

definition addHistogramDataPoint :: "hist_dp \<Rightarrow> hist_dp \<Rightarrow> panic + hist_dp \<times> hist_dp" where
  "addHistogramDataPoint from to =
     (if h_count from = 0 then Inr (from, to)
      else if h_count to = 0 then Inr (from, from)
      else if \<not> float64SliceEqual (h_bounds from) (h_bounds to) then Inr (from, from)
      else
        let to1 = to\<lparr>h_count := h_count to + h_count from,
                     h_sum := Some (f_add (opt_f64 (h_sum to)) (opt_f64 (h_sum from)))\<rparr>;
            to3 = overwrite_max from (overwrite_min from to1)
        in res_bind (add_buckets (h_buckets to3) 0 (h_buckets from)) (\<lambda>bs.
           let to4 = to3\<lparr>h_buckets := bs, h_exemplars := h_exemplars to3 @ h_exemplars from\<rparr>;
               from4 = from\<lparr>h_exemplars := []\<rparr>
           in Inr (from4, overwrite_time from4 (overwrite_start from4 to4))))"

subsection \<open>Sorting and searching the buckets\<close>

lemma sort_buckets_facts [simp]:
  "length (sort_buckets bs) = length bs" "set (sort_buckets bs) = set bs"
  "mset (sort_buckets bs) = mset bs" "sorted (map UpperBound (sort_buckets bs))"
  by (simp_all add: sort_buckets_def)

lemma foldl_count: "foldl (\<lambda>n b. n + Count b) (c::u64) bs = c + observations bs"
proof (induction bs arbitrary: c)
  case (Cons b bs)
  show ?case using Cons[of "c + Count b"] Cons[of "Count b"]
    by (simp add: observations_def)
qed (simp add: observations_def)

lemma observations_simps [simp]:
  "observations [] = 0" "observations (b # bs) = Count b + observations bs"
  "observations (as @ bs) = observations as + observations bs"
  using foldl_count[of "Count b" bs] foldl_count[of "observations as" bs]
  by (simp_all add: observations_def)

lemma observations_sort [simp]: "observations (sort_buckets bs) = observations bs"
proof -
  have "observations xs = sum_mset (image_mset Count (mset xs))" for xs
    by (induction xs) auto
  then show ?thesis by simp
qed

lemma bucket_index_found:
  fixes c :: u64 and i :: int
  assumes "f_le rank (f_of_u64 (c + observations bs))" "bs \<noteq> []"
  obtains k where "k < length bs"
    "bucket_index rank i c bs = (i + int k, c + observations (take (Suc k) bs))"
    "f_le rank (f_of_u64 (c + observations (take (Suc k) bs)))"
    "\<And>m. m < k \<Longrightarrow> \<not> f_le rank (f_of_u64 (c + observations (take (Suc m) bs)))"
  using assms
proof (induction bs arbitrary: i c thesis)
  case (Cons b bs)
  show ?case
  proof (cases "f_le rank (f_of_u64 (c + Count b))")
    case True
    then show ?thesis by (intro Cons.prems(1)[of 0]) (auto simp: Let_def)
  next
    case False
    have "bs \<noteq> []" using False Cons.prems(2) by (auto simp: add.assoc)
    then obtain k where k: "k < length bs"
      "bucket_index rank (i + 1) (c + Count b) bs
         = (i + 1 + int k, c + Count b + observations (take (Suc k) bs))"
      "f_le rank (f_of_u64 (c + Count b + observations (take (Suc k) bs)))"
      "\<And>m. m < k \<Longrightarrow> \<not> f_le rank (f_of_u64 (c + Count b + observations (take (Suc m) bs)))"
      using Cons.IH[where c = "c + Count b" and i = "i + 1"] Cons.prems(2) by (auto simp: add.assoc)
    show ?thesis
    proof (rule Cons.prems(1)[of "Suc k"])
      fix m assume "m < Suc k"
      then show "\<not> f_le rank (f_of_u64 (c + observations (take (Suc m) (b # bs))))"
        using k(4) False by (cases m) (auto simp: add.assoc)
    qed (use k False in \<open>auto simp: Let_def add.assoc\<close>)
  qed
qed simp

text \<open>The rank never exceeds the total, so the search finds a bucket.\<close>

lemma rank_le_total:
  assumes "0 \<le> qr" "qr \<le> 1"
  obtains x where "f_mul (Fin qr) (f_of_u64 w) = Fin x" "0 \<le> x" "f_le (Fin x) (f_of_u64 w)"
proof -
  obtain v where v: "f_of_u64 w = Fin v" "0 \<le> v" "f64_rep v" by (rule f_of_u64_fin)
  have "0 \<le> qr * v" "qr * v \<le> v" using assms v(2) by (simp_all add: mult_left_le_one_le)
  then obtain x where "f64_round (qr * v) = Fin x" "0 \<le> x" "x \<le> v"
    using f64_round_between[OF f64_rep_0 v(3)] by blast
  then show ?thesis using v that by (simp add: f_le_def order.order_iff_strict)
qed

lemma unit_quantile:
  assumes "q \<noteq> F_NaN" "\<not> f_lt q (Fin 0)" "\<not> f_lt (Fin 1) q"
  obtains qr where "q = Fin qr" "0 \<le> qr" "qr \<le> 1"
  using assms by (cases q) auto

lemma slice_at_last2: "2 \<le> length xs \<Longrightarrow> slice_at xs (int (length xs) - 2) = Inr (xs ! (length xs - 2))"
  by (simp add: slice_at_def nat_diff_distrib)

lemma quantile_sorted_cases:
  assumes q: "0 \<le> qr" "qr \<le> 1" and len: "2 \<le> length s"
    and last: "UpperBound (last s) = F_PosInf" and obs: "observations s \<noteq> 0"
  obtains k x where "k < length s" "f_mul (Fin qr) (f_of_u64 (observations s)) = Fin x"
    "f_le (Fin x) (f_of_u64 (observations (take (Suc k) s)))"
    "\<And>m. m < k \<Longrightarrow> \<not> f_le (Fin x) (f_of_u64 (observations (take (Suc m) s)))"
    "quantile_sorted (Fin qr) s = Inr
       (if k = length s - 1 then UpperBound (s ! (length s - 2))
        else if k = 0 then UpperBound (s ! 0)
        else interpolate (UpperBound (s ! (k - 1))) (UpperBound (s ! k))
               (bucket_quantile (Fin x) (observations (take (Suc k) s)) (Count (s ! k))))"
proof -
  obtain x where x: "f_mul (Fin qr) (f_of_u64 (observations s)) = Fin x"
    "f_le (Fin x) (f_of_u64 (0 + observations s))"
    using rank_le_total[OF q] by auto
  have "s \<noteq> []" using len by auto
  from bucket_index_found[OF x(2) this, of 0] obtain k where k: "k < length s"
    "bucket_index (Fin x) 0 0 s = (int k, observations (take (Suc k) s))"
    "f_le (Fin x) (f_of_u64 (observations (take (Suc k) s)))"
    "\<And>m. m < k \<Longrightarrow> \<not> f_le (Fin x) (f_of_u64 (observations (take (Suc m) s)))"
    by auto
  have km: "slice_at s (int k - 1) = Inr (s ! (k - 1))" if "k \<noteq> 0"
    using that k(1) by (simp add: slice_at_def nat_diff_distrib)
  have kl: "int k = int (length s) - 1 \<longleftrightarrow> k = length s - 1" using len by auto
  have "quantile_sorted (Fin qr) s = Inr
       (if k = length s - 1 then UpperBound (s ! (length s - 2))
        else if k = 0 then UpperBound (s ! 0)
        else interpolate (UpperBound (s ! (k - 1))) (UpperBound (s ! k))
               (bucket_quantile (Fin x) (observations (take (Suc k) s)) (Count (s ! k))))"
  proof (cases "k = length s - 1 \<or> k = 0")
    case True
    then show ?thesis using len last obs k(1,2) x(1) slice_at_last2[OF len] kl slice_at_nat[of s 0]
      by (auto simp: quantile_sorted_def Let_def)
  next
    case False
    then show ?thesis using len last obs k(1,2) x(1) kl km
      by (auto simp: quantile_sorted_def Let_def)
  qed
  then show ?thesis using that k x(1) by blast
qed

subsection \<open>Interpolation stays inside its bucket\<close>

lemma f_sub_Fin [simp]: "f_sub (Fin x) (Fin y) = f64_round (x - y)"
  by (simp add: f_sub_def)

lemma bucket_quantile_unit:
  assumes prev: "uint (c - n) < 2 ^ 53" "of_int (uint (c - n)) < x"
    and cnt: "0 < uint n" "uint n < 2 ^ 53" "x \<le> of_int (uint (c - n)) + of_int (uint n)"
  obtains z where "bucket_quantile (Fin x) c n = Fin z" "0 \<le> z" "z \<le> 1"
proof -
  let ?p = "of_int (uint (c - n)) :: rat" and ?n = "of_int (uint n) :: rat"
  have "f64_rep ?n" using cnt by (intro f64_rep_of_int) simp
  moreover have "0 \<le> x - ?p" "x - ?p \<le> ?n" using prev(2) cnt(3) by linarith+
  ultimately obtain y where y: "f64_round (x - ?p) = Fin y" "0 \<le> y" "y \<le> ?n"
    using f64_round_between[OF f64_rep_0] by blast
  have np: "0 < ?n" using cnt(1) by (simp only: of_int_0_less_iff)
  then have "0 \<le> y / ?n" "y / ?n \<le> 1" using y by (simp_all add: divide_le_eq)
  then obtain z where z: "f64_round (y / ?n) = Fin z" "0 \<le> z" "z \<le> 1"
    using f64_round_between[OF f64_rep_0 f64_rep_1] by blast
  have "f_of_u64 (c - n) = Fin ?p" "f_of_u64 n = Fin ?n"
    using prev(1) cnt(2) by (simp_all only: f_of_u64_exact)
  then have "bucket_quantile (Fin x) c n = Fin z"
    using y(1) z(1) np by (simp add: bucket_quantile_def del: of_int_uint)
  then show ?thesis using that z by blast
qed

lemma interpolate_bounds:
  assumes rep: "f64_rep lo" "f64_rep hi" and lh: "lo \<le> hi" and z: "0 \<le> z" "z \<le> 1"
  shows "f64_round (hi - lo) \<noteq> F_PosInf \<Longrightarrow> Fin lo \<le> interpolate (Fin lo) (Fin hi) (Fin z)"
    and "f64_rep (hi - lo) \<Longrightarrow> interpolate (Fin lo) (Fin hi) (Fin z) \<le> Fin hi"
proof -
  have step: "\<exists>t. interpolate (Fin lo) (Fin hi) (Fin z) = f64_round (lo + t) \<and> 0 \<le> t \<and> t \<le> w"
    if w: "f64_round (hi - lo) = Fin w" for w
  proof -
    have w0: "0 \<le> w" using f64_round_mono[of 0 "hi - lo"] w lh by simp
    have "0 \<le> w * z" "w * z \<le> w" using w0 z by (simp_all add: mult_left_le)
    then obtain t where "f64_round (w * z) = Fin t" "0 \<le> t" "t \<le> w"
      using f64_round_between[OF f64_rep_0 f64_round_is_rep[OF w]] by blast
    then show ?thesis using w by (auto simp: interpolate_def)
  qed
  show "Fin lo \<le> interpolate (Fin lo) (Fin hi) (Fin z)" if fin: "f64_round (hi - lo) \<noteq> F_PosInf"
  proof -
    have "Fin 0 \<le> f64_round (hi - lo)" using f64_round_mono[of 0 "hi - lo"] lh by simp
    then obtain w where "f64_round (hi - lo) = Fin w"
      using fin by (cases "f64_round (hi - lo)") auto
    from step[OF this] obtain t where t: "interpolate (Fin lo) (Fin hi) (Fin z) = f64_round (lo + t)" "0 \<le> t"
      by blast
    show ?thesis using f64_round_mono[of lo "lo + t"] t f64_round_rep[OF rep(1)] by simp
  qed
  show "interpolate (Fin lo) (Fin hi) (Fin z) \<le> Fin hi" if "f64_rep (hi - lo)"
  proof -
    from step[OF f64_round_rep[OF that]] obtain t where
      t: "interpolate (Fin lo) (Fin hi) (Fin z) = f64_round (lo + t)" "t \<le> hi - lo" by blast
    show ?thesis using f64_round_mono[of "lo + t" hi] t f64_round_rep[OF rep(2)] by simp
  qed
qed

subsection \<open>Counts that do not wrap\<close>

definition obs_total :: "explicit_bucket list \<Rightarrow> int" where
  "obs_total bs = (\<Sum>b\<leftarrow>bs. uint (Count b))"

lemma obs_total_simps [simp]:
  "obs_total [] = 0" "obs_total (b # bs) = uint (Count b) + obs_total bs" "obs_total (as @ bs) = obs_total as + obs_total bs"
  by (simp_all add: obs_total_def)

lemma obs_total_nonneg [simp]: "0 \<le> obs_total bs"
  by (induction bs) auto

lemma obs_total_take_le: "obs_total (take k bs) \<le> obs_total bs"
proof -
  have "obs_total bs = obs_total (take k bs) + obs_total (drop k bs)"
    by (metis append_take_drop_id obs_total_simps(3))
  then show ?thesis by simp
qed

lemma uint_observations: "obs_total bs < 2 ^ 64 \<Longrightarrow> uint (observations bs) = obs_total bs"
proof (induction bs)
  case (Cons b bs)
  have "0 \<le> uint (Count b)" by simp
  then have "obs_total bs < 2 ^ 64" using Cons.prems unfolding obs_total_simps by linarith
  then have "uint (observations bs) = obs_total bs" using Cons.IH by simp
  then show ?case using Cons.prems by (simp add: uint_word_ariths)
qed simp

lemma obs_total_sort [simp]: "obs_total (sort_buckets bs) = obs_total bs"
proof -
  have "obs_total xs = sum_mset (image_mset (\<lambda>b. uint (Count b)) (mset xs))" for xs
    by (induction xs) auto
  then show ?thesis by simp
qed

lemma take_Suc_count: "k < length s \<Longrightarrow> observations (take (Suc k) s) = observations (take k s) + Count (s ! k)"
  by (simp add: take_Suc_conv_app_nth)

lemma take_Suc_total: "k < length s \<Longrightarrow> obs_total (take (Suc k) s) = obs_total (take k s) + uint (Count (s ! k))"
  by (simp add: take_Suc_conv_app_nth)

subsection \<open>Merging bucket counts\<close>

lemma sum_list_upd: "i < length xs \<Longrightarrow> sum_list (xs[i := xs ! i + (c::u64)]) = sum_list xs + c"
  by (induction xs arbitrary: i) (auto split: nat.splits)

lemma add_buckets_ok:
  "b + length from \<le> length to \<Longrightarrow>
     \<exists>r. add_buckets to (int b) from = Inr r \<and> length r = length to
       \<and> sum_list r = sum_list to + sum_list from
       \<and> (\<forall>i < length to. r ! i = to ! i + (if b \<le> i \<and> i < b + length from then from ! (i - b) else 0))"
proof (induction "from" arbitrary: to b)
  case Nil
  then show ?case by auto
next
  case (Cons c "from")
  let ?to = "to[b := to ! b + c]"
  have b: "b < length to" using Cons.prems by simp
  obtain r where r: "add_buckets ?to (int (Suc b)) from = Inr r" "length r = length to"
    "sum_list r = sum_list ?to + sum_list from"
    "\<And>i. i < length to \<Longrightarrow> r ! i = ?to ! i +
       (if Suc b \<le> i \<and> i < Suc b + length from then from ! (i - Suc b) else 0)"
    using Cons.IH[of "Suc b" ?to] Cons.prems by auto
  have "add_buckets to (int b) (c # from) = Inr r" using r(1) b by (simp add: add.commute)
  moreover have "sum_list r = sum_list to + sum_list (c # from)"
    using r(3) sum_list_upd[OF b] by (simp add: add.assoc)
  moreover have "r ! i = to ! i + (if b \<le> i \<and> i < b + length (c # from) then (c # from) ! (i - b) else 0)"
    if "i < length to" for i
    using r(4)[OF that] that b by (cases "i = b") (auto simp: nth_list_update nth_Cons')
  ultimately show ?case using r(2) by blast
qed

lemma add_buckets_panic:
  "b \<le> length to \<Longrightarrow> length to < b + length from \<Longrightarrow> add_buckets to (int b) from = Inl IndexOutOfRange"
proof (induction "from" arbitrary: to b)
  case (Cons c "from")
  then show ?case using Cons.IH[of "Suc b"] by (cases "b < length to") (auto simp: add.commute)
qed simp

lemma slice_equal_length: "slice_equal a b \<Longrightarrow> length a = length b"
  by (induction a b rule: slice_equal.induct) auto

lemma slice_equal_eq: "slice_equal a b \<Longrightarrow> a = b"
  by (induction a b rule: slice_equal.induct) (auto elim: f_eq.elims)

text \<open>The data points the collector produces: one more bucket than bounds, and the count is the sum
  of the buckets (of \<open>uint64\<close> values, so modulo \<open>2 ^ 64\<close>).\<close>

definition hist_wf :: "hist_dp \<Rightarrow> bool" where
  "hist_wf dp \<longleftrightarrow> length (h_buckets dp) = Suc (length (h_bounds dp))
     \<and> sum_list (h_buckets dp) = h_count dp"

definition mergeable :: "hist_dp \<Rightarrow> hist_dp \<Rightarrow> bool" where
  "mergeable from to \<longleftrightarrow> h_count from \<noteq> 0 \<and> h_count to \<noteq> 0 \<and> float64SliceEqual (h_bounds from) (h_bounds to)"

lemma overwrite_simps [simp]:
  "h_count (overwrite_min f t) = h_count t" "h_count (overwrite_max f t) = h_count t"
  "h_sum (overwrite_min f t) = h_sum t" "h_sum (overwrite_max f t) = h_sum t"
  "h_bounds (overwrite_min f t) = h_bounds t" "h_bounds (overwrite_max f t) = h_bounds t"
  "h_buckets (overwrite_min f t) = h_buckets t" "h_buckets (overwrite_max f t) = h_buckets t"
  "h_exemplars (overwrite_min f t) = h_exemplars t" "h_exemplars (overwrite_max f t) = h_exemplars t"
  "h_start (overwrite_min f t) = h_start t" "h_start (overwrite_max f t) = h_start t"
  "h_time (overwrite_min f t) = h_time t" "h_time (overwrite_max f t) = h_time t"
  by (simp_all add: overwrite_min_def overwrite_max_def)

lemma overwrite_time_simps [simp]:
  "h_count (overwrite_start f t) = h_count t" "h_count (overwrite_time f t) = h_count t"
  "h_sum (overwrite_start f t) = h_sum t" "h_sum (overwrite_time f t) = h_sum t"
  "h_bounds (overwrite_start f t) = h_bounds t" "h_bounds (overwrite_time f t) = h_bounds t"
  "h_buckets (overwrite_start f t) = h_buckets t" "h_buckets (overwrite_time f t) = h_buckets t"
  "h_exemplars (overwrite_start f t) = h_exemplars t" "h_exemplars (overwrite_time f t) = h_exemplars t"
  "h_start (overwrite_start f t) = min (h_start t) (h_start f)" "h_start (overwrite_time f t) = h_start t"
  "h_time (overwrite_start f t) = h_time t" "h_time (overwrite_time f t) = max (h_time t) (h_time f)"
  by (auto simp: overwrite_start_def overwrite_time_def min_def max_def)

lemma merge_ok:
  assumes "mergeable from to" "length (h_buckets from) \<le> length (h_buckets to)"
  obtains from' to' where "addHistogramDataPoint from to = Inr (from', to')"
    "from' = from\<lparr>h_exemplars := []\<rparr>"
    "h_count to' = h_count to + h_count from"
    "h_sum to' = Some (f_add (opt_f64 (h_sum to)) (opt_f64 (h_sum from)))"
    "h_bounds to' = h_bounds to" "length (h_buckets to') = length (h_buckets to)"
    "sum_list (h_buckets to') = sum_list (h_buckets to) + sum_list (h_buckets from)"
    "\<And>i. i < length (h_buckets from) \<Longrightarrow> h_buckets to' ! i = h_buckets to ! i + h_buckets from ! i"
    "h_exemplars to' = h_exemplars to @ h_exemplars from"
    "h_start to' = min (h_start to) (h_start from)" "h_time to' = max (h_time to) (h_time from)"
proof -
  obtain r where r: "add_buckets (h_buckets to) 0 (h_buckets from) = Inr r"
    "length r = length (h_buckets to)" "sum_list r = sum_list (h_buckets to) + sum_list (h_buckets from)"
    "\<And>i. i < length (h_buckets from) \<Longrightarrow> r ! i = h_buckets to ! i + h_buckets from ! i"
    using add_buckets_ok[of 0 "h_buckets from" "h_buckets to"] assms(2) by auto
  let ?from = "from\<lparr>h_exemplars := []\<rparr>"
  let ?to3 = "overwrite_max from (overwrite_min from (to\<lparr>h_count := h_count to + h_count from,
                h_sum := Some (f_add (opt_f64 (h_sum to)) (opt_f64 (h_sum from)))\<rparr>))"
  let ?to4 = "?to3\<lparr>h_buckets := r, h_exemplars := h_exemplars to @ h_exemplars from\<rparr>"
  have "addHistogramDataPoint from to =
      Inr (?from, overwrite_time ?from (overwrite_start ?from ?to4))"
    using assms(1) r(1) by (simp add: addHistogramDataPoint_def mergeable_def Let_def)
  from that[OF this refl] show ?thesis using r by simp
qed

subsection \<open>Properties\<close>

text \<open>The quantile never panics.  For every float64 quantile and every list of buckets the function
  returns a value: the bucket search always succeeds (the rank is at most the total, even after
  rounding and even when the \<open>uint64\<close> total wraps), so none of the slice accesses is out of range.\<close>

lemma quantile_total: "\<exists>v. deltaExplicitBucketsQuantile q buckets = Inr v"
proof (cases "q = F_NaN \<or> f_lt q (Fin 0) \<or> f_lt (Fin 1) q")
  case True
  then show ?thesis by (auto simp: deltaExplicitBucketsQuantile_def)
next
  case False
  then obtain qr where q: "q = Fin qr" "0 \<le> qr" "qr \<le> 1" using unit_quantile[of q] by auto
  let ?s = "sort_buckets buckets"
  have "\<exists>v. quantile_sorted q ?s = Inr v"
  proof (cases "length ?s < 2 \<or> UpperBound (last ?s) \<noteq> F_PosInf \<or> observations ?s = 0")
    case True
    then show ?thesis by (auto simp: quantile_sorted_def)
  next
    case False
    then show ?thesis using quantile_sorted_cases[OF q(2,3), of ?s] q(1) by (metis not_less)
  qed
  then show ?thesis using False by (simp add: deltaExplicitBucketsQuantile_def)
qed

text \<open>The special cases of the quantile's documentation.  NaN for a NaN quantile, the infinities
  outside the unit interval, and NaN when there are fewer than two buckets, when no bucket is bounded
  by plus infinity, or when there is no observation; the last three need the quantile in range.\<close>

lemma quantile_special_cases:
  "deltaExplicitBucketsQuantile F_NaN bs = Inr F_NaN
   \<and> (f_lt q (Fin 0) \<longrightarrow> deltaExplicitBucketsQuantile q bs = Inr F_NegInf)
   \<and> (f_lt (Fin 1) q \<longrightarrow> deltaExplicitBucketsQuantile q bs = Inr F_PosInf)
   \<and> (q \<noteq> F_NaN \<and> \<not> f_lt q (Fin 0) \<and> \<not> f_lt (Fin 1) q \<and>
        (length bs < 2 \<or> F_PosInf \<notin> UpperBound ` set bs \<or> observations bs = 0)
      \<longrightarrow> deltaExplicitBucketsQuantile q bs = Inr F_NaN)"
proof -
  have "UpperBound (last (sort_buckets bs)) \<in> UpperBound ` set bs" if "2 \<le> length bs"
  proof -
    have "sort_buckets bs \<noteq> []" using that by (metis length_0_conv not_numeral_le_zero sort_buckets_facts(1))
    then show ?thesis using last_in_set[of "sort_buckets bs"] by simp
  qed
  moreover have "\<not> f_lt q (Fin 0)" if "f_lt (Fin 1) q" using that by (cases q) auto
  moreover have "q \<noteq> F_NaN" if "f_lt q (Fin 0) \<or> f_lt (Fin 1) q" using that by auto
  ultimately show ?thesis
    by (auto simp: deltaExplicitBucketsQuantile_def quantile_sorted_def)
qed

lemma quantile_special_cases_witness:
  "deltaExplicitBucketsQuantile (Fin 2) [] = Inr F_PosInf
   \<and> deltaExplicitBucketsQuantile (Fin 1) [\<lparr>UpperBound = F_PosInf, Count = 3\<rparr>] = Inr F_NaN"
  using quantile_special_cases[of "[]" "Fin 2"]
    quantile_special_cases[of "[\<lparr>UpperBound = F_PosInf, Count = 3\<rparr>]" "Fin 1"] by simp

text \<open>Buckets as a histogram has them: distinct representable bounds, one of them plus infinity.\<close>

definition bounds_ok :: "explicit_bucket list \<Rightarrow> bool" where
  "bounds_ok bs \<longleftrightarrow> 2 \<le> length bs \<and> distinct (map UpperBound bs) \<and> F_PosInf \<in> UpperBound ` set bs
     \<and> list_all (\<lambda>b. case UpperBound b of Fin x \<Rightarrow> f64_rep x | F_PosInf \<Rightarrow> True | _ \<Rightarrow> False) bs"

lemma sort_strict:
  assumes "distinct (map UpperBound bs)"
  shows "sorted_wrt (<) (map UpperBound (sort_buckets bs))"
proof -
  have "distinct (map UpperBound (sort_buckets bs))"
    using assms by (metis distinct_map mset_eq_setD mset_eq_imp_distinct_iff sort_buckets_facts(3) mset_map)
  then show ?thesis by (simp add: strict_sorted_iff)
qed

lemma sorted_last_PosInf:
  assumes "bounds_ok bs" shows "UpperBound (last (sort_buckets bs)) = F_PosInf"
proof -
  let ?s = "sort_buckets bs"
  have ne: "?s \<noteq> []"
    using assms unfolding bounds_ok_def by (metis length_0_conv not_numeral_le_zero sort_buckets_facts(1))
  obtain b where "b \<in> set ?s" "UpperBound b = F_PosInf"
    using assms unfolding bounds_ok_def by auto
  then obtain i where i: "i < length ?s" "UpperBound (?s ! i) = F_PosInf"
    unfolding in_set_conv_nth by blast
  have "map UpperBound ?s ! i \<le> map UpperBound ?s ! (length ?s - 1)"
    using i(1) by (intro sorted_nth_mono) auto
  then have "F_PosInf \<le> UpperBound (last ?s)" using i ne by (simp add: last_conv_nth)
  then show ?thesis by (simp add: order.antisym)
qed

lemma sorted_bounds_Fin:
  assumes "bounds_ok bs" "Suc k < length bs"
  obtains x where "UpperBound (sort_buckets bs ! k) = Fin x" "f64_rep x"
proof -
  let ?s = "sort_buckets bs"
  have "UpperBound (?s ! k) < UpperBound (?s ! (length ?s - 1))"
    using sort_strict assms unfolding bounds_ok_def sorted_wrt_map sorted_wrt_iff_nth_less by simp
  then have "UpperBound (?s ! k) \<noteq> F_PosInf"
    using f64_order_simps(4) leD by metis
  moreover have "?s ! k \<in> set bs" using assms(2) nth_mem[of k ?s] by simp
  ultimately show ?thesis using assms(1) that
    by (cases "UpperBound (?s ! k)") (auto simp: bounds_ok_def list_all_iff)
qed

text \<open>Below \<open>2 ^ 53\<close> observations the cumulative counts are exact, as words and as floats.\<close>

lemma cumulative_exact:
  assumes "obs_total bs < 2 ^ 53"
  shows "f_of_u64 (observations (take j (sort_buckets bs))) = Fin (of_int (obs_total (take j (sort_buckets bs))))"
    and "uint (observations (take j (sort_buckets bs))) = obs_total (take j (sort_buckets bs))"
    and "obs_total (take j (sort_buckets bs)) < 2 ^ 53"
proof -
  let ?s = "sort_buckets bs"
  show b: "obs_total (take j ?s) < 2 ^ 53" using obs_total_take_le[of j ?s] assms by simp
  show u: "uint (observations (take j ?s)) = obs_total (take j ?s)"
    using b by (intro uint_observations) simp
  show "f_of_u64 (observations (take j ?s)) = Fin (of_int (obs_total (take j ?s)))"
    using f_of_u64_exact[of "observations (take j ?s)"] b unfolding u by simp
qed

text \<open>The rank falls in bucket \<open>k\<close>, so its position in the bucket is in the unit interval.\<close>

lemma rank_position:
  assumes "obs_total bs < 2 ^ 53" "k < length bs"
    and "of_int (obs_total (take k (sort_buckets bs))) < x" "x \<le> of_int (obs_total (take (Suc k) (sort_buckets bs)))"
  obtains z where "bucket_quantile (Fin x) (observations (take (Suc k) (sort_buckets bs))) (Count (sort_buckets bs ! k)) = Fin z"
    "0 \<le> z" "z \<le> 1"
proof -
  let ?s = "sort_buckets bs"
  let ?c = "observations (take (Suc k) ?s)" and ?n = "Count (?s ! k)"
  note cum = cumulative_exact[OF assms(1)]
  have k: "k < length ?s" using assms(2) by simp
  have cn: "?c - ?n = observations (take k ?s)" using take_Suc_count[OF k] by simp
  have nt: "obs_total (take (Suc k) ?s) = obs_total (take k ?s) + uint ?n" by (rule take_Suc_total[OF k])
  show thesis
  proof (rule bucket_quantile_unit[of ?c ?n x])
    show "uint (?c - ?n) < 2 ^ 53" "of_int (uint (?c - ?n)) < x" unfolding cn cum(2) using cum(3) assms(3) by auto
    show "x \<le> of_int (uint (?c - ?n)) + of_int (uint ?n)" unfolding cn cum(2) using assms(4) nt by simp
    have "of_int (obs_total (take k ?s)) < (of_int (obs_total (take (Suc k) ?s)) :: rat)" using assms(3,4) by linarith
    then show "0 < uint ?n" using nt by linarith
    show "uint ?n < 2 ^ 53" using nt cum(3)[of "Suc k"] obs_total_nonneg[of "take k ?s"] by linarith
  qed (use that in blast)
qed

lemma middle_bucket:
  assumes "bounds_ok bs" "obs_total bs < 2 ^ 53" "0 < k" "Suc k < length bs"
    and "of_int (obs_total (take k (sort_buckets bs))) < x" "x \<le> of_int (obs_total (take (Suc k) (sort_buckets bs)))"
    and "v = interpolate (UpperBound (sort_buckets bs ! (k - 1))) (UpperBound (sort_buckets bs ! k))
               (bucket_quantile (Fin x) (observations (take (Suc k) (sort_buckets bs))) (Count (sort_buckets bs ! k)))"
  shows "\<exists>lo hi. UpperBound (sort_buckets bs ! (k - 1)) = Fin lo \<and> UpperBound (sort_buckets bs ! k) = Fin hi \<and> lo < hi
             \<and> (f64_round (hi - lo) \<noteq> F_PosInf \<longrightarrow> Fin lo \<le> v) \<and> (f64_rep (hi - lo) \<longrightarrow> v \<le> Fin hi)"
proof -
  let ?s = "sort_buckets bs"
  have k1: "Suc (k - 1) < length bs" "k < length bs" using assms(3,4) by simp_all
  obtain l where l: "UpperBound (?s ! (k - 1)) = Fin l" "f64_rep l" using sorted_bounds_Fin[OF assms(1) k1(1)] .
  obtain h where h: "UpperBound (?s ! k) = Fin h" "f64_rep h" using sorted_bounds_Fin[OF assms(1,4)] .
  have "UpperBound (?s ! (k - 1)) < UpperBound (?s ! k)"
    using sort_strict[of bs] assms(1,3,4) unfolding bounds_ok_def sorted_wrt_map sorted_wrt_iff_nth_less by simp
  then have less: "l < h" using l h by simp
  obtain z where z: "bucket_quantile (Fin x) (observations (take (Suc k) ?s)) (Count (?s ! k)) = Fin z" "0 \<le> z" "z \<le> 1"
    using rank_position[OF assms(2) k1(2) assms(5,6)] .
  have "v = interpolate (Fin l) (Fin h) (Fin z)" unfolding assms(7) z(1) l(1) h(1) ..
  then show ?thesis using l h less interpolate_bounds[OF l(2) h(2) less_imp_le[OF less] z(2,3)] by auto
qed

text \<open>C17 (the quantile lands in the right bucket).  For buckets with distinct bounds, up to
  \<open>2 ^ 53\<close> observations and a quantile in the unit interval, there is a bucket of the sorted list
  whose cumulative count is the first to reach the rank.  If it is the highest bucket the result is
  its lower bound, if it is the lowest the result is its upper bound, otherwise the result is at
  least its lower bound (when the width does not overflow) and at most its upper bound (when the
  width is a float64).\<close>

theorem quantile_in_bucket:
  assumes ok: "bounds_ok bs" and q: "0 \<le> qr" "qr \<le> 1"
    and tot: "0 < obs_total bs" "obs_total bs < 2 ^ 53"
  shows "\<exists>k v x. let s = sort_buckets bs in
     k < length s \<and> deltaExplicitBucketsQuantile (Fin qr) bs = Inr v
     \<and> f_mul (Fin qr) (Fin (of_int (obs_total bs))) = Fin x
     \<and> x \<le> of_int (obs_total (take (Suc k) s)) \<and> (0 < k \<longrightarrow> of_int (obs_total (take k s)) < x)
     \<and> (k = length s - 1 \<longrightarrow> v = UpperBound (s ! (length s - 2)))
     \<and> (k = 0 \<longrightarrow> v = UpperBound (s ! 0))
     \<and> (0 < k \<and> k < length s - 1 \<longrightarrow>
          (\<exists>lo hi. UpperBound (s ! (k - 1)) = Fin lo \<and> UpperBound (s ! k) = Fin hi \<and> lo < hi
             \<and> (f64_round (hi - lo) \<noteq> F_PosInf \<longrightarrow> Fin lo \<le> v)
             \<and> (f64_rep (hi - lo) \<longrightarrow> v \<le> Fin hi)))"
proof -
  let ?s = "sort_buckets bs"
  have len: "2 \<le> length ?s" using ok by (simp add: bounds_ok_def)
  note cum = cumulative_exact[OF tot(2)]
  have full: "f_of_u64 (observations ?s) = Fin (of_int (obs_total bs))" "uint (observations ?s) = obs_total bs"
    using cum(1,2)[of "length ?s"] by simp_all
  have obs: "observations ?s \<noteq> 0" using full(2) tot(1) by auto
  obtain k x where k: "k < length ?s" "f_mul (Fin qr) (f_of_u64 (observations ?s)) = Fin x"
    "f_le (Fin x) (f_of_u64 (observations (take (Suc k) ?s)))"
    "\<And>m. m < k \<Longrightarrow> \<not> f_le (Fin x) (f_of_u64 (observations (take (Suc m) ?s)))"
    and r: "quantile_sorted (Fin qr) ?s = Inr
       (if k = length ?s - 1 then UpperBound (?s ! (length ?s - 2))
        else if k = 0 then UpperBound (?s ! 0)
        else interpolate (UpperBound (?s ! (k - 1))) (UpperBound (?s ! k))
               (bucket_quantile (Fin x) (observations (take (Suc k) ?s)) (Count (?s ! k))))" (is "_ = Inr ?v")
    using quantile_sorted_cases[OF q len sorted_last_PosInf[OF ok] obs] by blast
  have hi: "x \<le> of_int (obs_total (take (Suc k) ?s))" using k(3) by (auto simp: cum(1) f_le_def)
  have lo: "of_int (obs_total (take k ?s)) < x" if "0 < k"
    using k(4)[of "k - 1"] that by (auto simp: cum(1) f_le_def)
  have v: "deltaExplicitBucketsQuantile (Fin qr) bs = Inr ?v"
    using r q by (simp add: deltaExplicitBucketsQuantile_def)
  have mid: "\<exists>lo hi. UpperBound (?s ! (k - 1)) = Fin lo \<and> UpperBound (?s ! k) = Fin hi \<and> lo < hi
             \<and> (f64_round (hi - lo) \<noteq> F_PosInf \<longrightarrow> Fin lo \<le> ?v)
             \<and> (f64_rep (hi - lo) \<longrightarrow> ?v \<le> Fin hi)" if mk: "0 < k" "k < length ?s - 1"
    using mk by (intro middle_bucket[OF ok tot(2) mk(1) _ lo[OF mk(1)] hi]) auto
  show ?thesis unfolding Let_def
    by (rule exI[of _ k], rule exI[of _ ?v], rule exI[of _ x])
       (use k v hi lo mid full len in auto)
qed

definition ex_buckets :: "explicit_bucket list" where
  "ex_buckets = [\<lparr>UpperBound = F_PosInf, Count = 1\<rparr>, \<lparr>UpperBound = Fin 0, Count = 3\<rparr>,
                 \<lparr>UpperBound = Fin 10, Count = 4\<rparr>]"

lemma f64_rep_numeral [simp]: "(numeral k :: int) < 2 ^ 53 \<Longrightarrow> f64_rep (numeral k)"
  using f64_rep_of_int[of "numeral k"] by simp

lemma ex_buckets_quantile:
  "deltaExplicitBucketsQuantile (Fin (1 / 2)) ex_buckets = Inr (Fin (5 / 2))"
  using f64_round_dyadic[of 1 2] f64_round_dyadic[of 5 1]
  by (simp add: deltaExplicitBucketsQuantile_def sort_buckets_def ex_buckets_def quantile_sorted_def
      Let_def f_of_u64_def f_of_int_def f_le_def bucket_quantile_def interpolate_def slice_at_def)

theorem quantile_in_bucket_witness:
  "deltaExplicitBucketsQuantile (Fin (1 / 2)) ex_buckets = Inr (Fin (5 / 2))
   \<and> (\<exists>k v. \<exists>x::rat. let s = sort_buckets ex_buckets in
        k < length s \<and> deltaExplicitBucketsQuantile (Fin (1 / 2)) ex_buckets = Inr v
        \<and> x \<le> of_int (obs_total (take (Suc k) s)))"
proof
  show "deltaExplicitBucketsQuantile (Fin (1 / 2)) ex_buckets = Inr (Fin (5 / 2))"
    by (rule ex_buckets_quantile)
  have "bounds_ok ex_buckets" "0 < obs_total ex_buckets" "obs_total ex_buckets < 2 ^ 53"
    by (simp_all add: bounds_ok_def ex_buckets_def)
  moreover have "(0::rat) \<le> 1 / 2" "1 / 2 \<le> (1::rat)" by simp_all
  ultimately
  obtain k v and x :: rat where "k < length (sort_buckets ex_buckets)"
    "deltaExplicitBucketsQuantile (Fin (1 / 2)) ex_buckets = Inr v"
    "x \<le> of_int (obs_total (take (Suc k) (sort_buckets ex_buckets)))"
    using quantile_in_bucket[of ex_buckets "1 / 2"] unfolding Let_def by blast
  then show "\<exists>k v. \<exists>x::rat. let s = sort_buckets ex_buckets in
      k < length s \<and> deltaExplicitBucketsQuantile (Fin (1 / 2)) ex_buckets = Inr v
      \<and> x \<le> of_int (obs_total (take (Suc k) s))"
    unfolding Let_def by blast
qed

text \<open>Bucket order does not matter.  Since the function sorts first, two lists with the same
  buckets and distinct bounds have the same quantile.\<close>

lemma quantile_perm:
  assumes "mset bs = mset bs'" "distinct (map UpperBound bs)"
  shows "deltaExplicitBucketsQuantile q bs = deltaExplicitBucketsQuantile q bs'"
proof -
  have d': "distinct (map UpperBound bs')"
    using assms by (metis mset_eq_imp_distinct_iff mset_map)
  have "sort_buckets bs = sort_buckets bs'"
    unfolding sort_buckets_def
  proof (rule properties_for_sort_key)
    show "mset (sort_key UpperBound bs') = mset bs" using assms(1) by simp
    show "\<And>k. k \<in> set (sort_key UpperBound bs') \<Longrightarrow>
        filter (\<lambda>x. UpperBound k = UpperBound x) (sort_key UpperBound bs') =
        filter (\<lambda>x. UpperBound k = UpperBound x) bs"
    proof -
      fix k assume "k \<in> set (sort_key UpperBound bs')"
      then have k: "k \<in> set bs" "k \<in> set bs'" using assms(1) by (auto dest: mset_eq_setD)
      have single: "filter (\<lambda>x. UpperBound k = UpperBound x) xs = [k]"
        if "distinct (map UpperBound xs)" "k \<in> set xs" for xs
        using that by (induction xs) (auto simp: filter_empty_conv image_iff)
      have "distinct (map UpperBound (sort_key UpperBound bs'))"
        using d' by (metis mset_eq_imp_distinct_iff mset_map mset_sort)
      then show "filter (\<lambda>x. UpperBound k = UpperBound x) (sort_key UpperBound bs') =
          filter (\<lambda>x. UpperBound k = UpperBound x) bs"
        using single assms(2) k by simp
    qed
    show "sorted (map UpperBound (sort_key UpperBound bs'))" by simp
  qed
  then show ?thesis by (simp add: deltaExplicitBucketsQuantile_def)
qed

lemma quantile_perm_witness:
  "deltaExplicitBucketsQuantile (Fin (1 / 2)) (rev ex_buckets) = Inr (Fin (5 / 2))"
  using quantile_perm[of ex_buckets "rev ex_buckets" "Fin (1 / 2)"] ex_buckets_quantile
  by (simp add: ex_buckets_def)

text \<open>C20 (when merging panics, and what it does to its source).  Merging two data points panics exactly when
  they are merged bucket by bucket, that is both are populated with equal bounds, and the target has
  fewer bucket counts.  When it does not, the received source point has lost its exemplars if the two
  were merged and is unchanged otherwise.  For data points of the collector (one more count than
  bounds, counts adding up) it never panics, and the result is again such a data point.\<close>

theorem merge_panic_iff:
  "(addHistogramDataPoint from to = Inl e \<longleftrightarrow>
      e = IndexOutOfRange \<and> mergeable from to \<and> length (h_buckets to) < length (h_buckets from))
   \<and> (addHistogramDataPoint from to = Inr (from', to') \<longrightarrow>
      from' = (if mergeable from to then from\<lparr>h_exemplars := []\<rparr> else from))
   \<and> (hist_wf from \<and> (hist_wf to \<or> h_count to = 0) \<and> h_count from \<noteq> 0 \<longrightarrow>
      (\<exists>from' to'. addHistogramDataPoint from to = Inr (from', to') \<and> hist_wf to'))"
proof (cases "mergeable from to")
  case False
  then show ?thesis by (auto simp: addHistogramDataPoint_def mergeable_def)
next
  case True
  show ?thesis
  proof (cases "length (h_buckets from) \<le> length (h_buckets to)")
    case le: True
    obtain f t where m: "addHistogramDataPoint from to = Inr (f, t)"
      "h_count t = h_count to + h_count from" "h_bounds t = h_bounds to"
      "length (h_buckets t) = length (h_buckets to)"
      "sum_list (h_buckets t) = sum_list (h_buckets to) + sum_list (h_buckets from)"
      "f = from\<lparr>h_exemplars := []\<rparr>"
      using merge_ok[OF True le] by metis
    have "hist_wf t" if "hist_wf from" "hist_wf to \<or> h_count to = 0"
      using that True m(2-5) by (simp add: hist_wf_def mergeable_def add.commute)
    then show ?thesis using True m(1,6) le by auto
  next
    case gt: False
    then have "add_buckets (h_buckets to) 0 (h_buckets from) = Inl IndexOutOfRange"
      using add_buckets_panic[of 0 "h_buckets to" "h_buckets from"] by simp
    then have "addHistogramDataPoint from to = Inl IndexOutOfRange"
      using True by (simp add: addHistogramDataPoint_def mergeable_def Let_def)
    moreover have "length (h_bounds from) = length (h_bounds to)"
      using True by (simp add: mergeable_def float64SliceEqual_def)
    ultimately show ?thesis using gt True by (auto simp: hist_wf_def mergeable_def)
  qed
qed

definition ex_hist :: "u64 list \<Rightarrow> hist_dp" where
  "ex_hist bs = NewHistogramDataPoint\<lparr>h_count := sum_list bs, h_sum := Some (Fin 7), h_buckets := bs,
     h_bounds := [Fin 1, Fin 5], h_exemplars := [''trace''], h_start := 10, h_time := 20\<rparr>"

theorem merge_panic_iff_witness:
  "addHistogramDataPoint (ex_hist [1, 2, 3]) (ex_hist [4]) = Inl IndexOutOfRange
   \<and> (\<exists>f t. addHistogramDataPoint (ex_hist [1, 2, 3]) (ex_hist [0, 1, 0]) = Inr (f, t) \<and> hist_wf t
        \<and> h_exemplars f = [] \<and> h_exemplars (ex_hist [1, 2, 3]) = [''trace''])"
proof -
  have m: "mergeable (ex_hist [1, 2, 3]) (ex_hist [0, 1, 0])" "h_exemplars (ex_hist [1, 2, 3]) = [''trace'']"
    by (simp_all add: ex_hist_def NewHistogramDataPoint_def mergeable_def float64SliceEqual_def)
  have "mergeable (ex_hist [1, 2, 3]) (ex_hist [4])"
    "length (h_buckets (ex_hist [4])) < length (h_buckets (ex_hist [1, 2, 3]))"
    "hist_wf (ex_hist [1, 2, 3])" "hist_wf (ex_hist [0, 1, 0])" "h_count (ex_hist [1, 2, 3]) \<noteq> 0"
    by (simp_all add: ex_hist_def NewHistogramDataPoint_def mergeable_def float64SliceEqual_def hist_wf_def)
  then have "addHistogramDataPoint (ex_hist [1, 2, 3]) (ex_hist [4]) = Inl IndexOutOfRange"
    and ok: "\<exists>f t. addHistogramDataPoint (ex_hist [1, 2, 3]) (ex_hist [0, 1, 0]) = Inr (f, t) \<and> hist_wf t"
    using merge_panic_iff[of "ex_hist [1, 2, 3]" "ex_hist [4]" IndexOutOfRange]
      merge_panic_iff[of "ex_hist [1, 2, 3]" "ex_hist [0, 1, 0]" IndexOutOfRange] by blast+
  moreover have "h_exemplars f = []"
    if "addHistogramDataPoint (ex_hist [1, 2, 3]) (ex_hist [0, 1, 0]) = Inr (f, t)" for f t
    using merge_panic_iff[of "ex_hist [1, 2, 3]" "ex_hist [0, 1, 0]" IndexOutOfRange f t] that m(1) by simp
  ultimately show ?thesis using m(2) by blast
qed

end
