(* ===== verification/Store.thy ===== *)
theory Store
  imports AggConfig Histogram Durations
begin

section \<open>The in-memory metric store (cmd/otelinmemexporter/store.go)\<close>

text \<open>
  The store keeps, per configured key and observed group, one number data point or one histogram
  data point.  Data of the collector library appears through what its accessors return: an
  attribute value is empty or has a string rendering (\<open>Type\<close> and \<open>AsString\<close>), an attribute map
  is the list of its entries (\<open>Get\<close> finds the first), a number point has a value that is unset, a
  double or an integer.  A Go map that is never ranged over except to build another map is a partial
  function; a nil map reads as the empty one.  \<open>Add\<close> returns the store and the metrics as the call
  leaves them, because merging histograms moves exemplars out of the caller's data, or a panic.
  The read lock and write lock make every operation atomic, so operations are functions of the
  store.
\<close>

datatype pvalue = PEmpty | PVal string

fun AsString :: "pvalue \<Rightarrow> string" where
  "AsString PEmpty = []"
| "AsString (PVal s) = s"

type_synonym attrs = "(string \<times> pvalue) list"

datatype num_value = NumEmpty | NumDouble f64 | NumInt int

record number_dp =
  n_value :: num_value
  n_start :: u64
  n_time :: u64
  n_attrs :: attrs

definition NewNumberDataPoint :: number_dp where
  "NewNumberDataPoint = \<lparr>n_value = NumEmpty, n_start = 0, n_time = 0, n_attrs = []\<rparr>"

text \<open>The getter gives 0 when the value is not a double.\<close>

definition DoubleValue :: "number_dp \<Rightarrow> f64" where
  "DoubleValue dp = (case n_value dp of NumDouble v \<Rightarrow> v | _ \<Rightarrow> Fin 0)"

definition SetDoubleValue :: "number_dp \<Rightarrow> f64 \<Rightarrow> number_dp" where
  "SetDoubleValue dp v = dp\<lparr>n_value := NumDouble v\<rparr>"

definition doubleValue :: "number_dp \<Rightarrow> f64" where
  "doubleValue dp = (case n_value dp of NumDouble v \<Rightarrow> v | NumInt i \<Rightarrow> f_of_int i | NumEmpty \<Rightarrow> Fin 0)"

datatype temporality = Unspecified | Delta | Cumulative

datatype metric_data =
    Gauge "number_dp list"
  | SumMetric temporality "number_dp list"
  | HistogramMetric temporality "(attrs \<times> hist_dp) list"
  | OtherMetric string

record metric =
  m_name :: string
  m_data :: metric_data

record resource_metrics =
  rm_attrs :: attrs
  rm_scopes :: "metric list list"

type_synonym 'a keyed = "string \<rightharpoonup> (string \<rightharpoonup> 'a)"

record store =
  st_nameM :: name_to_aggs
  st_keyM :: key_to_agg
  st_nums :: "number_dp keyed"
  st_hists :: "hist_dp keyed"

definition NewStore :: "agg_config list \<Rightarrow> agg_error + store" where
  "NewStore aggs =
     res_bind (validateAndGroup aggs) (\<lambda>(keyM, nameM).
     Inr \<lparr>st_nameM = nameM, st_keyM = keyM, st_nums = Map.empty, st_hists = Map.empty\<rparr>)"

subsection \<open>Selecting configurations\<close>

fun getValueFromMaps :: "string \<Rightarrow> attrs list \<Rightarrow> pvalue" where
  "getValueFromMaps key [] = PEmpty"
| "getValueFromMaps key (m # maps) =
     (case map_of m key of Some v \<Rightarrow> v | None \<Rightarrow> getValueFromMaps key maps)"

definition isEqualAttrs :: "agg_config \<Rightarrow> string \<Rightarrow> attrs \<Rightarrow> attrs \<Rightarrow> bool" where
  "isEqualAttrs cfg name as resAttrs =
     (if Name cfg \<noteq> name then False
      else if length (MatchLabelValues cfg) > length as + length resAttrs then False
      else list_all (\<lambda>(k, v). let targetV = getValueFromMaps k [as, resAttrs] in
             \<not> (targetV = PEmpty \<or> v \<noteq> AsString targetV)) (MatchLabelValues cfg))"

definition filterCfgs :: "name_to_aggs \<Rightarrow> string \<Rightarrow> attrs \<Rightarrow> attrs \<Rightarrow> agg_config list" where
  "filterCfgs nameM name as resAttrs =
     (case nameM name of None \<Rightarrow> [] | Some cfgs \<Rightarrow> filter (\<lambda>c. isEqualAttrs c name as resAttrs) cfgs)"

definition group_of :: "agg_config \<Rightarrow> attrs \<Rightarrow> attrs \<Rightarrow> string" where
  "group_of cfg as resAttrs = AsString (getValueFromMaps (GroupBy cfg) [as, resAttrs])"

text \<open>
  \<open>getMergeTo\<close> creates the entry when it is missing and returns a reference to it: here the map with
  the entry, and the group that names it.  \<open>put\<close> is a write through that reference.
\<close>

definition keyed_get :: "'a keyed \<Rightarrow> string \<Rightarrow> string \<Rightarrow> 'a option" where
  "keyed_get m k g = (case m k of None \<Rightarrow> None | Some grps \<Rightarrow> grps g)"

definition put :: "'a keyed \<Rightarrow> string \<Rightarrow> string \<Rightarrow> 'a \<Rightarrow> 'a keyed" where
  "put m k g v = m(k \<mapsto> (case m k of None \<Rightarrow> Map.empty | Some grps \<Rightarrow> grps)(g \<mapsto> v))"

definition getMergeTo :: "'a keyed \<Rightarrow> 'a \<Rightarrow> agg_config \<Rightarrow> attrs \<Rightarrow> attrs \<Rightarrow> 'a keyed \<times> string \<times> 'a" where
  "getMergeTo m init cfg as resAttrs =
     (let grp = group_of cfg as resAttrs;
          m1 = (if m (Key cfg) = None then m(Key cfg \<mapsto> Map.empty) else m);
          m2 = (if keyed_get m1 (Key cfg) grp = None then put m1 (Key cfg) grp init else m1)
      in (m2, grp, case keyed_get m2 (Key cfg) grp of Some v \<Rightarrow> v | None \<Rightarrow> init))"

subsection \<open>Number data points\<close>

definition merge_rate :: "number_dp \<Rightarrow> number_dp \<Rightarrow> number_dp" where
  "merge_rate dp to =
     (let val = doubleValue dp in
      if \<not> f_eq val (Fin 0) then
        let to1 = SetDoubleValue to (f_add (DoubleValue to) val);
            to2 = (if n_start to1 = 0
                   then (if n_start dp \<noteq> 0 then to1\<lparr>n_start := n_start dp\<rparr>
                         else to1\<lparr>n_start := n_time dp\<rparr>)
                   else to1)
        in if n_time to2 < n_time dp then to2\<lparr>n_time := n_time dp\<rparr> else to2
      else to)"

definition merge_number :: "agg_type \<Rightarrow> number_dp \<Rightarrow> number_dp \<Rightarrow> number_dp" where
  "merge_number typ dp to =
     (if typ = Agg_Last then SetDoubleValue to (doubleValue dp)
      else if typ = Agg_Max then
        (let newVal = doubleValue dp in
         if f_lt (DoubleValue to) newVal then SetDoubleValue to newVal else to)
      else if typ = Agg_Sum then SetDoubleValue to (f_add (DoubleValue to) (doubleValue dp))
      else if typ = Agg_Rate then merge_rate dp to
      else to)"

definition merge_number_cfg ::
    "number_dp \<Rightarrow> attrs \<Rightarrow> agg_config \<Rightarrow> number_dp keyed \<Rightarrow> number_dp keyed" where
  "merge_number_cfg dp resAttrs cfg nums =
     (case getMergeTo nums NewNumberDataPoint cfg (n_attrs dp) resAttrs of
        (m, grp, to) \<Rightarrow> put m (Key cfg) grp (merge_number (Type cfg) dp to))"

definition mergeNumberDataPoints ::
    "name_to_aggs \<Rightarrow> string \<Rightarrow> number_dp list \<Rightarrow> attrs \<Rightarrow> number_dp keyed \<Rightarrow> number_dp keyed" where
  "mergeNumberDataPoints nameM name from resAttrs nums =
     fold (\<lambda>dp. fold (merge_number_cfg dp resAttrs) (filterCfgs nameM name (n_attrs dp) resAttrs))
       from nums"

definition getNumAggByType :: "agg_type \<Rightarrow> number_dp \<Rightarrow> f64" where
  "getNumAggByType typ dp =
     (if typ = Agg_Rate then
        (if f_eq (DoubleValue dp) (Fin 0) then Fin 0
         else let duration = dur_seconds (sint (n_time dp - n_start dp)) in
           if f_le duration (Fin 0) then Fin 0 else f_div (DoubleValue dp) duration)
      else if typ = Agg_Last \<or> typ = Agg_Sum \<or> typ = Agg_Max then DoubleValue dp
      else Fin 0)"

subsection \<open>Histogram data points\<close>

definition merge_hist_cfg ::
    "attrs \<Rightarrow> attrs \<Rightarrow> agg_config \<Rightarrow> hist_dp keyed \<times> hist_dp \<Rightarrow> panic + hist_dp keyed \<times> hist_dp" where
  "merge_hist_cfg as resAttrs cfg st =
     (case st of (hists, fromDP) \<Rightarrow>
        case getMergeTo hists NewHistogramDataPoint cfg as resAttrs of
          (m, grp, toDP) \<Rightarrow>
            if Type cfg = Agg_Sum \<or> Type cfg = Agg_Percentile then
              res_bind (addHistogramDataPoint fromDP toDP) (\<lambda>(fromDP', toDP').
              Inr (put m (Key cfg) grp toDP', fromDP'))
            else Inr (m, fromDP))"

definition merge_hist_point ::
    "name_to_aggs \<Rightarrow> string \<Rightarrow> attrs \<Rightarrow> attrs \<times> hist_dp \<Rightarrow> hist_dp keyed
       \<Rightarrow> panic + hist_dp keyed \<times> (attrs \<times> hist_dp)" where
  "merge_hist_point nameM name resAttrs p hists =
     (case p of (as, fromDP) \<Rightarrow>
        if h_count fromDP = 0 then Inr (hists, p)
        else res_bind (loop_res (merge_hist_cfg as resAttrs) (filterCfgs nameM name as resAttrs) (hists, fromDP))
               (\<lambda>(hists', fromDP'). Inr (hists', (as, fromDP'))))"

definition mergeHistogramDataPoints ::
    "name_to_aggs \<Rightarrow> string \<Rightarrow> (attrs \<times> hist_dp) list \<Rightarrow> attrs \<Rightarrow> hist_dp keyed
       \<Rightarrow> panic + hist_dp keyed \<times> (attrs \<times> hist_dp) list" where
  "mergeHistogramDataPoints nameM name from resAttrs hists =
     loop_map (merge_hist_point nameM name resAttrs) from hists"

definition getHistAggByType :: "agg_type \<Rightarrow> f64 \<Rightarrow> hist_dp \<Rightarrow> panic + f64" where
  "getHistAggByType typ p dp =
     (if typ = Agg_Percentile then
        res_bind (explicitBucketsFromHistogramDataPoint dp)
          (deltaExplicitBucketsQuantile (f_div p (Fin 100)))
      else if typ = Agg_Sum then Inr (opt_f64 (h_sum dp))
      else Inr (Fin 0))"

subsection \<open>The operations\<close>

definition add_metric :: "attrs \<Rightarrow> metric \<Rightarrow> store \<Rightarrow> panic + store \<times> metric" where
  "add_metric resAttrs m s =
     (if st_nameM s (m_name m) = None then Inr (s, m)
      else case m_data m of
        Gauge dps \<Rightarrow>
          Inr (s\<lparr>st_nums := mergeNumberDataPoints (st_nameM s) (m_name m) dps resAttrs (st_nums s)\<rparr>, m)
      | SumMetric temp dps \<Rightarrow>
          if temp = Cumulative then Inr (s, m)
          else Inr (s\<lparr>st_nums := mergeNumberDataPoints (st_nameM s) (m_name m) dps resAttrs (st_nums s)\<rparr>, m)
      | HistogramMetric temp dps \<Rightarrow>
          if temp = Cumulative then Inr (s, m)
          else res_bind (mergeHistogramDataPoints (st_nameM s) (m_name m) dps resAttrs (st_hists s))
                 (\<lambda>(hists', dps'). Inr (s\<lparr>st_hists := hists'\<rparr>, m\<lparr>m_data := HistogramMetric temp dps'\<rparr>))
      | OtherMetric _ \<Rightarrow> Inr (s, m))"

definition add_resource :: "resource_metrics \<Rightarrow> store \<Rightarrow> panic + store \<times> resource_metrics" where
  "add_resource rm s =
     res_bind (loop_map (loop_map (add_metric (rm_attrs rm))) (rm_scopes rm) s) (\<lambda>(s', scopes').
     Inr (s', rm\<lparr>rm_scopes := scopes'\<rparr>))"

definition Add :: "resource_metrics list \<Rightarrow> store \<Rightarrow> panic + store \<times> resource_metrics list" where
  "Add ld s = loop_map add_resource ld s"

text \<open>
  A query builds a map from groups to values; the histogram entries are written after the number
  entries and win.  An entry that is a panic stands for a query that panics while computing it.
\<close>

definition query_entry :: "agg_config \<Rightarrow> (string \<rightharpoonup> number_dp) \<Rightarrow> (string \<rightharpoonup> hist_dp) \<Rightarrow> string \<rightharpoonup> panic + f64" where
  "query_entry cfg nums hists grp =
     (case hists grp of
        Some dp \<Rightarrow> Some (getHistAggByType (Type cfg) (Percentile cfg) dp)
      | None \<Rightarrow> map_option (\<lambda>dp. Inr (getNumAggByType (Type cfg) dp)) (nums grp))"

definition groups :: "(string \<rightharpoonup> 'a) option \<Rightarrow> string \<rightharpoonup> 'a" where
  "groups m = (case m of None \<Rightarrow> Map.empty | Some g \<Rightarrow> g)"

definition GetAll :: "store \<Rightarrow> string \<rightharpoonup> (string \<rightharpoonup> panic + f64)" where
  "GetAll s key =
     (case st_keyM s key of
        None \<Rightarrow> None
      | Some cfg \<Rightarrow>
          if st_nums s key = None \<and> st_hists s key = None then Some [[] \<mapsto> Inr (Fin 0)]
          else Some (query_entry cfg (groups (st_nums s key)) (groups (st_hists s key))))"

definition Get :: "string \<Rightarrow> store \<Rightarrow> string + (string \<rightharpoonup> panic + f64)" where
  "Get key s =
     (case st_keyM s key of
        None \<Rightarrow> Inl (''key '' @ key @ '' is not configured'')
      | Some cfg \<Rightarrow>
          if st_nums s key = None \<and> st_hists s key = None then Inr [[] \<mapsto> Inr (Fin 0)]
          else Inr (query_entry cfg (groups (st_nums s key)) (groups (st_hists s key))))"

text \<open>\<open>Reset\<close> deletes the keys of \<open>nums\<close>.\<close>

definition Reset :: "store \<Rightarrow> store" where
  "Reset s = s\<lparr>st_nums := Map.empty\<rparr>"

subsection \<open>Lookups after writes\<close>

lemma keyed_get_put [simp]:
  "keyed_get (put m k g v) k' g' = (if k' = k \<and> g' = g then Some v else keyed_get m k' g')"
  by (simp add: keyed_get_def put_def split: option.splits)

lemma put_None [simp]: "put m k g v k' = None \<longleftrightarrow> k' \<noteq> k \<and> m k' = None"
  by (simp add: put_def)

lemma put_put [simp]: "put (put m k g v) k g w = put m k g w"
  by (simp add: put_def fun_eq_iff)

lemma getMergeTo_eq:
  "getMergeTo m init cfg as res =
     (case keyed_get m (Key cfg) (group_of cfg as res) of
        Some v \<Rightarrow> (m, group_of cfg as res, v)
      | None \<Rightarrow> (put m (Key cfg) (group_of cfg as res) init, group_of cfg as res, init))"
  by (auto simp: getMergeTo_def Let_def keyed_get_def put_def fun_eq_iff split: option.splits)

definition get_or :: "'a \<Rightarrow> 'a option \<Rightarrow> 'a" where
  "get_or d x = (case x of Some v \<Rightarrow> v | None \<Rightarrow> d)"

lemma get_or_simps [simp]: "get_or d None = d" "get_or d (Some v) = v"
  by (simp_all add: get_or_def)

lemma merge_number_cfg_eq:
  "merge_number_cfg dp res cfg nums =
     put nums (Key cfg) (group_of cfg (n_attrs dp) res)
       (merge_number (Type cfg) dp
          (get_or NewNumberDataPoint (keyed_get nums (Key cfg) (group_of cfg (n_attrs dp) res))))"
  by (simp add: merge_number_cfg_def getMergeTo_eq split: option.splits)

subsection \<open>Matching\<close>

lemma getValueFromMaps_two:
  "getValueFromMaps k [as, res] = (case (map_of res ++ map_of as) k of Some v \<Rightarrow> v | None \<Rightarrow> PEmpty)"
  by (simp add: map_add_def split: option.splits)

lemma isEqualAttrs_name: "isEqualAttrs c n as res \<Longrightarrow> Name c = n"
  by (auto simp: isEqualAttrs_def split: if_splits)

lemma filterCfgs_by_name:
  "filterCfgs (by_name cs) n as res = filter (\<lambda>c. isEqualAttrs c n as res) cs"
proof -
  have *: "filter (\<lambda>c. isEqualAttrs c n as res) (filter (\<lambda>c. Name c = n) cs)
      = filter (\<lambda>c. isEqualAttrs c n as res) cs"
    by (induction cs) (auto dest: isEqualAttrs_name)
  show ?thesis using *
    by (cases "filter (\<lambda>c. Name c = n) cs = []")
       (simp_all add: filterCfgs_def by_name_def Let_def del: filter_filter)
qed

subsection \<open>The number points a key and group see\<close>

type_synonym num_point = "string \<times> attrs \<times> number_dp"

fun metric_points :: "attrs \<Rightarrow> metric \<Rightarrow> num_point list" where
  "metric_points res m =
     (case m_data m of
        Gauge dps \<Rightarrow> map (\<lambda>dp. (m_name m, res, dp)) dps
      | SumMetric temp dps \<Rightarrow> if temp = Cumulative then [] else map (\<lambda>dp. (m_name m, res, dp)) dps
      | _ \<Rightarrow> [])"

definition resource_points :: "resource_metrics \<Rightarrow> num_point list" where
  "resource_points rm = concat (map (\<lambda>ms. concat (map (metric_points (rm_attrs rm)) ms)) (rm_scopes rm))"

definition number_points :: "resource_metrics list \<Rightarrow> num_point list" where
  "number_points ld = concat (map resource_points ld)"

fun sees :: "agg_config \<Rightarrow> string \<Rightarrow> num_point \<Rightarrow> bool" where
  "sees c g (n, res, dp) = (isEqualAttrs c n (n_attrs dp) res \<and> group_of c (n_attrs dp) res = g)"

definition seen :: "agg_config \<Rightarrow> string \<Rightarrow> num_point list \<Rightarrow> number_dp list" where
  "seen c g ps = map (\<lambda>(n, res, dp). dp) (filter (sees c g) ps)"

lemma seen_simps [simp]:
  "seen c g [] = []"
  "seen c g (p # ps) = (if sees c g p then snd (snd p) # seen c g ps else seen c g ps)"
  "seen c g (ps @ qs) = seen c g ps @ seen c g qs"
  by (auto simp: seen_def split: prod.splits)

text \<open>One aggregated entry, as an abstract machine: absent, or a data point fed with the points seen.\<close>

definition feed :: "agg_type \<Rightarrow> number_dp list \<Rightarrow> number_dp option \<Rightarrow> number_dp option" where
  "feed typ dps a = (if dps = [] then a else Some (fold (merge_number typ) dps (get_or NewNumberDataPoint a)))"

lemma feed_Nil [simp]: "feed typ [] a = a"
  by (simp add: feed_def)

lemma feed_append: "feed typ (xs @ ys) a = feed typ ys (feed typ xs a)"
  by (auto simp: feed_def)

lemma feed_one: "feed typ [dp] a = Some (merge_number typ dp (get_or NewNumberDataPoint a))"
  by (simp add: feed_def)

lemma fold_cfgs_entry:
  assumes "distinct (map Key xs)" "\<And>d. d \<in> set xs \<Longrightarrow> Key d = Key c \<Longrightarrow> d = c"
  shows "keyed_get (fold (merge_number_cfg dp res) xs nums) (Key c) g =
     (if c \<in> set xs \<and> group_of c (n_attrs dp) res = g
      then feed (Type c) [dp] (keyed_get nums (Key c) g) else keyed_get nums (Key c) g)"
  using assms
proof (induction xs arbitrary: nums)
  case (Cons d ds)
  have rest: "\<And>e. e \<in> set ds \<Longrightarrow> Key e = Key c \<Longrightarrow> e = c" using Cons.prems(2) by simp
  show ?case
  proof (cases "Key d = Key c")
    case True
    then have d: "d = c" "c \<notin> set ds" using Cons.prems by force+
    show ?thesis using Cons.IH[OF _ rest] Cons.prems(1) d
      by (simp add: merge_number_cfg_eq feed_one)
  next
    case False
    then have "c \<noteq> d" by auto
    then show ?thesis using Cons.IH[OF _ rest] Cons.prems(1) False
      by (auto simp: merge_number_cfg_eq)
  qed
qed simp

definition point_step :: "agg_config list \<Rightarrow> num_point \<Rightarrow> number_dp keyed \<Rightarrow> number_dp keyed" where
  "point_step cs p nums = (case p of (n, res, dp) \<Rightarrow>
     fold (merge_number_cfg dp res) (filterCfgs (by_name cs) n (n_attrs dp) res) nums)"

lemma point_step_entry:
  assumes "distinct (map Key cs)" "c \<in> set cs"
  shows "keyed_get (point_step cs p nums) (Key c) g =
           feed (Type c) (seen c g [p]) (keyed_get nums (Key c) g)"
proof -
  obtain n res dp where p: "p = (n, res, dp)" by (cases p)
  let ?xs = "filter (\<lambda>c. isEqualAttrs c n (n_attrs dp) res) cs"
  have "distinct (map Key ?xs)" using assms(1) by (simp add: distinct_map_filter)
  moreover have "d = c" if "d \<in> set ?xs" "Key d = Key c" for d
    using that assms by (auto simp: distinct_map inj_on_def)
  ultimately show ?thesis
    using fold_cfgs_entry[of ?xs c dp res nums g] assms(2)
    by (simp add: p point_step_def filterCfgs_by_name)
qed

lemma fold_points_entry:
  assumes "distinct (map Key cs)" "c \<in> set cs"
  shows "keyed_get (fold (point_step cs) ps nums) (Key c) g =
           feed (Type c) (seen c g ps) (keyed_get nums (Key c) g)"
proof (induction ps arbitrary: nums)
  case (Cons p ps)
  have "seen c g (p # ps) = seen c g [p] @ seen c g ps" by simp
  then show ?case
    using Cons.IH[of "point_step cs p nums"] point_step_entry[OF assms, of p nums g]
    by (simp only: fold_simps feed_append)
qed simp

lemma mergeNumber_points:
  "mergeNumberDataPoints (by_name cs) n dps res nums = fold (point_step cs) (map (\<lambda>dp. (n, res, dp)) dps) nums"
  by (induction dps arbitrary: nums) (auto simp: mergeNumberDataPoints_def point_step_def)

subsection \<open>Add as a fold over the points\<close>

definition store_wf :: "agg_config list \<Rightarrow> store \<Rightarrow> bool" where
  "store_wf cs s \<longleftrightarrow> cfgs_ok cs \<and> st_nameM s = by_name cs \<and> st_keyM s = by_key cs
     \<and> dom (st_nums s) \<subseteq> Key ` set cs \<and> dom (st_hists s) \<subseteq> Key ` set cs"

lemma by_name_None_iff: "by_name cs n = None \<longleftrightarrow> (\<forall>c \<in> set cs. Name c \<noteq> n)"
  by (auto simp: by_name_def Let_def filter_empty_conv)

lemma point_step_no_name: "by_name cs n = None \<Longrightarrow> point_step cs (n, res, dp) nums = nums"
  by (simp add: point_step_def filterCfgs_def)

lemma add_metric_nums:
  assumes "add_metric res m s = Inr (t, m')" "st_nameM s = by_name cs"
  shows "st_nums t = fold (point_step cs) (metric_points res m) (st_nums s)"
proof -
  have skip: "fold (point_step cs) (metric_points res m) nums = nums" if "by_name cs (m_name m) = None" for nums
  proof -
    have "fold (point_step cs) ps nums = nums" if "\<forall>p \<in> set ps. fst p = m_name m" for ps nums
      using that by (induction ps) (auto simp: point_step_no_name[OF \<open>by_name cs (m_name m) = None\<close>])
    moreover have "\<forall>p \<in> set (metric_points res m). fst p = m_name m"
      by (auto split: metric_data.splits)
    ultimately show ?thesis by blast
  qed
  show ?thesis
  proof (cases "by_name cs (m_name m) = None")
    case True
    then show ?thesis using assms skip by (simp add: add_metric_def del: metric_points.simps)
  next
    case False
    then show ?thesis using assms
      by (auto simp: add_metric_def mergeNumber_points res_bind_Inr_iff
          split: metric_data.splits if_splits)
  qed
qed

lemma add_metric_frame:
  "add_metric res m s = Inr (t, m') \<Longrightarrow> st_nameM t = st_nameM s \<and> st_keyM t = st_keyM s"
  by (auto simp: add_metric_def res_bind_Inr_iff split: metric_data.splits if_splits)

text \<open>The number half of the store together with its configuration evolves on its own.\<close>

definition num_view :: "store \<Rightarrow> name_to_aggs \<times> number_dp keyed" where
  "num_view s = (st_nameM s, st_nums s)"

definition num_fold :: "agg_config list \<Rightarrow> num_point list \<Rightarrow> name_to_aggs \<times> number_dp keyed \<Rightarrow> name_to_aggs \<times> number_dp keyed" where
  "num_fold cs ps v = (fst v, fold (point_step cs) ps (snd v))"

lemma num_fold_concat: "fold (\<lambda>x. num_fold cs (f x)) xs v = num_fold cs (concat (map f xs)) v"
  by (induction xs arbitrary: v) (auto simp: num_fold_def)

lemma loop_map_num_view:
  assumes "loop_map f xs s = Inr (t, ys)" "st_nameM s = by_name cs"
    and step: "\<And>x u v y. f x u = Inr (v, y) \<Longrightarrow> st_nameM u = by_name cs \<Longrightarrow>
                 num_view v = num_fold cs (g x) (num_view u)"
  shows "num_view t = num_fold cs (concat (map g xs)) (num_view s)"
  using assms(1,2)
proof (induction xs arbitrary: s ys)
  case (Cons x xs)
  from Cons.prems(1) obtain u y zs where u: "f x s = Inr (u, y)" "loop_map f xs u = Inr (t, zs)"
    by (auto simp: res_bind_Inr_iff)
  have v: "num_view u = num_fold cs (g x) (num_view s)" using step u(1) Cons.prems(2) .
  then have "st_nameM u = by_name cs" using Cons.prems(2) by (simp add: num_view_def num_fold_def)
  then show ?case using Cons.IH[OF u(2)] v by (simp add: num_fold_def)
qed (simp add: num_fold_def)

lemma add_metric_view:
  "add_metric res m u = Inr (v, y) \<Longrightarrow> st_nameM u = by_name cs \<Longrightarrow>
     num_view v = num_fold cs (metric_points res m) (num_view u)"
  using add_metric_nums add_metric_frame by (auto simp: num_view_def num_fold_def)

lemma Add_view:
  assumes "Add ld s = Inr (t, ld')" "st_nameM s = by_name cs"
  shows "num_view t = num_fold cs (number_points ld) (num_view s)"
  unfolding number_points_def
proof (rule loop_map_num_view[OF assms(1)[unfolded Add_def] assms(2)])
  fix rm u v y assume rm: "add_resource rm u = Inr (v, y)" "st_nameM u = by_name cs"
  then obtain scopes' where "loop_map (loop_map (add_metric (rm_attrs rm))) (rm_scopes rm) u = Inr (v, scopes')"
    by (auto simp: add_resource_def res_bind_Inr_iff)
  then show "num_view v = num_fold cs (resource_points rm) (num_view u)"
    unfolding resource_points_def
    by (rule loop_map_num_view[OF _ rm(2)]) (rule loop_map_num_view[OF _ _ add_metric_view])
qed

subsection \<open>Well-formed stores\<close>

lemma put_dom: "dom (put m k g v) = insert k (dom m)"
  by (auto simp: put_def)

lemma fold_point_step_dom:
  "dom nums \<subseteq> Key ` set cs \<Longrightarrow> dom (fold (point_step cs) ps nums) \<subseteq> Key ` set cs"
proof (induction ps arbitrary: nums)
  case (Cons p ps)
  obtain n res dp where p: "p = (n, res, dp)" by (cases p)
  have "dom (fold (merge_number_cfg dp res) xs m) \<subseteq> Key ` set cs"
    if "set xs \<subseteq> set cs" "dom m \<subseteq> Key ` set cs" for xs m
    using that by (induction xs arbitrary: m) (auto simp: merge_number_cfg_eq put_dom)
  then have "dom (point_step cs p nums) \<subseteq> Key ` set cs"
    using Cons.prems by (simp add: p point_step_def filterCfgs_by_name)
  then show ?case using Cons.IH by simp
qed simp

lemma keyed_get_dom: "keyed_get m k g = Some v \<Longrightarrow> insert k (dom m) = dom m"
  by (auto simp: keyed_get_def split: option.splits)

lemma merge_hist_cfg_dom:
  assumes "merge_hist_cfg as res c (h, f) = Inr (h', f')"
  shows "dom h' = insert (Key c) (dom h)"
proof (cases "keyed_get h (Key c) (group_of c as res)")
  case None
  then show ?thesis using assms
    by (simp add: merge_hist_cfg_def getMergeTo_eq split: if_splits)
       (clarsimp simp: res_bind_Inr_iff put_dom, metis put_dom)
next
  case (Some v)
  then show ?thesis using assms
    by (simp add: merge_hist_cfg_def getMergeTo_eq keyed_get_dom split: if_splits)
       (clarsimp simp: res_bind_Inr_iff put_dom keyed_get_dom)
qed

lemma merge_hist_loop_dom:
  assumes "loop_res (merge_hist_cfg as res) xs (h, f) = Inr (h', f')" "set xs \<subseteq> set cs"
    and "dom h \<subseteq> Key ` set cs"
  shows "dom h' \<subseteq> Key ` set cs"
  using assms
proof (induction xs arbitrary: h f)
  case (Cons c xs)
  obtain h1 f1 where c: "merge_hist_cfg as res c (h, f) = Inr (h1, f1)"
    "loop_res (merge_hist_cfg as res) xs (h1, f1) = Inr (h', f')"
    using Cons.prems(1) by (auto split: sum.splits)
  show ?case
    by (rule Cons.IH[OF c(2)]) (use Cons.prems(2,3) merge_hist_cfg_dom[OF c(1)] in auto)
qed simp

lemma merge_hist_point_cases:
  assumes "merge_hist_point nameM n res p u = Inr (v, y)"
  obtains "v = u" "y = p" "h_count (snd p) = 0"
  | f' where "h_count (snd p) \<noteq> 0" "y = (fst p, f')"
    "loop_res (merge_hist_cfg (fst p) res) (filterCfgs nameM n (fst p) res) (u, snd p) = Inr (v, f')"
  using assms by (cases p) (auto simp: merge_hist_point_def res_bind_Inr_iff split: if_splits)

lemma mergeHist_dom:
  assumes "mergeHistogramDataPoints (by_name cs) n dps res h = Inr (h', dps')" "dom h \<subseteq> Key ` set cs"
  shows "dom h' \<subseteq> Key ` set cs"
proof (rule loop_map_invariant[where I = "\<lambda>h. dom h \<subseteq> Key ` set cs"])
  show "loop_map (merge_hist_point (by_name cs) n res) dps h = Inr (h', dps')"
    using assms(1) by (simp add: mergeHistogramDataPoints_def)
  fix p u v y assume u: "dom u \<subseteq> Key ` set cs" and m: "merge_hist_point (by_name cs) n res p u = Inr (v, y)"
  show "dom v \<subseteq> Key ` set cs"
    by (rule merge_hist_point_cases[OF m])
       (use u merge_hist_loop_dom in \<open>auto simp: filterCfgs_by_name\<close>)
qed (rule assms(2))

lemma add_metric_wf:
  assumes "store_wf cs s" "add_metric res m s = Inr (t, m')" shows "store_wf cs t"
proof -
  have n: "st_nameM s = by_name cs" and h: "dom (st_hists s) \<subseteq> Key ` set cs"
    using assms(1) by (simp_all add: store_wf_def)
  have "dom (st_nums t) \<subseteq> Key ` set cs"
    using add_metric_nums[OF assms(2) n] assms(1) fold_point_step_dom by (simp add: store_wf_def)
  moreover have "st_hists t = st_hists s \<or>
      (\<exists>dps dps'. mergeHistogramDataPoints (by_name cs) (m_name m) dps res (st_hists s) = Inr (st_hists t, dps'))"
    using assms(2) n by (fastforce simp: add_metric_def res_bind_Inr_iff split: metric_data.splits if_splits)
  then have "dom (st_hists t) \<subseteq> Key ` set cs" using mergeHist_dom h by metis
  ultimately show ?thesis using assms add_metric_frame by (auto simp: store_wf_def)
qed

lemma Add_wf: assumes "store_wf cs s" "Add ld s = Inr (t, ld')" shows "store_wf cs t"
proof (rule loop_map_invariant[where I = "store_wf cs"])
  show "loop_map add_resource ld s = Inr (t, ld')" using assms(2) by (simp add: Add_def)
  fix rm u v y assume u: "store_wf cs u" and "add_resource rm u = Inr (v, y)"
  then obtain scopes' where l: "loop_map (loop_map (add_metric (rm_attrs rm))) (rm_scopes rm) u = Inr (v, scopes')"
    by (auto simp: add_resource_def res_bind_Inr_iff)
  have ms: "store_wf cs b" if "store_wf cs a" "loop_map (add_metric (rm_attrs rm)) ms a = Inr (b, ms')" for ms a b ms'
    by (rule loop_map_invariant[where I = "store_wf cs", OF that(2,1)]) (rule add_metric_wf)
  show "store_wf cs v"
    by (rule loop_map_invariant[where I = "store_wf cs", OF l u]) (rule ms)
qed (rule assms(1))

lemma NewStore_wf:
  assumes "\<forall>c \<in> set cs. labels_ok c" "NewStore cs = Inr s" shows "store_wf cs s"
  using assms validateAndGroup_Inr_iff[OF assms(1)]
  by (auto simp: NewStore_def res_bind_Inr_iff store_wf_def)

lemma Reset_wf: "store_wf cs s \<Longrightarrow> store_wf cs (Reset s)"
  by (simp add: store_wf_def Reset_def)

end
