(* ===== verification/StoreQueries.thy ===== *)
theory StoreQueries
  imports Store
begin

section \<open>What queries of the store return\<close>

text \<open>
  An abstract specification of each number aggregation (\<open>agg_spec\<close>, a function of the points a key
  and group have seen, in their order) and the refinement from the store's incremental updates to
  it, over any sequence of batches.  Then what \<open>Reset\<close> keeps, which configurations a point matches,
  and what a histogram does to a configuration that does not aggregate histograms.
\<close>

subsection \<open>The exporter's entry points (cmd/otelinmemexporter/exporter.go)\<close>

definition consumeMetrics :: "resource_metrics list \<Rightarrow> store \<Rightarrow> panic + store \<times> resource_metrics list" where
  "consumeMetrics ld s = Add ld s"

fun consume_all :: "resource_metrics list list \<Rightarrow> store \<Rightarrow> panic + store" where
  "consume_all [] s = Inr s"
| "consume_all (ld # lds) s = res_bind (consumeMetrics ld s) (\<lambda>(s', ld'). consume_all lds s')"

subsection \<open>The specification of the number aggregations\<close>

definition total :: "number_dp list \<Rightarrow> f64" where
  "total dps = foldl f_add (Fin 0) (map doubleValue dps)"

definition nonzero :: "number_dp list \<Rightarrow> number_dp list" where
  "nonzero dps = filter (\<lambda>dp. \<not> f_eq (doubleValue dp) (Fin 0)) dps"

definition begin_time :: "number_dp \<Rightarrow> u64" where
  "begin_time dp = (if n_start dp \<noteq> 0 then n_start dp else n_time dp)"

definition first_start :: "number_dp list \<Rightarrow> u64" where
  "first_start dps = (case filter (\<lambda>t. t \<noteq> 0) (map begin_time dps) of [] \<Rightarrow> 0 | t # _ \<Rightarrow> t)"

definition latest :: "number_dp list \<Rightarrow> u64" where
  "latest dps = foldl max 0 (map n_time dps)"

definition rate_spec :: "number_dp list \<Rightarrow> f64" where
  "rate_spec dps = (let d = dur_seconds (sint (latest dps - first_start dps)) in
     if f_eq (total dps) (Fin 0) \<or> f_le d (Fin 0) then Fin 0 else f_div (total dps) d)"

definition max_spec :: "number_dp list \<Rightarrow> f64" where
  "max_spec dps = foldl (\<lambda>m v. if f_lt m v then v else m) (Fin 0) (map doubleValue dps)"

definition agg_spec :: "agg_type \<Rightarrow> number_dp list \<Rightarrow> f64" where
  "agg_spec typ dps =
     (if typ = Agg_Last then (if dps = [] then Fin 0 else doubleValue (last dps))
      else if typ = Agg_Sum then total dps
      else if typ = Agg_Max then max_spec dps
      else if typ = Agg_Rate then rate_spec (nonzero dps)
      else Fin 0)"

lemma DoubleValue_simps [simp]:
  "DoubleValue (SetDoubleValue to v) = v" "DoubleValue NewNumberDataPoint = Fin 0"
  "n_start (SetDoubleValue to v) = n_start to" "n_time (SetDoubleValue to v) = n_time to"
  "n_start NewNumberDataPoint = 0" "n_time NewNumberDataPoint = 0"
  by (simp_all add: DoubleValue_def SetDoubleValue_def NewNumberDataPoint_def)

lemma fold_last:
  "DoubleValue (fold (merge_number Agg_Last) dps to) = (if dps = [] then DoubleValue to else doubleValue (last dps))"
  by (induction dps arbitrary: to) (auto simp: merge_number_def)

lemma fold_sum:
  "DoubleValue (fold (merge_number Agg_Sum) dps to) = foldl f_add (DoubleValue to) (map doubleValue dps)"
  by (induction dps arbitrary: to) (auto simp: merge_number_def)

lemma fold_max:
  "DoubleValue (fold (merge_number Agg_Max) dps to) =
     foldl (\<lambda>m v. if f_lt m v then v else m) (DoubleValue to) (map doubleValue dps)"
  by (induction dps arbitrary: to) (auto simp: merge_number_def)

lemma fold_other:
  assumes "typ \<notin> {Agg_Last, Agg_Sum, Agg_Max, Agg_Rate}"
  shows "fold (merge_number typ) dps to = to"
  using assms by (induction dps arbitrary: to) (auto simp: merge_number_def)

lemma merge_rate_simps:
  assumes "\<not> f_eq (doubleValue dp) (Fin 0)"
  shows "DoubleValue (merge_rate dp to) = f_add (DoubleValue to) (doubleValue dp)"
    and "n_start (merge_rate dp to) = (if n_start to = 0 then begin_time dp else n_start to)"
    and "n_time (merge_rate dp to) = max (n_time to) (n_time dp)"
  using assms less_imp_le[of "n_time to" "n_time dp"]
  by (auto simp: merge_rate_def Let_def begin_time_def DoubleValue_def SetDoubleValue_def max_def)

lemma merge_rate_zero [simp]: "f_eq (doubleValue dp) (Fin 0) \<Longrightarrow> merge_rate dp to = to"
  by (simp add: merge_rate_def)

lemma nonzero_simps [simp]:
  "nonzero [] = []"
  "nonzero (dp # dps) = (if f_eq (doubleValue dp) (Fin 0) then nonzero dps else dp # nonzero dps)"
  by (simp_all add: nonzero_def)

lemma fold_rate:
  "DoubleValue (fold (merge_number Agg_Rate) dps to) =
     foldl f_add (DoubleValue to) (map doubleValue (nonzero dps)) \<and>
   n_time (fold (merge_number Agg_Rate) dps to) = foldl max (n_time to) (map n_time (nonzero dps)) \<and>
   n_start (fold (merge_number Agg_Rate) dps to) =
     (if n_start to \<noteq> 0 then n_start to else first_start (nonzero dps))"
proof (induction dps arbitrary: to)
  case (Cons dp dps)
  then show ?case
    by (cases "f_eq (doubleValue dp) (Fin 0)")
       (simp_all add: merge_number_def merge_rate_simps first_start_def)
qed (simp add: first_start_def)

lemma agg_spec_of_fold:
  "getNumAggByType typ (fold (merge_number typ) dps NewNumberDataPoint) = agg_spec typ dps"
proof -
  consider "typ = Agg_Last" | "typ = Agg_Sum" | "typ = Agg_Max" | "typ = Agg_Rate"
    | "typ \<notin> {Agg_Last, Agg_Sum, Agg_Max, Agg_Rate}" by blast
  then show ?thesis
  proof cases
    case 4
    then show ?thesis using fold_rate[of dps NewNumberDataPoint]
      by (simp add: getNumAggByType_def agg_spec_def rate_spec_def Let_def total_def latest_def)
  qed (simp_all add: getNumAggByType_def agg_spec_def fold_last fold_sum fold_max fold_other
         total_def max_spec_def)
qed

lemma agg_spec_feed:
  "dps \<noteq> [] \<Longrightarrow> feed typ dps None = Some (fold (merge_number typ) dps NewNumberDataPoint)"
  by (simp add: feed_def)

subsection \<open>Sequences of batches\<close>

lemma number_points_append: "number_points (xs @ ys) = number_points xs @ number_points ys"
  by (simp add: number_points_def)

lemma Add_entry:
  assumes "store_wf cs s" "Add ld s = Inr (t, ld')" "c \<in> set cs"
  shows "keyed_get (st_nums t) (Key c) g =
           feed (Type c) (seen c g (number_points ld)) (keyed_get (st_nums s) (Key c) g)"
proof -
  have "st_nums t = fold (point_step cs) (number_points ld) (st_nums s)"
    using Add_view[OF assms(2)] assms(1) by (simp add: store_wf_def num_view_def num_fold_def)
  then show ?thesis using fold_points_entry assms(1,3) by (simp add: store_wf_def cfgs_ok_def)
qed

lemma consume_all_entry:
  assumes "store_wf cs s" "consume_all lds s = Inr t" "c \<in> set cs"
  shows "store_wf cs t \<and> keyed_get (st_nums t) (Key c) g =
           feed (Type c) (seen c g (number_points (concat lds))) (keyed_get (st_nums s) (Key c) g)"
  using assms(1,2)
proof (induction lds arbitrary: s)
  case Nil
  then show ?case by (simp add: number_points_def)
next
  case (Cons ld lds)
  obtain u ld' where u: "Add ld s = Inr (u, ld')" "consume_all lds u = Inr t"
    using Cons.prems(2) by (auto simp: consumeMetrics_def res_bind_Inr_iff)
  show ?case
    using Cons.IH[OF Add_wf[OF Cons.prems(1) u(1)] u(2)] Add_entry[OF Cons.prems(1) u(1) assms(3)]
    by (simp add: number_points_append feed_append)
qed

lemma groups_keyed: "groups (m k) g = keyed_get m k g"
  by (simp add: groups_def keyed_get_def split: option.splits)

lemma Get_entry:
  assumes "store_wf cs s" "c \<in> set cs" "st_nums s (Key c) \<noteq> None \<or> st_hists s (Key c) \<noteq> None"
  shows "Get (Key c) s = Inr (query_entry c (groups (st_nums s (Key c))) (groups (st_hists s (Key c))))"
  using assms by_key_Some[of cs "Key c" c] by (auto simp: Get_def store_wf_def cfgs_ok_def)

lemma keyed_get_key: "keyed_get m k g = Some v \<Longrightarrow> m k \<noteq> None"
  by (auto simp: keyed_get_def split: option.splits)

text \<open>Queries meet the specification of the aggregation also beside histograms of other groups.  Create a store from configurations,
  feed it any sequence of batches that does not panic, and query a configured key: for every group
  that saw at least one number point and no histogram, the answer is the specified aggregate of
  exactly the points that match the configuration and fall in the group, in their order of arrival
  across resources, scopes, metrics and batches.\<close>

lemma query_meets_spec:
  assumes "\<forall>c \<in> set cs. labels_ok c" "NewStore cs = Inr s0" "consume_all lds s0 = Inr s" "c \<in> set cs"
    and "seen c g (number_points (concat lds)) \<noteq> []" "keyed_get (st_hists s) (Key c) g = None"
  shows "\<exists>m. Get (Key c) s = Inr m \<and>
     m g = Some (Inr (agg_spec (Type c) (seen c g (number_points (concat lds)))))"
proof -
  have "keyed_get (st_nums s0) (Key c) g = None"
    using assms(2) by (auto simp: NewStore_def res_bind_Inr_iff keyed_get_def)
  then have e: "store_wf cs s" "keyed_get (st_nums s) (Key c) g =
      Some (fold (merge_number (Type c)) (seen c g (number_points (concat lds))) NewNumberDataPoint)"
    using consume_all_entry[OF NewStore_wf[OF assms(1,2)] assms(3,4), of g] assms(5)
    by (simp_all add: agg_spec_feed)
  show ?thesis
    using Get_entry[OF e(1) assms(4)] keyed_get_key[OF e(2)] e(2) assms(6)
    by (simp add: query_entry_def groups_keyed agg_spec_of_fold)
qed

definition ex_sum_cfg :: agg_config where
  "ex_sum_cfg = \<lparr>Key = ''k'', Name = ''n'', MatchLabelValues = [], Type = Agg_Sum, Percentile = Fin 0, GroupBy = []\<rparr>"

definition ex_point :: "int \<Rightarrow> number_dp" where
  "ex_point i = \<lparr>n_value = NumInt i, n_start = 0, n_time = 0, n_attrs = []\<rparr>"

definition ex_gauge :: "string \<Rightarrow> int list \<Rightarrow> resource_metrics" where
  "ex_gauge n is = \<lparr>rm_attrs = [], rm_scopes = [[\<lparr>m_name = n, m_data = Gauge (map ex_point is)\<rparr>]]\<rparr>"

lemma ex_store: "\<exists>s0. NewStore [ex_sum_cfg] = Inr s0 \<and> labels_ok ex_sum_cfg"
  by (simp add: NewStore_def validateAndGroup_def group_step_def ex_sum_cfg_def validate_def IsValid_def
      labels_ok_def go_map_ok_def)

lemma ex_seen:
  "seen ex_sum_cfg [] (number_points (concat [[ex_gauge ''n'' [2, 3], ex_gauge ''other'' [7]], [ex_gauge ''n'' [5]]]))
     = [ex_point 2, ex_point 3, ex_point 5]"
  by (simp add: number_points_def resource_points_def ex_gauge_def ex_sum_cfg_def isEqualAttrs_def
      group_of_def ex_point_def)

lemma add_gauge:
  "\<exists>u. add_resource (ex_gauge n is) s = Inr (u, ex_gauge n is) \<and> st_hists u = st_hists s"
  by (simp add: add_resource_def ex_gauge_def add_metric_def)

lemma gauges_only:
  assumes "\<forall>ld \<in> set lds. \<forall>rm \<in> set ld. \<exists>n is. rm = ex_gauge n is"
  shows "\<exists>t. consume_all lds s = Inr t \<and> st_hists t = st_hists s"
proof -
  have l: "\<exists>u. Add ld s = Inr (u, ld) \<and> st_hists u = st_hists s"
    if "\<forall>rm \<in> set ld. \<exists>n is. rm = ex_gauge n is" for ld s
    using that
  proof (induction ld arbitrary: s)
    case (Cons rm ld)
    obtain n "is" u where u: "rm = ex_gauge n is" "add_resource rm s = Inr (u, rm)" "st_hists u = st_hists s"
      using Cons.prems add_gauge[of _ _ s] by (metis list.set_intros(1))
    then show ?case using Cons.IH[of u] Cons.prems by (auto simp: Add_def)
  qed (simp add: Add_def)
  show ?thesis using assms
  proof (induction lds arbitrary: s)
    case (Cons ld lds)
    obtain u where u: "Add ld s = Inr (u, ld)" "st_hists u = st_hists s" using Cons.prems l by (meson list.set_intros(1))
    then show ?case using Cons.IH[of u] Cons.prems by (auto simp: consumeMetrics_def)
  qed simp
qed

lemma query_meets_spec_witness:
  "\<exists>s0 s m. NewStore [ex_sum_cfg] = Inr s0
     \<and> consume_all [[ex_gauge ''n'' [2, 3], ex_gauge ''other'' [7]], [ex_gauge ''n'' [5]]] s0 = Inr s
     \<and> Get ''k'' s = Inr m \<and> m [] = Some (Inr (Fin 10))"
proof -
  let ?lds = "[[ex_gauge ''n'' [2, 3], ex_gauge ''other'' [7]], [ex_gauge ''n'' [5]]]"
  obtain s0 where s0: "NewStore [ex_sum_cfg] = Inr s0" "labels_ok ex_sum_cfg" using ex_store by blast
  obtain s where s: "consume_all ?lds s0 = Inr s" "st_hists s = st_hists s0"
    using gauges_only[of ?lds s0] by auto
  have h: "keyed_get (st_hists s) (Key ex_sum_cfg) [] = None"
    using s(2) s0(1) by (auto simp: NewStore_def res_bind_Inr_iff keyed_get_def)
  have spec: "agg_spec (Type ex_sum_cfg) [ex_point 2, ex_point 3, ex_point 5] = Fin 10"
    by (simp add: agg_spec_def ex_sum_cfg_def total_def ex_point_def doubleValue_def f_of_int_def)
  obtain m where "Get (Key ex_sum_cfg) s = Inr m" "m [] = Some (Inr (Fin 10))"
    using query_meets_spec[of "[ex_sum_cfg]" s0 ?lds s ex_sum_cfg "[]", unfolded ex_seen] s0 s(1) h spec
    by auto
  then show ?thesis using s0(1) s(1) by (auto simp: ex_sum_cfg_def)
qed

subsection \<open>Which points a configuration selects\<close>

text \<open>The two attribute maps as one: the point's attributes shadow the resource's.\<close>

definition attr_value :: "attrs \<Rightarrow> attrs \<Rightarrow> string \<Rightarrow> pvalue option" where
  "attr_value as res = map_of res ++ map_of as"

text \<open>Label matching.  A configuration whose label values form a Go map selects a point exactly
  when the metric name is the configured one and each configured label is present with a non-empty
  value whose string form is the configured one, the point's own attribute deciding when both maps
  have it.  The length test in the code never changes the answer, for attribute maps with distinct
  keys.\<close>

lemma isEqualAttrs_iff:
  assumes "labels_ok cfg"
  shows "isEqualAttrs cfg name as res \<longleftrightarrow>
     name = Name cfg \<and>
     (\<forall>(k, v) \<in> set (MatchLabelValues cfg). attr_value as res k = Some (PVal v))"
proof -
  have each: "\<not> (getValueFromMaps k [as, res] = PEmpty \<or> v \<noteq> AsString (getValueFromMaps k [as, res]))
      \<longleftrightarrow> attr_value as res k = Some (PVal v)" for k v
  proof (cases "(map_of res ++ map_of as) k")
    case (Some w)
    then show ?thesis by (cases w) (auto simp: getValueFromMaps_two attr_value_def)
  qed (simp add: getValueFromMaps_two attr_value_def del: map_add_None getValueFromMaps.simps)
  have long: "length (MatchLabelValues cfg) \<le> length as + length res"
    if "\<forall>(k, v) \<in> set (MatchLabelValues cfg). attr_value as res k = Some (PVal v)"
  proof -
    have "fst ` set (MatchLabelValues cfg) \<subseteq> fst ` set as \<union> fst ` set res"
      using that by (force simp: attr_value_def map_add_Some_iff dest: map_of_SomeD)
    then have "card (fst ` set (MatchLabelValues cfg)) \<le> card (fst ` set as \<union> fst ` set res)"
      by (intro card_mono) auto
    also have "\<dots> \<le> card (fst ` set as) + card (fst ` set res)" by (rule card_Un_le)
    also have "\<dots> \<le> length as + length res"
      by (metis add_mono card_length length_map set_map)
    finally show ?thesis
      using assms distinct_card[of "map fst (MatchLabelValues cfg)"]
      by (simp add: labels_ok_def go_map_ok_def)
  qed
  then have "\<not> length (MatchLabelValues cfg) > length as + length res"
    if "\<forall>(k, v) \<in> set (MatchLabelValues cfg). attr_value as res k = Some (PVal v)"
    using that by (simp add: not_less)
  then show ?thesis unfolding isEqualAttrs_def Let_def each list_all_iff by metis
qed

lemma isEqualAttrs_iff_witness:
  "isEqualAttrs (ex_cfg ''k'' Agg_Last (Fin 0)) ''latency'' [(''svc'', PVal ''api'')] [(''svc'', PVal ''db'')]
   \<and> \<not> isEqualAttrs (ex_cfg ''k'' Agg_Last (Fin 0)) ''latency'' [(''svc'', PEmpty)] [(''svc'', PVal ''api'')]"
  by (simp add: isEqualAttrs_iff[OF ex_cfg_labels_ok]) (simp add: ex_cfg_def attr_value_def)

subsection \<open>The maximum of negative values\<close>

lemma max_spec_nonpos:
  assumes "\<forall>dp \<in> set dps. \<not> f_lt (Fin 0) (doubleValue dp)"
  shows "max_spec dps = Fin 0"
proof -
  have "foldl (\<lambda>m v. if f_lt m v then v else m) (Fin 0) vs = Fin 0" if "\<forall>v \<in> set vs. \<not> f_lt (Fin 0) v" for vs
    using that by (induction vs) auto
  then show ?thesis using assms by (simp add: max_spec_def)
qed

text \<open>A maximum is never negative.  The entry starts at 0 and is only raised, so a \<open>max\<close>
  configuration that saw only negative (or NaN) values reports 0, a value that was never observed.\<close>

lemma max_of_negatives_is_zero:
  assumes "\<forall>c \<in> set cs. labels_ok c" "NewStore cs = Inr s0" "Add ld s0 = Inr (s, ld')" "c \<in> set cs"
    and "Type c = Agg_Max" "keyed_get (st_hists s) (Key c) g = None"
    and "seen c g (number_points ld) \<noteq> []"
    and "\<forall>dp \<in> set (seen c g (number_points ld)). f_lt (doubleValue dp) (Fin 0)"
  shows "\<exists>m. Get (Key c) s = Inr m \<and> m g = Some (Inr (Fin 0))"
proof -
  have "keyed_get (st_nums s0) (Key c) g = None"
    using assms(2) by (auto simp: NewStore_def res_bind_Inr_iff keyed_get_def)
  then have e: "keyed_get (st_nums s) (Key c) g =
      Some (fold (merge_number Agg_Max) (seen c g (number_points ld)) NewNumberDataPoint)"
    using Add_entry[OF NewStore_wf[OF assms(1,2)] assms(3,4), of g] assms(5,7) by (simp add: agg_spec_feed)
  have "\<not> f_lt (Fin 0) v" if "f_lt v (Fin 0)" for v using that by (cases v) auto
  then have "max_spec (seen c g (number_points ld)) = Fin 0" using assms(8) by (intro max_spec_nonpos) auto
  then have "getNumAggByType Agg_Max (fold (merge_number Agg_Max) (seen c g (number_points ld)) NewNumberDataPoint) = Fin 0"
    by (simp add: agg_spec_of_fold agg_spec_def)
  then show ?thesis
    using Get_entry[OF Add_wf[OF NewStore_wf[OF assms(1,2)] assms(3)] assms(4)] keyed_get_key[OF e] e assms(5,6)
    by (simp add: query_entry_def groups_keyed)
qed

definition ex_max_cfg :: agg_config where
  "ex_max_cfg = ex_sum_cfg\<lparr>Type := Agg_Max\<rparr>"

lemma max_of_negatives_is_zero_witness:
  "\<exists>s0 s m. NewStore [ex_max_cfg] = Inr s0 \<and> Add [ex_gauge ''n'' [- 3, - 5]] s0 = Inr (s, [ex_gauge ''n'' [- 3, - 5]])
     \<and> Get ''k'' s = Inr m \<and> m [] = Some (Inr (Fin 0))"
proof -
  let ?ld = "[ex_gauge ''n'' [- 3, - 5]]"
  obtain s0 where s0: "NewStore [ex_max_cfg] = Inr s0" "labels_ok ex_max_cfg"
    by (simp add: NewStore_def validateAndGroup_def group_step_def ex_sum_cfg_def ex_max_cfg_def validate_def
        IsValid_def labels_ok_def go_map_ok_def)
  obtain s where s: "Add ?ld s0 = Inr (s, ?ld)" "st_hists s = st_hists s0"
    using add_gauge[of "''n''" "[- 3, - 5]" s0] by (auto simp: Add_def)
  have h: "keyed_get (st_hists s) (Key ex_max_cfg) [] = None"
    using s(2) s0(1) by (auto simp: NewStore_def res_bind_Inr_iff keyed_get_def)
  have seen: "seen ex_max_cfg [] (number_points ?ld) = [ex_point (- 3), ex_point (- 5)]"
    by (simp add: number_points_def resource_points_def ex_gauge_def ex_sum_cfg_def ex_max_cfg_def
        isEqualAttrs_def group_of_def ex_point_def)
  have neg: "f_lt (doubleValue (ex_point (- 3))) (Fin 0)" "f_lt (doubleValue (ex_point (- 5))) (Fin 0)"
    using f64_round_of_int[of "- 3"] f64_round_of_int[of "- 5"]
    by (simp_all add: ex_point_def doubleValue_def f_of_int_def)
  have k: "Key ex_max_cfg = ''k''" "Type ex_max_cfg = Agg_Max" by (simp_all add: ex_max_cfg_def ex_sum_cfg_def)
  from max_of_negatives_is_zero[of "[ex_max_cfg]" s0 ?ld s ?ld ex_max_cfg "[]"]
  show ?thesis using s0 s h seen neg k by auto
qed

subsection \<open>Reset\<close>

text \<open>What a reset leaves.  After \<open>Reset\<close> every configured key answers from the histograms
  alone: number entries are gone, histogram entries (sums and percentiles) are still there although
  the operation is to delete all cached data.\<close>

lemma reset_keeps_histograms:
  "Get k (Reset s) =
     (case st_keyM s k of
        None \<Rightarrow> Inl (''key '' @ k @ '' is not configured'')
      | Some c \<Rightarrow>
          (case st_hists s k of
             None \<Rightarrow> Inr [[] \<mapsto> Inr (Fin 0)]
           | Some h \<Rightarrow> Inr (\<lambda>g. map_option (getHistAggByType (Type c) (Percentile c)) (h g))))"
  by (auto simp: Get_def Reset_def query_entry_def groups_def fun_eq_iff split: option.splits)

subsection \<open>Histograms and configurations that do not aggregate them\<close>

lemma merge_hist_cfg_other:
  assumes "Type c \<noteq> Agg_Sum" "Type c \<noteq> Agg_Percentile"
  shows "merge_hist_cfg as res c (h, f) =
     Inr (case keyed_get h (Key c) (group_of c as res) of
            Some _ \<Rightarrow> h | None \<Rightarrow> put h (Key c) (group_of c as res) NewHistogramDataPoint, f)"
  using assms by (simp add: merge_hist_cfg_def getMergeTo_eq split: option.splits)

text \<open>An unsupported combination is not ignored.  When a histogram point reaches a configuration
  of type last, rate or max, the code warns and skips the merge, but the empty entry it created for
  the group stays, and from then on queries of that group answer 0 whatever number points were or
  will be merged.\<close>

lemma unsupported_histogram_shadows_numbers:
  assumes "Type c \<in> {Agg_Last, Agg_Rate, Agg_Max}" "st_keyM s (Key c) = Some c"
    and "merge_hist_cfg as res c (st_hists s, from) = Inr (h, from')"
    and "keyed_get (st_hists s) (Key c) (group_of c as res) = None"
  shows "from' = from \<and>
    (\<forall>nums. \<exists>m. Get (Key c) (s\<lparr>st_hists := h, st_nums := nums\<rparr>) = Inr m
       \<and> m (group_of c as res) = Some (Inr (Fin 0)))"
proof -
  have t: "Type c \<noteq> Agg_Sum" "Type c \<noteq> Agg_Percentile" using assms(1) by auto
  have h: "h = put (st_hists s) (Key c) (group_of c as res) NewHistogramDataPoint" "from' = from"
    using assms(3,4) by (simp_all add: merge_hist_cfg_other[OF t])
  then have g: "groups (h (Key c)) (group_of c as res) = Some NewHistogramDataPoint"
    by (simp add: groups_keyed)
  have "h (Key c) \<noteq> None" using h(1) by (simp add: put_def)
  then show ?thesis using g h(2) t assms(2)
    by (auto simp: Get_def query_entry_def getHistAggByType_def)
qed

definition ex_last_store :: store where
  "ex_last_store = \<lparr>st_nameM = by_name [ex_sum_cfg\<lparr>Type := Agg_Last\<rparr>], st_keyM = [''k'' \<mapsto> ex_sum_cfg\<lparr>Type := Agg_Last\<rparr>],
     st_nums = put Map.empty ''k'' [] (SetDoubleValue NewNumberDataPoint (Fin 7)), st_hists = Map.empty\<rparr>"

lemma unsupported_histogram_shadows_numbers_witness:
  "\<exists>h m m0. merge_hist_cfg [] [] (ex_sum_cfg\<lparr>Type := Agg_Last\<rparr>) (st_hists ex_last_store, ex_hist [1])
       = Inr (h, ex_hist [1])
     \<and> Get ''k'' ex_last_store = Inr m0 \<and> m0 [] = Some (Inr (Fin 7))
     \<and> Get ''k'' (ex_last_store\<lparr>st_hists := h\<rparr>) = Inr m \<and> m [] = Some (Inr (Fin 0))"
proof -
  let ?c = "ex_sum_cfg\<lparr>Type := Agg_Last\<rparr>" and ?s = ex_last_store
  have c: "Type ?c = Agg_Last" "Key ?c = ''k''" "group_of ?c [] [] = []" "st_keyM ?s (Key ?c) = Some ?c"
    "keyed_get (st_hists ?s) (Key ?c) (group_of ?c [] []) = None"
    by (simp_all add: ex_sum_cfg_def group_of_def ex_last_store_def keyed_get_def)
  obtain h where h: "merge_hist_cfg [] [] ?c (st_hists ?s, ex_hist [1]) = Inr (h, ex_hist [1])"
    using c(1) by (simp add: merge_hist_cfg_other)
  obtain m where "Get (Key ?c) (?s\<lparr>st_hists := h, st_nums := st_nums ?s\<rparr>) = Inr m" "m (group_of ?c [] []) = Some (Inr (Fin 0))"
    using unsupported_histogram_shadows_numbers[of ?c ?s "[]" "[]" "ex_hist [1]" h "ex_hist [1]"] c h by blast
  moreover have "\<exists>m0. Get ''k'' ?s = Inr m0 \<and> m0 [] = Some (Inr (Fin 7))"
    using c(1) by (simp add: Get_def ex_last_store_def put_def query_entry_def groups_def getNumAggByType_def)
  ultimately show ?thesis using h c by (auto simp: ex_last_store_def)
qed

end
