(* ===== verification/TelemetryServer.thy ===== *)
theory TelemetryServer
  imports StoreQueries
begin

section \<open>Serving and reading the store (otelinmemexporter/http.go, apmbench/telemetry.go)\<close>

text \<open>
  The HTTP handlers use the store through the interface \<open>metricsStore\<close>; the locale states what they
  and the benchmark's client rely on, and it is interpreted on the store.  A handler's outcome is a
  response, or an aborted connection when it panics (net/http recovers the panic and sends nothing).
  A body is what JSON transports: the map of results, an error text, or nothing.  encoding/json
  rejects NaN and infinities and has then written nothing.  Keys and groups are taken to be valid
  UTF-8, which JSON carries unchanged, as it does a finite float64.
\<close>

type_synonym results = "string \<rightharpoonup> panic + f64"
type_synonym numbers = "string \<rightharpoonup> f64"

datatype body = Body_Empty | Body_Values "string \<rightharpoonup> numbers" | Body_Err string
datatype handled = Response nat body | Aborted

definition query_panics :: "results \<Rightarrow> bool" where
  "query_panics m \<longleftrightarrow> (\<exists>g \<in> dom m. case m g of Some (Inl p) \<Rightarrow> True | _ \<Rightarrow> False)"

definition plain :: "results \<Rightarrow> numbers" where
  "plain m = (\<lambda>g. case m g of Some (Inr x) \<Rightarrow> Some x | _ \<Rightarrow> None)"

definition json_encodes :: "numbers \<Rightarrow> bool" where
  "json_encodes m \<longleftrightarrow> (\<forall>g \<in> dom m. case m g of Some (Fin x) \<Rightarrow> True | _ \<Rightarrow> False)"

definition handle_all :: "('s \<Rightarrow> string \<rightharpoonup> results) \<Rightarrow> 's \<Rightarrow> handled" where
  "handle_all get_all s =
     (let m = get_all s in
      if \<exists>k \<in> dom m. query_panics (the (m k)) then Aborted
      else let vals = map_option plain \<circ> m in
        if \<forall>k \<in> dom vals. json_encodes (the (vals k)) then Response 200 (Body_Values vals)
        else Response 500 Body_Empty)"

definition handle_key :: "(string \<Rightarrow> 's \<Rightarrow> string + results) \<Rightarrow> string \<Rightarrow> 's \<Rightarrow> handled" where
  "handle_key get key s =
     (case get key s of
        Inl err \<Rightarrow> Response 400 (Body_Err err)
      | Inr m \<Rightarrow>
          if query_panics m then Aborted
          else if json_encodes (plain m) then Response 200 (Body_Values [key \<mapsto> plain m])
          else Response 500 Body_Empty)"

definition handle_reset :: "('s \<Rightarrow> 's) \<Rightarrow> 's \<Rightarrow> 's \<times> handled" where
  "handle_reset reset s = (reset s, Response 200 Body_Empty)"

subsection \<open>The client\<close>

datatype client_error = ErrTransport | ErrDecode | ErrStatus nat | ErrCount nat | ErrReset

fun decode_body :: "body \<Rightarrow> client_error + (string \<rightharpoonup> numbers)" where
  "decode_body (Body_Values m) = Inr m"
| "decode_body (Body_Err _) = Inl ErrDecode"
| "decode_body Body_Empty = Inl ErrDecode"

definition telemetry_GetAll :: "handled \<Rightarrow> client_error + (string \<rightharpoonup> numbers)" where
  "telemetry_GetAll resp =
     (case resp of
        Aborted \<Rightarrow> Inl ErrTransport
      | Response st b \<Rightarrow> if st div 100 = 2 then decode_body b else Inl (ErrStatus st))"

definition telemetry_Get :: "string \<Rightarrow> handled \<Rightarrow> client_error + numbers" where
  "telemetry_Get key resp =
     (case resp of
        Aborted \<Rightarrow> Inl ErrTransport
      | Response st b \<Rightarrow>
          if st div 100 = 2 then
            res_bind (decode_body b) (\<lambda>m.
            if card (dom m) \<noteq> 1 then Inl (ErrCount (card (dom m)))
            else Inr (case m key of Some v \<Rightarrow> v | None \<Rightarrow> Map.empty))
          else Inl (ErrStatus st))"

definition telemetry_Reset :: "handled \<Rightarrow> client_error option" where
  "telemetry_Reset resp =
     (case resp of Aborted \<Rightarrow> Some ErrReset | Response st b \<Rightarrow> if st \<noteq> 200 then Some ErrReset else None)"

subsection \<open>The interface between the two\<close>

locale metrics_store =
  fixes get_all :: "'s \<Rightarrow> string \<rightharpoonup> results"
    and get :: "string \<Rightarrow> 's \<Rightarrow> string + results"
    and reset :: "'s \<Rightarrow> 's"
  assumes get_agrees: "get k s = (case get_all s k of
      None \<Rightarrow> Inl (''key '' @ k @ '' is not configured'') | Some m \<Rightarrow> Inr m)"
    and reset_keys: "dom (get_all (reset s)) = dom (get_all s)"
begin

definition answers :: "'s \<Rightarrow> string \<Rightarrow> numbers \<Rightarrow> bool" where
  "answers s k v \<longleftrightarrow>
     (\<exists>m. get_all s k = Some m \<and> \<not> query_panics m \<and> json_encodes (plain m) \<and> v = plain m)"

lemma client_Get_iff: "telemetry_Get k (handle_key get k s) = Inr v \<longleftrightarrow> answers s k v"
  by (auto simp: telemetry_Get_def handle_key_def get_agrees answers_def split: option.splits)

lemma client_Get_unconfigured:
  "telemetry_Get k (handle_key get k s) = Inl (ErrStatus 400) \<longleftrightarrow> get_all s k = None"
  by (auto simp: telemetry_Get_def handle_key_def get_agrees split: option.splits)

lemma client_GetAll_iff:
  "telemetry_GetAll (handle_all get_all s) = Inr vals \<longleftrightarrow>
     (\<forall>k. case get_all s k of None \<Rightarrow> vals k = None
        | Some m \<Rightarrow> vals k = Some (plain m) \<and> \<not> query_panics m \<and> json_encodes (plain m))"
    (is "?L \<longleftrightarrow> ?R")
proof
  assume L: ?L
  have p: "\<forall>k \<in> dom (get_all s). \<not> query_panics (the (get_all s k))"
    and j: "\<forall>k \<in> dom (get_all s). json_encodes (the (map_option plain (get_all s k)))"
    and v: "vals = map_option plain \<circ> get_all s"
    using L by (auto simp: telemetry_GetAll_def handle_all_def Let_def split: if_splits)
  have j: "\<forall>k \<in> dom (get_all s). json_encodes (plain (the (get_all s k)))" using j by (force simp: dom_def)
  have "\<not> query_panics m \<and> json_encodes (plain m)" if "get_all s k = Some m" for k m
    using p[rule_format, of k] j[rule_format, of k] that by (simp add: domI)
  then show ?R by (simp add: v split: option.splits)
next
  assume R: ?R
  have d: "\<not> query_panics (the (get_all s k))" "json_encodes (plain (the (get_all s k)))"
    if "k \<in> dom (get_all s)" for k using R[rule_format, of k] that by auto
  have "vals k = (map_option plain \<circ> get_all s) k" for k
    using R[rule_format, of k] by (cases "get_all s k") auto
  then have v: "vals = map_option plain \<circ> get_all s" by blast
  have j: "\<forall>k \<in> dom (map_option plain \<circ> get_all s). json_encodes (the ((map_option plain \<circ> get_all s) k))"
  proof
    fix k assume "k \<in> dom (map_option plain \<circ> get_all s)"
    then obtain m where "get_all s k = Some m" by auto
    then show "json_encodes (the ((map_option plain \<circ> get_all s) k))" using d(2)[of k] by auto
  qed
  have p: "\<not> (\<exists>k \<in> dom (get_all s). query_panics (the (get_all s k)))" using d(1) by blast
  show ?L unfolding telemetry_GetAll_def handle_all_def Let_def if_not_P[OF p] if_P[OF j] v by simp
qed

lemma GetAll_each:
  "telemetry_GetAll (handle_all get_all s) = Inr vals \<Longrightarrow> vals k = Some v \<Longrightarrow> answers s k v"
  unfolding client_GetAll_iff answers_def by (metis (mono_tags, lifting) option.case_eq_if option.inject
      option.collapse option.discI)

lemma one_bad_value:
  assumes "get_all s k = Some m" "\<not> query_panics m" "\<not> json_encodes (plain m)"
  shows "\<not> is_ok (telemetry_GetAll (handle_all get_all s))"
  using client_GetAll_iff[of s] assms by (metis (mono_tags, lifting) is_ok_iff option.simps(5))

lemma reset_unconfigured:
  "snd (handle_reset reset s) = Response 200 Body_Empty \<and>
   (telemetry_Get k (handle_key get k (fst (handle_reset reset s))) = Inl (ErrStatus 400)
     \<longleftrightarrow> get_all s k = None)"
  using reset_keys[of s] by (auto simp: client_Get_unconfigured handle_reset_def)

end

interpretation ms: metrics_store GetAll Get Reset
proof unfold_locales
  show "Get k s = (case GetAll s k of None \<Rightarrow> Inl (''key '' @ k @ '' is not configured'') | Some m \<Rightarrow> Inr m)"
    for k s by (simp add: Get_def GetAll_def split: option.splits)
  have "GetAll s k = None \<longleftrightarrow> st_keyM s k = None" for s k by (simp add: GetAll_def split: option.splits)
  moreover have "st_keyM (Reset s) = st_keyM s" for s by (simp add: Reset_def)
  ultimately show "dom (GetAll (Reset s)) = dom (GetAll s)" for s by (simp add: set_eq_iff domIff)
qed

subsection \<open>Properties\<close>


lemma buckets_loop_panic:
  "is_ok (buckets_loop counts (int i) bounds) \<longleftrightarrow> bounds = [] \<or> i + length bounds \<le> length counts"
proof (induction bounds arbitrary: i)
  case (Cons ub bounds)
  have step: "buckets_loop counts (int i) (ub # bounds) =
      res_bind (slice_at counts (int i)) (\<lambda>c.
      res_bind (buckets_loop counts (int (Suc i)) bounds) (\<lambda>bs. Inr (\<lparr>UpperBound = ub, Count = c\<rparr> # bs)))"
    by (simp add: add.commute)
  show ?case
  proof (cases "i < length counts")
    case True
    then show ?thesis unfolding step using Cons.IH[of "Suc i"]
      by (cases "buckets_loop counts (int (Suc i)) bounds") auto
  next
    case False
    then show ?thesis unfolding step by simp
  qed
qed simp

lemma explicitBuckets_ok_iff:
  "is_ok (explicitBucketsFromHistogramDataPoint dp) \<longleftrightarrow>
     h_buckets dp \<noteq> [] \<and> length (h_bounds dp) \<le> length (h_buckets dp)"
proof -
  have l: "is_ok (slice_at (h_buckets dp) (int (length (h_buckets dp)) - 1)) \<longleftrightarrow> h_buckets dp \<noteq> []"
    by (cases "h_buckets dp") (simp_all add: slice_at_def)
  have b: "is_ok (buckets_loop (h_buckets dp) 0 (h_bounds dp)) \<longleftrightarrow>
      h_bounds dp = [] \<or> length (h_bounds dp) \<le> length (h_buckets dp)"
    using buckets_loop_panic[of "h_buckets dp" 0 "h_bounds dp"] by simp
  have "is_ok (explicitBucketsFromHistogramDataPoint dp) \<longleftrightarrow>
      is_ok (buckets_loop (h_buckets dp) 0 (h_bounds dp)) \<and>
      is_ok (slice_at (h_buckets dp) (int (length (h_buckets dp)) - 1))"
    unfolding explicitBucketsFromHistogramDataPoint_def
    by (cases "buckets_loop (h_buckets dp) 0 (h_bounds dp)";
        cases "slice_at (h_buckets dp) (int (length (h_buckets dp)) - 1)") auto
  then show ?thesis unfolding l b by auto
qed

lemma percentile_panics:
  "(\<exists>p. getHistAggByType Agg_Percentile q dp = Inl p) \<longleftrightarrow>
     h_buckets dp = [] \<or> length (h_buckets dp) < length (h_bounds dp)"
proof (cases "explicitBucketsFromHistogramDataPoint dp")
  case (Inl p)
  then show ?thesis using explicitBuckets_ok_iff[of dp] by (auto simp: getHistAggByType_def)
next
  case (Inr bs)
  obtain v where "deltaExplicitBucketsQuantile (f_div q (Fin 100)) bs = Inr v" using quantile_total by blast
  then show ?thesis using explicitBuckets_ok_iff[of dp] Inr by (simp add: getHistAggByType_def)
qed

lemma GetAll_entry:
  assumes "st_keyM s k = Some c" "keyed_get (st_hists s) k g = Some dp"
  shows "\<exists>m. GetAll s k = Some m \<and> Get k s = Inr m \<and> m g = Some (getHistAggByType (Type c) (Percentile c) dp)"
proof -
  have "groups (st_hists s k) g = Some dp" using assms(2) by (simp add: groups_keyed)
  then have "query_entry c nums (groups (st_hists s k)) g = Some (getHistAggByType (Type c) (Percentile c) dp)" for nums
    by (simp add: query_entry_def)
  then show ?thesis using assms(1) keyed_get_key[OF assms(2)] by (auto simp: GetAll_def Get_def)
qed

text \<open>C28 (when a percentile query panics).  The value of a percentile query of a stored histogram is
  a panic exactly when the histogram has no bucket counts or fewer counts than bounds; the HTTP
  handler then aborts the connection, for the key and for the query of all keys alike.\<close>

theorem percentile_query_panics_iff:
  assumes "st_keyM s k = Some c" "Type c = Agg_Percentile" "keyed_get (st_hists s) k g = Some dp"
  shows "\<exists>m. Get k s = Inr m \<and>
     ((\<exists>p. m g = Some (Inl p)) \<longleftrightarrow> h_buckets dp = [] \<or> length (h_buckets dp) < length (h_bounds dp)) \<and>
     (h_buckets dp = [] \<or> length (h_buckets dp) < length (h_bounds dp) \<longrightarrow>
        handle_key Get k s = Aborted \<and> handle_all GetAll s = Aborted)"
proof -
  obtain m where m: "GetAll s k = Some m" "Get k s = Inr m"
    "m g = Some (getHistAggByType Agg_Percentile (Percentile c) dp)"
    using GetAll_entry[OF assms(1,3)] assms(2) by auto
  have iff: "(\<exists>p. m g = Some (Inl p)) \<longleftrightarrow> h_buckets dp = [] \<or> length (h_buckets dp) < length (h_bounds dp)"
    using percentile_panics[of "Percentile c" dp] m(3) by auto
  have "query_panics m" if "m g = Some (Inl p)" for p
    using that by (auto simp: query_panics_def intro!: bexI[of _ g])
  then have "handle_key Get k s = Aborted \<and> handle_all GetAll s = Aborted" if "m g = Some (Inl p)" for p
    using that m(1,2) by (auto simp: handle_key_def handle_all_def Let_def intro!: bexI[of _ k])
  then show ?thesis using m(2) iff by blast
qed

definition ex_p_store :: "hist_dp \<Rightarrow> store" where
  "ex_p_store dp = \<lparr>st_nameM = Map.empty, st_keyM = [''p'' \<mapsto> ex_cfg ''p'' Agg_Percentile (Fin 50)],
     st_nums = Map.empty, st_hists = put Map.empty ''p'' [] dp\<rparr>"

lemma ex_p_store_facts:
  "st_keyM (ex_p_store dp) ''p'' = Some (ex_cfg ''p'' Agg_Percentile (Fin 50))"
  "Type (ex_cfg ''p'' Agg_Percentile (Fin 50)) = Agg_Percentile"
  "keyed_get (st_hists (ex_p_store dp)) ''p'' [] = Some dp"
  by (simp_all add: ex_p_store_def ex_cfg_def)

theorem percentile_query_panics_iff_witness:
  "handle_key Get ''p'' (ex_p_store NewHistogramDataPoint) = Aborted
   \<and> handle_all GetAll (ex_p_store NewHistogramDataPoint) = Aborted"
proof -
  have "h_buckets NewHistogramDataPoint = []" by (simp add: NewHistogramDataPoint_def)
  then show ?thesis using percentile_query_panics_iff[OF ex_p_store_facts, of NewHistogramDataPoint] by blast
qed

text \<open>One value that JSON cannot carry fails the whole listing.  When some configured key has a
  group whose value is NaN or infinite, reading all keys fails with status 500 or an aborted
  connection, and the client gets no values at all, not even of the other keys.\<close>

lemma listing_fails_on_nonfinite:
  assumes "GetAll s k = Some m" "m g = Some (Inr x)" "x = F_NaN \<or> x = F_PosInf \<or> x = F_NegInf"
  shows "handle_all GetAll s \<in> {Aborted, Response 500 Body_Empty}
     \<and> \<not> is_ok (telemetry_GetAll (handle_all GetAll s))"
proof -
  have p: "plain m g = Some x" using assms(2) by (simp add: plain_def)
  then have "\<not> json_encodes (plain m)"
    using assms(3) unfolding json_encodes_def by (auto intro!: bexI[of _ g])
  then have n: "\<not> (\<forall>k \<in> dom (map_option plain \<circ> GetAll s). json_encodes (the ((map_option plain \<circ> GetAll s) k)))"
    using assms(1) by (intro notI, drule_tac x = k in bspec) auto
  show ?thesis unfolding handle_all_def Let_def if_not_P[OF n] by (auto simp: telemetry_GetAll_def)
qed

lemma ex_p_store_nan: "getHistAggByType Agg_Percentile (Fin 50) (ex_hist [0, 0, 0]) = Inr F_NaN"
  using f64_round_dyadic[of 1 1]
  by (simp add: getHistAggByType_def explicitBucketsFromHistogramDataPoint_def ex_hist_def slice_at_def
      NewHistogramDataPoint_def deltaExplicitBucketsQuantile_def quantile_sorted_def)

lemma listing_fails_on_nonfinite_witness:
  "handle_all GetAll (ex_p_store (ex_hist [0, 0, 0])) \<in> {Aborted, Response 500 Body_Empty}
     \<and> \<not> is_ok (telemetry_GetAll (handle_all GetAll (ex_p_store (ex_hist [0, 0, 0]))))"
proof -
  have v: "getHistAggByType (Type (ex_cfg ''p'' Agg_Percentile (Fin 50)))
      (Percentile (ex_cfg ''p'' Agg_Percentile (Fin 50))) (ex_hist [0, 0, 0]) = Inr F_NaN"
    using ex_p_store_nan by (simp add: ex_cfg_def)
  obtain m where "GetAll (ex_p_store (ex_hist [0, 0, 0])) ''p'' = Some m" "m [] = Some (Inr F_NaN)"
    using GetAll_entry[OF ex_p_store_facts(1,3), of "ex_hist [0, 0, 0]"] unfolding v by blast
  from listing_fails_on_nonfinite[OF this] show ?thesis by simp
qed

text \<open>A reset keeps the configured keys.  The reset handler answers 200, and afterwards a key is
  answered with status 400 exactly when it was not configured before.\<close>

lemma reset_then_get:
  "snd (handle_reset Reset s) = Response 200 Body_Empty \<and>
   (telemetry_Get k (handle_key Get k (fst (handle_reset Reset s))) = Inl (ErrStatus 400)
      \<longleftrightarrow> GetAll s k = None)"
  by (rule ms.reset_unconfigured)

end
