(* ===== verification/Flags.thy ===== *)
theory Flags
  imports EventRate Randomize "HOL-Library.AList" "HOL-Library.Char_ord" "HOL-Library.List_Lexorder" "HOL-Library.Multiset"
begin

section \<open>Flags, environment variables and headers (loadgen/config, cmd/apmsoak, cmd/apmtelemetrygen)\<close>

text \<open>
  The shared flags of \<open>loadgen/config\<close> and their defaults from the environment, the repeated
  \<open>header\<close> flag of the commands, and the lookup of a command's flags in the environment.  A URL is
  what the code reads of \<open>url.URL\<close>; \<open>url.Parse\<close> is a parameter.  A Go map of headers is a list of
  pairs with distinct keys, updated with \<open>AList.update\<close>.
\<close>

record go_url =
  u_Scheme :: string
  u_Host :: string
  u_Port :: string
  u_String :: string

text \<open>\<open>strconv.ParseBool\<close>; \<open>flag.BoolVar\<close> stores \<open>false\<close> with the error of an invalid value.\<close>

definition parse_bool :: "string \<Rightarrow> bool option" where
  "parse_bool s =
     (if s \<in> {''1'', ''t'', ''T'', ''true'', ''TRUE'', ''True''} then Some True
      else if s \<in> {''0'', ''f'', ''F'', ''false'', ''FALSE'', ''False''} then Some False
      else None)"

subsection \<open>The header flag\<close>

definition headersFlag_Set :: "string \<Rightarrow> go_map \<Rightarrow> string option \<times> go_map" where
  "headersFlag_Set s f =
     (case cut1 CHR ''='' s of (k, v, ok) \<Rightarrow>
        if \<not> ok then (Some (''expected k=v, got '' @ s), f)
        else (None, AList.update k v f))"

definition headersFlag_String :: "go_map \<Rightarrow> string" where
  "headersFlag_String f =
     join_with '','' (map (\<lambda>k. k @ ''='' @ the (map_of f k)) (sort (map fst f)))"

definition Gen_headersFlag_Set :: "string \<Rightarrow> go_map \<Rightarrow> string option \<times> go_map" where
  "Gen_headersFlag_Set s f =
     (case cut1 CHR ''='' s of (k, v, ok) \<Rightarrow>
        if ok then (None, AList.update k v f) else (Some (''expected k=v, got '' @ s), f))"

definition Gen_headersFlag_String :: "go_map \<Rightarrow> string" where
  "Gen_headersFlag_String f =
     (let keys = sort (map fst f) in join_with '','' (map (\<lambda>k. k @ ''='' @ the (map_of f k)) keys))"

subsection \<open>The variables of the shared flags\<close>

record load_config =
  C_ServerURL :: "go_url option"
  C_SecretToken :: string
  C_APIKey :: string
  C_Secure :: bool
  C_EventRate :: rate_flag
  C_IgnoreErrors :: bool
  C_RewriteIDs :: bool
  C_RewriteTimestamps :: bool
  C_RewriteServiceNames :: bool
  C_RewriteServiceNodeNames :: bool
  C_RewriteServiceTargetNames :: bool
  C_RewriteSpanNames :: bool
  C_RewriteTransactionNames :: bool
  C_RewriteTransactionTypes :: bool
  C_Headers :: go_map

text \<open>The values after the flags are declared: zero values and the defaults of \<open>flag.BoolVar\<close>.\<close>

definition declared_config :: load_config where
  "declared_config =
     \<lparr>C_ServerURL = None, C_SecretToken = [], C_APIKey = [], C_Secure = False, C_EventRate = \<lparr>Burst = 0, Interval = 0\<rparr>,
      C_IgnoreErrors = False, C_RewriteIDs = True, C_RewriteTimestamps = True, C_RewriteServiceNames = False,
      C_RewriteServiceNodeNames = False, C_RewriteServiceTargetNames = False, C_RewriteSpanNames = False,
      C_RewriteTransactionNames = False, C_RewriteTransactionTypes = False, C_Headers = []\<rparr>"

definition replace_char :: "char \<Rightarrow> char \<Rightarrow> string \<Rightarrow> string" where
  "replace_char a b s = map (\<lambda>c. if c = a then b else c) s"

definition rewrite_flag :: "string \<Rightarrow> string" where
  "rewrite_flag field = ''rewrite-'' @ replace_char CHR ''.'' CHR ''-'' field @ ''s''"

datatype flag_error = FlagUnknown | FlagURL string | FlagBool | FlagRate rate_error | FlagHeader string

definition set_bool :: "(bool \<Rightarrow> load_config) \<Rightarrow> string \<Rightarrow> flag_error option \<times> load_config" where
  "set_bool upd v = (case parse_bool v of Some b \<Rightarrow> (None, upd b) | None \<Rightarrow> (Some FlagBool, upd False))"

text \<open>\<open>rewriteNames\<close>: the variable each rewritten field sets.\<close>

definition rewriteNames :: "(string \<times> ((bool \<Rightarrow> bool) \<Rightarrow> load_config \<Rightarrow> load_config)) list" where
  "rewriteNames =
     [(''service.name'', C_RewriteServiceNames_update), (''service.node.name'', C_RewriteServiceNodeNames_update),
      (''service.target.name'', C_RewriteServiceTargetNames_update), (''span.name'', C_RewriteSpanNames_update),
      (''transaction.name'', C_RewriteTransactionNames_update), (''transaction.type'', C_RewriteTransactionTypes_update)]"

definition set_server :: "(string \<Rightarrow> string + go_url) \<Rightarrow> string \<Rightarrow> load_config \<Rightarrow> flag_error option \<times> load_config" where
  "set_server parse_url server c =
     (if server \<noteq> [] then
        (case parse_url server of
           Inl e \<Rightarrow> (Some (FlagURL e), c\<lparr>C_ServerURL := None\<rparr>)
         | Inr u \<Rightarrow> (None, c\<lparr>C_ServerURL := Some u\<rparr>))
      else (None, c))"

definition set_header :: "string \<Rightarrow> load_config \<Rightarrow> flag_error option \<times> load_config" where
  "set_header s c =
     (case cut1 CHR ''='' s of (k, v, ok) \<Rightarrow>
        if \<not> ok then (Some (FlagHeader s), c)
        else (None, c\<lparr>C_Headers := AList.update k v (C_Headers c)\<rparr>))"

text \<open>\<open>flag.Set\<close> on the flags \<open>init\<close> declares.\<close>

definition flag_Set :: "(string \<Rightarrow> string + go_url) \<Rightarrow> string \<Rightarrow> string \<Rightarrow> load_config \<Rightarrow> flag_error option \<times> load_config" where
  "flag_Set parse_url name v c =
     (if name = ''server'' then set_server parse_url v c
      else if name = ''secret-token'' then (None, c\<lparr>C_SecretToken := v\<rparr>)
      else if name = ''api-key'' then (None, c\<lparr>C_APIKey := v\<rparr>)
      else if name = ''secure'' then set_bool (\<lambda>b. c\<lparr>C_Secure := b\<rparr>) v
      else if name = ''rewrite-timestamps'' then set_bool (\<lambda>b. c\<lparr>C_RewriteTimestamps := b\<rparr>) v
      else if name = ''rewrite-ids'' then set_bool (\<lambda>b. c\<lparr>C_RewriteIDs := b\<rparr>) v
      else if name = ''header'' then set_header v c
      else if name = ''event-rate'' then
        (case RateFlag_Set (C_EventRate c) v of
           Inl e \<Rightarrow> (Some (FlagRate e), c)
         | Inr r \<Rightarrow> (None, c\<lparr>C_EventRate := r\<rparr>))
      else if name = ''ignore-errors'' then set_bool (\<lambda>b. c\<lparr>C_IgnoreErrors := b\<rparr>) v
      else (case find (\<lambda>(field, upd). name = rewrite_flag field) rewriteNames of
              Some (field, upd) \<Rightarrow> set_bool (\<lambda>b. upd (\<lambda>_. b) c) v
            | None \<Rightarrow> (Some FlagUnknown, c)))"

definition getEnvOrDefault :: "(string \<Rightarrow> string) \<Rightarrow> string \<Rightarrow> string \<Rightarrow> string" where
  "getEnvOrDefault getenv name defaultValue =
     (let value = getenv name in if value \<noteq> [] then value else defaultValue)"

definition flagEnvMap :: "(string \<times> string \<times> string) list" where
  "flagEnvMap =
     [(''server'', ''ELASTIC_APM_SERVER_URL'', ''http://127.0.0.1:8200''),
      (''secret-token'', ''ELASTIC_APM_SECRET_TOKEN'', ''''),
      (''api-key'', ''ELASTIC_APM_API_KEY'', ''''),
      (''secure'', ''ELASTIC_APM_VERIFY_SERVER_CERT'', ''false'')]"

text \<open>The loop over the map, in the order one \<open>range\<close> visits it; the error of \<open>flag.Set\<close> is dropped.\<close>

definition setFlagsFromEnv ::
    "(string \<Rightarrow> string + go_url) \<Rightarrow> (string \<Rightarrow> string) \<Rightarrow> (string \<times> string \<times> string) list \<Rightarrow> load_config \<Rightarrow> load_config" where
  "setFlagsFromEnv parse_url getenv flags c =
     fold (\<lambda>(k, env, dflt) c. snd (flag_Set parse_url k (getEnvOrDefault getenv env dflt) c)) flags c"

subsection \<open>The flags of a command\<close>

definition upper :: "string \<Rightarrow> string" where
  "upper s = map (\<lambda>c. if in_range c 97 122 then chr (byte_val c - 32) else c) s"

definition env_var :: "string \<Rightarrow> string" where
  "env_var flag_name = ''ELASTIC_APM_'' @ replace_char CHR ''-'' CHR ''_'' (upper flag_name)"

text \<open>\<open>PersistentPreRunE\<close>: every flag the command line did not change is set from its variable; the last
  error is returned.  A flag is its name and whether it was changed, in the order \<open>VisitAll\<close> visits.\<close>

fun pre_run ::
    "(string \<Rightarrow> string option) \<Rightarrow> (string \<Rightarrow> string \<Rightarrow> 's \<Rightarrow> 'e option \<times> 's) \<Rightarrow> (string \<times> bool) list
       \<Rightarrow> (string \<times> 'e) option \<Rightarrow> 's \<Rightarrow> (string \<times> 'e) option \<times> 's" where
  "pre_run lookup set_flag [] err s = (err, s)"
| "pre_run lookup set_flag ((name, changed) # fs) err s =
     (case lookup (env_var name) of
        Some val \<Rightarrow>
          if \<not> changed then
            (case set_flag name val s of
               (Some e, s') \<Rightarrow> pre_run lookup set_flag fs (Some (env_var name, e)) s'
             | (None, s') \<Rightarrow> pre_run lookup set_flag fs err s')
          else pre_run lookup set_flag fs err s
      | None \<Rightarrow> pre_run lookup set_flag fs err s)"

fun gen_pre_run ::
    "(string \<Rightarrow> string option) \<Rightarrow> (string \<Rightarrow> string \<Rightarrow> 's \<Rightarrow> 'e option \<times> 's) \<Rightarrow> (string \<times> bool) list
       \<Rightarrow> (string \<times> 'e) option \<Rightarrow> 's \<Rightarrow> (string \<times> 'e) option \<times> 's" where
  "gen_pre_run lookup set_flag [] err s = (err, s)"
| "gen_pre_run lookup set_flag ((name, changed) # fs) err s =
     (case (changed, lookup (env_var name)) of
        (False, Some val) \<Rightarrow>
          (case set_flag name val s of (flagErr, s') \<Rightarrow>
             gen_pre_run lookup set_flag fs (case flagErr of Some e \<Rightarrow> Some (env_var name, e) | None \<Rightarrow> err) s')
      | _ \<Rightarrow> gen_pre_run lookup set_flag fs err s)"

subsection \<open>Properties\<close>

lemma replace_char_id: "a \<notin> set s \<Longrightarrow> replace_char a b s = s"
  by (induction s) (auto simp: replace_char_def)

lemma headersFlag_agree: "headersFlag_Set s f = (None, f') \<longleftrightarrow> Gen_headersFlag_Set s f = (None, f')"
  by (auto simp: headersFlag_Set_def Gen_headersFlag_Set_def split: prod.splits if_splits)

lemma fold_update_map_of:
  "map_of (fold (\<lambda>k f. AList.update k (g k) f) ks f) = (\<lambda>x. if x \<in> set ks then Some (g x) else map_of f x)"
  by (induction ks arbitrary: f) (auto simp: AList.update_conv' fun_eq_iff)

lemma fold_update_distinct:
  "distinct (map fst f) \<Longrightarrow> distinct (map fst (fold (\<lambda>k f. AList.update k (g k) f) ks f))"
  by (induction ks arbitrary: f) (auto intro: AList.distinct_update)

text \<open>The contract of a repeated header flag: setting \<open>k=v\<close> stores the pair, and the flag prints its pairs in
  the order of their keys.\<close>

locale header_flag =
  fixes set_flag :: "string \<Rightarrow> go_map \<Rightarrow> 'e option \<times> go_map" and show_flag :: "go_map \<Rightarrow> string"
  assumes set_pair: "CHR ''='' \<notin> set k \<Longrightarrow> set_flag (k @ ''='' @ v) f = (None, AList.update k v f)"
    and show_pairs: "show_flag f = join_with '','' (map (\<lambda>k. k @ ''='' @ the (map_of f k)) (sort (map fst f)))"
begin

lemma parts_of_shown:
  assumes "f \<noteq> []" "\<And>k v. (k, v) \<in> set f \<Longrightarrow> CHR '','' \<notin> set (k @ v)"
  shows "split1 CHR '','' (show_flag f) = map (\<lambda>k. k @ ''='' @ the (map_of f k)) (sort (map fst f))"
proof -
  have "CHR '','' \<notin> set (k @ ''='' @ the (map_of f k))" if k: "k \<in> set (sort (map fst f))" for k
  proof -
    obtain v where "map_of f k = Some v" using k map_of_eq_None_iff[of f k] by auto
    then show ?thesis using assms(2)[OF map_of_SomeD] by simp
  qed
  then have free: "list_all (\<lambda>p. CHR '','' \<notin> set p) (map (\<lambda>k. k @ ''='' @ the (map_of f k)) (sort (map fst f)))"
    unfolding list_all_iff set_map by (blast)
  have "sort (map fst f) \<noteq> []" using assms(1) by (metis length_0_conv length_map length_sort)
  then show ?thesis unfolding show_pairs using free by (intro split1_join) (simp_all add: list_all_iff)
qed

lemma set_shown:
  assumes "f \<noteq> []" "\<And>k v. (k, v) \<in> set f \<Longrightarrow> CHR '','' \<notin> set (k @ v) \<and> CHR ''='' \<notin> set k"
  shows "list_all (\<lambda>s. \<forall>g. fst (set_flag s g) = None) (split1 CHR '','' (show_flag f))
    \<and> map_of (fold (\<lambda>s g. snd (set_flag s g)) (split1 CHR '','' (show_flag f)) []) = map_of f"
proof -
  let ?ks = "sort (map fst f)" and ?p = "\<lambda>k. k @ ''='' @ the (map_of f k)"
  have free: "CHR ''='' \<notin> set k" if "k \<in> set ?ks" for k using that assms(2) by force
  have sp: "split1 CHR '','' (show_flag f) = map ?p ?ks" using assms by (intro parts_of_shown) blast+
  have "fold (\<lambda>s g. snd (set_flag s g)) (map ?p ?ks) [] = fold (\<lambda>k g. AList.update k (the (map_of f k)) g) ?ks []"
    unfolding fold_map by (intro fold_cong refl) (use free set_pair in auto)
  moreover have "(if x \<in> set ?ks then Some (the (map_of f x)) else None) = map_of f x" for x
    using map_of_eq_None_iff[of f x] by (cases "map_of f x") auto
  moreover have "list_all (\<lambda>s. \<forall>g. fst (set_flag s g) = None) (map ?p ?ks)"
    using free set_pair by (auto simp: list_all_iff)
  ultimately show ?thesis unfolding sp by (simp add: fold_update_map_of cong: if_cong)
qed

end

interpretation soak_headers: header_flag headersFlag_Set headersFlag_String
  by unfold_locales (simp_all add: headersFlag_Set_def headersFlag_String_def)

interpretation gen_headers: header_flag Gen_headersFlag_Set Gen_headersFlag_String
  by unfold_locales (simp_all add: Gen_headersFlag_Set_def Gen_headersFlag_String_def Let_def)

text \<open>C34 (the printed header flag sets the same headers).  Splitting what \<open>String\<close> prints at the commas
  and setting the parts one after the other gives a map with the headers that were printed, when no
  key or value has a comma, no key has an equals sign, and there is a header at all.  The flags of both
  commands do this.\<close>

theorem headers_flag_roundtrip:
  assumes "f \<noteq> []"
    and "\<And>k v. (k, v) \<in> set f \<Longrightarrow> CHR '','' \<notin> set (k @ v) \<and> CHR ''='' \<notin> set k"
  shows "split1 CHR '','' (headersFlag_String f) = map (\<lambda>k. k @ ''='' @ the (map_of f k)) (sort (map fst f))
     \<and> list_all (\<lambda>s. \<forall>g. fst (headersFlag_Set s g) = None) (split1 CHR '','' (headersFlag_String f))
     \<and> map_of (fold (\<lambda>s g. snd (headersFlag_Set s g)) (split1 CHR '','' (headersFlag_String f)) []) = map_of f
     \<and> list_all (\<lambda>s. \<forall>g. fst (Gen_headersFlag_Set s g) = None) (split1 CHR '','' (Gen_headersFlag_String f))
     \<and> map_of (fold (\<lambda>s g. snd (Gen_headersFlag_Set s g)) (split1 CHR '','' (Gen_headersFlag_String f)) []) = map_of f"
  using soak_headers.parts_of_shown[of f] soak_headers.set_shown[OF assms] gen_headers.set_shown[OF assms] assms
  by blast

theorem headers_flag_roundtrip_witness:
  "map_of (fold (\<lambda>s g. snd (headersFlag_Set s g)) (split1 CHR '','' (headersFlag_String [(''b'', ''2''), (''a'', ''1=2'')])) [])
     = map_of [(''b'', ''2''), (''a'', ''1=2'')]"
proof -
  have "CHR '','' \<notin> set (k @ v) \<and> CHR ''='' \<notin> set k" if "(k, v) \<in> set [(''b'', ''2''), (''a'', ''1=2'')]" for k v
    using that by auto
  then show ?thesis by (intro headers_flag_roundtrip[THEN conjunct2, THEN conjunct2, THEN conjunct1]) simp_all
qed

text \<open>The step for one variable of \<open>flagEnvMap\<close>, and that two of them commute.\<close>

definition env_step ::
    "(string \<Rightarrow> string + go_url) \<Rightarrow> (string \<Rightarrow> string) \<Rightarrow> string \<times> string \<times> string \<Rightarrow> load_config \<Rightarrow> load_config" where
  "env_step parse_url getenv = (\<lambda>(k, env, dflt) c. snd (flag_Set parse_url k (getEnvOrDefault getenv env dflt) c))"

lemma set_server_snd:
  "snd (set_server parse_url v c) = c\<lparr>C_ServerURL := (if v = [] then C_ServerURL c else case parse_url v of Inl e \<Rightarrow> None | Inr u \<Rightarrow> Some u)\<rparr>"
  by (auto simp: set_server_def split: sum.split)

lemma set_bool_snd: "snd (set_bool upd v) = upd (parse_bool v = Some True)"
  by (auto simp: set_bool_def split: option.split)

lemma env_step_simps:
  "env_step pu ge (''server'', env, d) c =
     c\<lparr>C_ServerURL := (let v = getEnvOrDefault ge env d in if v = [] then C_ServerURL c else case pu v of Inl e \<Rightarrow> None | Inr u \<Rightarrow> Some u)\<rparr>"
  "env_step pu ge (''secret-token'', env, d) c = c\<lparr>C_SecretToken := getEnvOrDefault ge env d\<rparr>"
  "env_step pu ge (''api-key'', env, d) c = c\<lparr>C_APIKey := getEnvOrDefault ge env d\<rparr>"
  "env_step pu ge (''secure'', env, d) c = c\<lparr>C_Secure := (parse_bool (getEnvOrDefault ge env d) = Some True)\<rparr>"
  by (simp_all add: env_step_def flag_Set_def set_server_snd set_bool_snd Let_def)

lemma env_step_commute:
  "x \<in> set flagEnvMap \<Longrightarrow> y \<in> set flagEnvMap \<Longrightarrow> env_step pu ge x \<circ> env_step pu ge y = env_step pu ge y \<circ> env_step pu ge x"
  by (auto simp: flagEnvMap_def fun_eq_iff env_step_simps Let_def)

text \<open>C33 (the defaults from the environment).  Whatever order the map is visited in, the server URL,
  the secret token, the API key and the certificate check come from their variables, or their
  defaults when a variable is unset or empty, and nothing else changes.  An invalid server URL
  leaves no URL at all and an invalid boolean turns the check off: no error is reported.\<close>

theorem env_defaults:
  assumes "mset flags = mset flagEnvMap"
  shows "setFlagsFromEnv parse_url getenv flags c =
     c\<lparr>C_ServerURL := (case parse_url (getEnvOrDefault getenv ''ELASTIC_APM_SERVER_URL'' ''http://127.0.0.1:8200'') of
                         Inl e \<Rightarrow> None | Inr u \<Rightarrow> Some u),
        C_SecretToken := getenv ''ELASTIC_APM_SECRET_TOKEN'',
        C_APIKey := getenv ''ELASTIC_APM_API_KEY'',
        C_Secure := (getenv ''ELASTIC_APM_VERIFY_SERVER_CERT'' \<in> {''1'', ''t'', ''T'', ''true'', ''TRUE'', ''True''})\<rparr>"
proof -
  have "fold (env_step parse_url getenv) flagEnvMap = fold (env_step parse_url getenv) flags"
    by (rule fold_multiset_equiv) (use env_step_commute assms in auto)
  then have "setFlagsFromEnv parse_url getenv flags c = fold (env_step parse_url getenv) flagEnvMap c"
    by (simp add: setFlagsFromEnv_def env_step_def)
  then show ?thesis
    by (simp add: flagEnvMap_def env_step_simps) (simp add: getEnvOrDefault_def parse_bool_def Let_def)
qed

theorem env_defaults_witness:
  "C_ServerURL (setFlagsFromEnv (\<lambda>s. Inl ''bad'') (\<lambda>n. ''x'') flagEnvMap declared_config) = None
   \<and> C_RewriteIDs (setFlagsFromEnv (\<lambda>s. Inl ''bad'') (\<lambda>n. ''x'') flagEnvMap declared_config)"
  using env_defaults[OF refl, of "\<lambda>s. Inl ''bad''" "\<lambda>n. ''x''" declared_config] by (simp add: declared_config_def)

text \<open>The values \<open>PersistentPreRunE\<close> sets, in order, and the errors of setting them.\<close>

definition from_env :: "(string \<Rightarrow> string option) \<Rightarrow> (string \<times> bool) list \<Rightarrow> (string \<times> string) list" where
  "from_env lookup fs = [(name, the (lookup (env_var name))). (name, changed) \<leftarrow> fs, \<not> changed, lookup (env_var name) \<noteq> None]"

fun env_errors :: "(string \<Rightarrow> string \<Rightarrow> 's \<Rightarrow> 'e option \<times> 's) \<Rightarrow> (string \<times> string) list \<Rightarrow> 's \<Rightarrow> (string \<times> 'e) list" where
  "env_errors set_flag [] s = []"
| "env_errors set_flag ((name, val) # vs) s =
     (case fst (set_flag name val s) of Some e \<Rightarrow> [(env_var name, e)] | None \<Rightarrow> [])
       @ env_errors set_flag vs (snd (set_flag name val s))"

text \<open>Flags of a command from the environment.  Every flag that the command line left unchanged and
  that has a variable is set from it, an earlier failure notwithstanding, and the error returned is
  the last one.  Both commands do the same.\<close>

lemma flags_from_environment:
  "pre_run lookup set_flag fs err s =
     ((let es = env_errors set_flag (from_env lookup fs) s in if es = [] then err else Some (last es)),
      fold (\<lambda>(name, val) s. snd (set_flag name val s)) (from_env lookup fs) s)
   \<and> gen_pre_run lookup set_flag fs err s = pre_run lookup set_flag fs err s"
proof (induction fs arbitrary: err s)
  case Nil
  then show ?case by (simp add: from_env_def)
next
  case (Cons f fs)
  obtain name ch where f: "f = (name, ch)" by (cases f)
  show ?case
  proof (cases "ch \<or> lookup (env_var name) = None")
    case True
    then have "from_env lookup (f # fs) = from_env lookup fs" by (auto simp: f from_env_def)
    with True Cons show ?thesis by (cases ch; cases "lookup (env_var name)") (simp_all add: f)
  next
    case False
    then obtain v where v: "lookup (env_var name) = Some v" and ch: "ch = False" by auto
    then have e: "from_env lookup ((name, False) # fs) = (name, v) # from_env lookup fs" by (simp add: from_env_def)
    obtain r s' where r: "set_flag name v s = (r, s')" by (cases "set_flag name v s")
    show ?thesis using v Cons by (cases r) (simp_all add: f ch e r Let_def)
  qed
qed

end
