(* ===== verification/ApmBench.thy ===== *)
theory ApmBench
  imports TelemetryServer Flags
begin

section \<open>The benchmark driver (cmd/apmbench: config.go, run.go, main.go)\<close>

text \<open>
  The flags of the driver, the loop that runs every selected benchmark for every number of agents, and
  the functions around a benchmark that talk to the telemetry server: the wait for the clean-up keys
  and the reported metrics.  Compiling a regular expression, running one benchmark and the ticker are
  parameters; a compiled expression is its \<open>MatchString\<close>.
\<close>

subsection \<open>Flags\<close>

record bench_config =
  bc_Count :: nat
  bc_Benchtime :: string
  bc_RunRE :: "(string \<Rightarrow> bool) option"
  bc_SkipRE :: "(string \<Rightarrow> bool) option"
  bc_AgentsList :: "int list"
  bc_TelemetryEndpoint :: string
  bc_CleanupKeys :: "string list"
  bc_Debug :: bool

definition declared_bench_config :: bench_config where
  "declared_bench_config =
     \<lparr>bc_Count = 1, bc_Benchtime = ''1s'', bc_RunRE = None, bc_SkipRE = None, bc_AgentsList = [1],
      bc_TelemetryEndpoint = [], bc_CleanupKeys = [], bc_Debug = False\<rparr>"

text \<open>The loops over the parts of the \<open>agents\<close> and \<open>cleanup-keys\<close> flags.\<close>

fun agents_loop :: "string list \<Rightarrow> int list \<Rightarrow> string + int list" where
  "agents_loop [] agentsList = Inr agentsList"
| "agents_loop (v # vals) agentsList =
     (let val = trim_space v in
      if val = [] then agents_loop vals agentsList
      else case atoi val of
        Inl e \<Rightarrow> Inl (''invalid value '' @ val @ '' for -agents'')
      | Inr n \<Rightarrow> if n \<le> 0 then Inl (''invalid value '' @ val @ '' for -agents'') else agents_loop vals (agentsList @ [n]))"

definition parse_agents :: "string \<Rightarrow> string + int list" where
  "parse_agents agents = res_bind (agents_loop (split1 CHR '','' agents) []) (\<lambda>l. Inr (sort l))"

fun keys_loop :: "string list \<Rightarrow> string list \<Rightarrow> string list" where
  "keys_loop [] keys = keys"
| "keys_loop (v # vals) keys =
     (let val = trim_space v in if val = [] then keys_loop vals keys else keys_loop vals (keys @ [val]))"

definition parse_cleanup_keys :: "string \<Rightarrow> string list" where
  "parse_cleanup_keys raw = keys_loop (split1 CHR '','' raw) []"

text \<open>The functions of the \<open>run\<close>, \<open>skip\<close>, \<open>agents\<close> and \<open>cleanup-keys\<close> flags.\<close>

definition set_RunRE :: "(string \<Rightarrow> string + (string \<Rightarrow> bool)) \<Rightarrow> string \<Rightarrow> bench_config \<Rightarrow> string option \<times> bench_config" where
  "set_RunRE compile restr c =
     (if restr \<noteq> [] then (case compile restr of Inl e \<Rightarrow> (Some e, c) | Inr re \<Rightarrow> (None, c\<lparr>bc_RunRE := Some re\<rparr>)) else (None, c))"

definition set_SkipRE :: "(string \<Rightarrow> string + (string \<Rightarrow> bool)) \<Rightarrow> string \<Rightarrow> bench_config \<Rightarrow> string option \<times> bench_config" where
  "set_SkipRE compile restr c =
     (if restr \<noteq> [] then (case compile restr of Inl e \<Rightarrow> (Some e, c) | Inr re \<Rightarrow> (None, c\<lparr>bc_SkipRE := Some re\<rparr>)) else (None, c))"

definition set_agents :: "string \<Rightarrow> bench_config \<Rightarrow> string option \<times> bench_config" where
  "set_agents s c = (case parse_agents s of Inl e \<Rightarrow> (Some e, c) | Inr l \<Rightarrow> (None, c\<lparr>bc_AgentsList := l\<rparr>))"

definition set_cleanup_keys :: "string \<Rightarrow> bench_config \<Rightarrow> string option \<times> bench_config" where
  "set_cleanup_keys s c = (None, c\<lparr>bc_CleanupKeys := parse_cleanup_keys s\<rparr>)"

subsection \<open>Run\<close>

definition shouldRun :: "string \<Rightarrow> (string \<Rightarrow> bool) option \<Rightarrow> (string \<Rightarrow> bool) option \<Rightarrow> bool" where
  "shouldRun name runRE skipRE =
     (if runRE = None \<and> skipRE = None then True
      else if (case skipRE of Some re \<Rightarrow> re name | None \<Rightarrow> False) then False
      else if (case runRE of None \<Rightarrow> True | Some re \<Rightarrow> re name) then True
      else False)"

definition fullBenchmarkName :: "string \<Rightarrow> int \<Rightarrow> string" where
  "fullBenchmarkName name agents = (if agents \<noteq> 1 then name @ ''-'' @ itoa agents else name)"

text \<open>\<open>benchmarkFuncName\<close>, from what \<open>runtime.FuncForPC\<close> and \<open>SplitFunctionName\<close> give.\<close>

definition benchmarkFuncName :: "('f \<Rightarrow> string option) \<Rightarrow> (string \<Rightarrow> string) \<Rightarrow> 'f \<Rightarrow> string + string" where
  "benchmarkFuncName func_for_pc split_name f =
     (case func_for_pc f of
        None \<Rightarrow> Inl ''runtime.FuncForPC returned nil''
      | Some fullName \<Rightarrow>
          let name = split_name fullName in
          if \<not> has_prefix name ''Benchmark''
          then Inl (''benchmark function names must begin with '' @ fullName @ '' (got Benchmark)'')
          else Inr name)"

datatype bench_line = SkipLine string | FailLine string | ResultLine nat string string

record bench_result =
  br_text :: string
  br_skipped :: bool
  br_failed :: bool

datatype bench_error = BenchFlag string | BenchName string | BenchFailed string | BenchPanic panic

text \<open>The selection of the benchmarks: the longest name, the selected ones and what is printed.\<close>

fun select_benchmarks ::
    "bench_config \<Rightarrow> ('f \<Rightarrow> string + string) \<Rightarrow> 'f list \<Rightarrow> string \<times> (string \<times> 'f) list \<times> bench_line list
       \<Rightarrow> string + string \<times> (string \<times> 'f) list \<times> bench_line list" where
  "select_benchmarks cfg name_of [] st = Inr st"
| "select_benchmarks cfg name_of (fn # fns) (longest, benchmarks, out) =
     (case name_of fn of
        Inl err \<Rightarrow> Inl err
      | Inr name \<Rightarrow>
          if shouldRun name (bc_RunRE cfg) (bc_SkipRE cfg) then
            select_benchmarks cfg name_of fns
              (if length name > length longest then name else longest, benchmarks @ [(name, fn)], out)
          else select_benchmarks cfg name_of fns (longest, benchmarks, out @ [SkipLine name]))"

text \<open>One run of one benchmark, after a reset of the store.\<close>

definition bench_once ::
    "('w \<Rightarrow> 'w) \<Rightarrow> (int \<Rightarrow> 'f \<Rightarrow> 'w \<Rightarrow> bench_result \<times> 'w) \<Rightarrow> nat \<Rightarrow> int \<Rightarrow> string \<times> 'f \<Rightarrow> nat
       \<Rightarrow> bench_line list \<times> 'w \<Rightarrow> (bench_error \<times> bench_line list \<times> 'w) + bench_line list \<times> 'w" where
  "bench_once resetStore runOne maxLen agents b i st =
     (let (out, w) = st;
          name = fullBenchmarkName (fst b) agents;
          (result, w') = runOne agents (snd b) (resetStore w)
      in if br_skipped result then Inr (out @ [SkipLine name], w')
         else if br_failed result then Inl (BenchFailed name, out @ [FailLine name], w')
         else Inr (out @ [ResultLine maxLen name (br_text result)], w'))"

definition bench_Run ::
    "bench_config \<Rightarrow> (string \<Rightarrow> string option) \<Rightarrow> ('f \<Rightarrow> string + string) \<Rightarrow> ('w \<Rightarrow> 'w) \<Rightarrow> (int \<Rightarrow> 'f \<Rightarrow> 'w \<Rightarrow> bench_result \<times> 'w)
       \<Rightarrow> 'f list \<Rightarrow> 'w \<Rightarrow> (bench_error \<times> bench_line list \<times> 'w) + bench_line list \<times> 'w" where
  "bench_Run cfg set_benchtime name_of resetStore runOne fns w =
     (case set_benchtime (bc_Benchtime cfg) of
        Some e \<Rightarrow> Inl (BenchFlag e, [], w)
      | None \<Rightarrow>
          (case select_benchmarks cfg name_of fns ([], [], []) of
             Inl e \<Rightarrow> Inl (BenchName e, [], w)
           | Inr (longest, benchmarks, out) \<Rightarrow>
               (case slice_at (bc_AgentsList cfg) (int (length (bc_AgentsList cfg)) - 1) of
                  Inl p \<Rightarrow> Inl (BenchPanic p, out, w)
                | Inr agents \<Rightarrow>
                    (let maxLen = length (fullBenchmarkName longest agents) in
                     loop_res (\<lambda>agents. loop_res (\<lambda>b. loop_res (bench_once resetStore runOne maxLen agents b) [0..<bc_Count cfg])
                         benchmarks) (bc_AgentsList cfg) (out, w)))))"

subsection \<open>The wait for the clean-up keys\<close>

definition all_zero :: "numbers \<Rightarrow> bool" where
  "all_zero m \<longleftrightarrow> (\<forall>g \<in> dom m. f_eq (the (m g)) (Fin 0))"

text \<open>What one tick does: as many keys as are clean in a row.\<close>

function cleanup_tick :: "(string \<Rightarrow> 'w \<Rightarrow> (client_error + numbers) \<times> 'w) \<Rightarrow> string list \<Rightarrow> nat \<Rightarrow> 'w \<Rightarrow> nat \<times> 'w" where
  "cleanup_tick get keys idx w =
     (if idx < length keys then
        (case get (keys ! idx) w of
           (Inl err, w') \<Rightarrow> (idx, w')
         | (Inr m, w') \<Rightarrow> if \<not> all_zero m then (idx, w') else cleanup_tick get keys (Suc idx) w')
      else (idx, w))"
  by pat_completeness auto
termination
  by (relation "measure (\<lambda>(get, keys, idx, w). length keys - idx)") auto

declare cleanup_tick.simps [simp del]

text \<open>\<open>select\<close> gives whether the context is done; otherwise the ticker has ticked.\<close>

partial_function (option) cleanup_loop ::
    "('w \<Rightarrow> bool \<times> 'w) \<Rightarrow> (string \<Rightarrow> 'w \<Rightarrow> (client_error + numbers) \<times> 'w) \<Rightarrow> string list \<Rightarrow> nat \<Rightarrow> 'w \<Rightarrow> (bool \<times> 'w) option" where
  "cleanup_loop select get keys idx w =
     (if idx = length keys then Some (True, w)
      else case select w of (d, w1) \<Rightarrow>
        if d then Some (False, w1)
        else case cleanup_tick get keys idx w1 of (idx', w2) \<Rightarrow> cleanup_loop select get keys idx' w2)"

text \<open>The result: whether the clean-up condition was satisfied, an error otherwise.\<close>

definition assertCleanupState ::
    "('w \<Rightarrow> bool \<times> 'w) \<Rightarrow> (string \<Rightarrow> 'w \<Rightarrow> (client_error + numbers) \<times> 'w) \<Rightarrow> string list \<Rightarrow> 'w \<Rightarrow> (bool \<times> 'w) option" where
  "assertCleanupState select get keys w =
     (if length keys = 0 then Some (True, w) else cleanup_loop select get keys 0 w)"

subsection \<open>The reported metrics\<close>

text \<open>The sum over the groups of each unit, in the order one \<open>range\<close> visits them.\<close>

definition report_metrics :: "(string \<times> (string \<times> f64) list) list \<Rightarrow> (string \<times> f64) list" where
  "report_metrics m = map (\<lambda>(unit, grp). (unit, fold (\<lambda>(g, val) total. f_add total val) grp (Fin 0))) m"

definition extraMetrics ::
    "('w \<Rightarrow> bool \<times> 'w) \<Rightarrow> (string \<Rightarrow> 'w \<Rightarrow> (client_error + numbers) \<times> 'w)
       \<Rightarrow> ('w \<Rightarrow> (client_error + (string \<times> (string \<times> f64) list) list) \<times> 'w) \<Rightarrow> bench_config \<Rightarrow> 'w \<Rightarrow> ((string \<times> f64) list \<times> 'w) option" where
  "extraMetrics select get get_all cfg w =
     (if bc_TelemetryEndpoint cfg = [] then Some ([], w)
      else map_option (\<lambda>(ok, w1). case get_all w1 of
             (Inl err, w2) \<Rightarrow> ([], w2)
           | (Inr m, w2) \<Rightarrow> (report_metrics m, w2))
         (assertCleanupState select get (bc_CleanupKeys cfg) w))"

definition resetStoreFunc :: "('w \<Rightarrow> client_error option \<times> 'w) \<Rightarrow> bench_config \<Rightarrow> 'w \<Rightarrow> 'w" where
  "resetStoreFunc reset cfg w = (if bc_TelemetryEndpoint cfg = [] then w else snd (reset w))"

text \<open>One run of a benchmark.  \<open>testing.Benchmark\<close> calls its body, for growing numbers of iterations, and prints
  what it measured; the body runs the benchmark function in a goroutine of its own, which returns, panics
  or exits, keeps whether it was skipped or failed, and reports the metrics.  The result has the flags of
  the last call, and every call has the same limiter.\<close>

definition bench_runOne ::
    "((nat \<Rightarrow> (bool \<times> bool) \<times> 'w \<Rightarrow> (bool \<times> bool) \<times> 'w) \<Rightarrow> (bool \<times> bool) \<times> 'w \<Rightarrow> string \<times> (bool \<times> bool) \<times> 'w)
       \<Rightarrow> load_config \<Rightarrow> ('w \<Rightarrow> 'w) \<Rightarrow> (limiter \<Rightarrow> nat \<Rightarrow> 'w \<Rightarrow> (bool \<times> bool) \<times> 'w) \<Rightarrow> 'w \<Rightarrow> bench_result \<times> 'w" where
  "bench_runOne testing_Benchmark c extra fn w =
     (let lmt = GetNewLimiter (Burst (C_EventRate c)) (Interval (C_EventRate c));
          (txt, (skipped, failed), w') =
            testing_Benchmark (\<lambda>N (flags, w). let (flags', w1) = fn lmt N w in (flags', extra w1)) ((False, False), w)
      in (\<lparr>br_text = txt, br_skipped = skipped, br_failed = failed\<rparr>, w'))"

subsection \<open>Properties of the flags and of the run\<close>

definition agent_count :: "string \<Rightarrow> num_error + int" where
  "agent_count p = (case atoi (trim_space p) of Inl e \<Rightarrow> Inl e | Inr n \<Rightarrow> if n \<le> 0 then Inl ErrRange else Inr n)"

definition nonblank :: "string \<Rightarrow> string list" where
  "nonblank s = filter (\<lambda>p. trim_space p \<noteq> []) (split1 CHR '','' s)"

definition count_of :: "string \<Rightarrow> int" where
  "count_of p = (case agent_count p of Inr n \<Rightarrow> n | Inl e \<Rightarrow> 0)"

lemma agents_loop_eq:
  "case agents_loop ps acc of
     Inl e \<Rightarrow> \<not> list_all (\<lambda>p. is_ok (agent_count p)) (filter (\<lambda>p. trim_space p \<noteq> []) ps)
   | Inr l \<Rightarrow> list_all (\<lambda>p. is_ok (agent_count p)) (filter (\<lambda>p. trim_space p \<noteq> []) ps)
        \<and> l = acc @ map count_of (filter (\<lambda>p. trim_space p \<noteq> []) ps)"
proof (induction ps arbitrary: acc)
  case (Cons p ps)
  show ?case
  proof (cases "trim_space p = []")
    case True
    then show ?thesis using Cons[of acc] by (simp split: sum.splits)
  next
    case False
    show ?thesis
    proof (cases "agent_count p")
      case (Inl e)
      then have "agents_loop (p # ps) acc = Inl (''invalid value '' @ trim_space p @ '' for -agents'')"
        using False by (auto simp: agent_count_def Let_def split: sum.splits if_splits)
      then show ?thesis using False Inl by simp
    next
      case (Inr n)
      then have "agents_loop (p # ps) acc = agents_loop ps (acc @ [n])" "count_of p = n"
        using False by (auto simp: agent_count_def count_of_def Let_def split: sum.splits if_splits)
      then show ?thesis using Cons[of "acc @ [n]"] False Inr by (simp split: sum.splits)
    qed
  qed
qed simp

lemma count_of_pos: "is_ok (agent_count p) \<Longrightarrow> 0 < count_of p"
  by (auto simp: is_ok_iff agent_count_def count_of_def split: sum.splits if_splits)

text \<open>The agents flag.   The flag is accepted exactly when every part that is not blank is a positive
  integer, and the list of agents is then those integers in increasing order; blank parts are
  skipped, so a flag of blank parts gives the empty list.\<close>

lemma agents_flag:
  "case parse_agents s of
     Inl e \<Rightarrow> \<not> list_all (\<lambda>p. is_ok (agent_count p)) (nonblank s)
   | Inr l \<Rightarrow> list_all (\<lambda>p. is_ok (agent_count p)) (nonblank s)
       \<and> sorted l \<and> list_all (\<lambda>n. 0 < n) l \<and> mset l = mset (map count_of (nonblank s))"
proof (cases "agents_loop (split1 CHR '','' s) []")
  case (Inl e)
  then show ?thesis using agents_loop_eq[of "split1 CHR '','' s" "[]"] by (simp add: parse_agents_def nonblank_def)
next
  case (Inr l)
  then have l: "list_all (\<lambda>p. is_ok (agent_count p)) (nonblank s)" "l = map count_of (nonblank s)"
    using agents_loop_eq[of "split1 CHR '','' s" "[]"] by (simp_all add: nonblank_def)
  have "list_all (\<lambda>n. 0 < n) (sort l)" using l count_of_pos by (auto simp: list_all_iff)
  then show ?thesis using l by (simp add: parse_agents_def Inr)
qed

text \<open>A run without agents panics.  When every part of the flag is blank the run panics after the
  selection of the benchmarks, although the flag was accepted.\<close>

lemma no_agents_panics:
  assumes "nonblank s = []" "set_agents s cfg = (None, cfg')"
    and "set_benchtime (bc_Benchtime cfg') = None"
    and "select_benchmarks cfg' name_of fns ([], [], []) = Inr (longest, benchmarks, out)"
  shows "bench_Run cfg' set_benchtime name_of resetStore runOne fns w = Inl (BenchPanic IndexOutOfRange, out, w)"
proof -
  have "agents_loop (split1 CHR '','' s) [] = Inr []"
    using agents_loop_eq[of "split1 CHR '','' s" "[]"] assms(1) by (simp add: nonblank_def split: sum.splits)
  then have "bc_AgentsList cfg' = []" using assms(2) by (auto simp: set_agents_def parse_agents_def)
  then show ?thesis using assms(3,4) by (simp add: bench_Run_def slice_at_def)
qed

fun line_name :: "bench_line \<Rightarrow> string" where
  "line_name (SkipLine n) = n" | "line_name (FailLine n) = n" | "line_name (ResultLine k n t) = n"

lemma loop_res_appends:
  assumes "\<And>x out w out' w'. x \<in> set xs \<Longrightarrow> f x (out, w) = Inr (out', w') \<Longrightarrow> \<exists>new. out' = out @ new \<and> map line_name new = g x"
  shows "loop_res f xs (out, w) = Inr (out', w') \<Longrightarrow> \<exists>new. out' = out @ new \<and> map line_name new = concat (map g xs)"
  using assms
proof (induction xs arbitrary: out w)
  case (Cons x xs)
  then obtain st where st: "f x (out, w) = Inr st" "loop_res f xs st = Inr (out', w')" by (auto split: sum.splits)
  obtain out1 w1 where "st = (out1, w1)" by (cases st)
  then have "f x (out, w) = Inr (out1, w1)" using st(1) by simp
  from Cons.prems(2)[OF _ this] obtain new1 where n1: "out1 = out @ new1" "map line_name new1 = g x" by auto
  obtain new2 where "out' = out1 @ new2" "map line_name new2 = concat (map g xs)"
    using Cons.IH[of out1 w1] Cons.prems(2) st(2) \<open>st = (out1, w1)\<close> by (metis list.set_intros(2))
  then show ?case using n1 by (intro exI[of _ "new1 @ new2"]) simp
qed simp

lemma bench_once_line:
  "bench_once resetStore runOne maxLen agents b i (out, w) = Inr (out', w') \<Longrightarrow>
     \<exists>new. out' = out @ new \<and> map line_name new = [fullBenchmarkName (fst b) agents]"
  by (auto simp: bench_once_def Let_def split: prod.splits if_splits)


subsection \<open>Properties of the wait\<close>

text \<open>An environment that also records every answer.\<close>

type_synonym answer_log = "(string \<times> (client_error + numbers)) list"

definition noted :: "(string \<Rightarrow> 'w \<Rightarrow> (client_error + numbers) \<times> 'w) \<Rightarrow> string \<Rightarrow> answer_log \<times> 'w
    \<Rightarrow> (client_error + numbers) \<times> answer_log \<times> 'w" where
  "noted get key lw = (case get key (snd lw) of (r, w') \<Rightarrow> (r, fst lw @ [(key, r)], w'))"

definition on_world :: "('w \<Rightarrow> bool \<times> 'w) \<Rightarrow> answer_log \<times> 'w \<Rightarrow> bool \<times> answer_log \<times> 'w" where
  "on_world select lw = (case select (snd lw) of (d, w') \<Rightarrow> (d, fst lw, w'))"

text \<open>The keys answered with every group at zero, in the order of the answers.\<close>

definition clean_keys :: "answer_log \<Rightarrow> string list" where
  "clean_keys l = map fst (filter (\<lambda>(k, r). case r of Inl e \<Rightarrow> False | Inr m \<Rightarrow> all_zero m) l)"

lemma clean_keys_snoc:
  "clean_keys (l @ [(k, r)]) = clean_keys l @ (case r of Inl e \<Rightarrow> [] | Inr m \<Rightarrow> if all_zero m then [k] else [])"
  by (cases r) (simp_all add: clean_keys_def)

lemma cleanup_tick_clean:
  "cleanup_tick (noted get) keys idx (l, w) = (idx', (l', w')) \<Longrightarrow> idx \<le> length keys \<Longrightarrow> clean_keys l = take idx keys \<Longrightarrow>
     idx' \<le> length keys \<and> clean_keys l' = take idx' keys"
proof (induction "length keys - idx" arbitrary: idx l w rule: less_induct)
  case less
  show ?case
  proof (cases "idx < length keys")
    case False
    then show ?thesis using less.prems by (subst (asm) cleanup_tick.simps) auto
  next
    case True
    obtain r w1 where g: "get (keys ! idx) w = (r, w1)" by (cases "get (keys ! idx) w")
    have n: "noted get (keys ! idx) (l, w) = (r, l @ [(keys ! idx, r)], w1)" by (simp add: noted_def g)
    show ?thesis
    proof (cases "\<exists>m. r = Inr m \<and> all_zero m")
      case True2: True
      then have "cleanup_tick (noted get) keys (Suc idx) (l @ [(keys ! idx, r)], w1) = (idx', (l', w'))"
        using less.prems(1) True n by (subst (asm) cleanup_tick.simps) auto
      moreover have "clean_keys (l @ [(keys ! idx, r)]) = take (Suc idx) keys"
        using True2 True less.prems(3) by (auto simp: clean_keys_snoc take_Suc_conv_app_nth)
      ultimately show ?thesis using less.hyps[of "Suc idx"] True by (metis Suc_leI diff_less_mono2 lessI)
    next
      case False
      then have "idx' = idx" "l' = l @ [(keys ! idx, r)]"
        using less.prems(1) True n by (subst (asm) cleanup_tick.simps, cases r; auto)+
      then show ?thesis using less.prems(2,3) False by (cases r) (auto simp: clean_keys_snoc)
    qed
  qed
qed


lemma cleanup_loop_clean:
  assumes "cleanup_loop (on_world select0) (noted get0) keys idx lw = Some r" "idx \<le> length keys"
    and "clean_keys (fst lw) = take idx keys" "fst r"
  shows "clean_keys (fst (snd r)) = keys"
proof -
  let ?P = "\<lambda>select get keys idx lw r. select = on_world select0 \<longrightarrow> get = noted get0 \<longrightarrow> idx \<le> length keys
    \<longrightarrow> clean_keys (fst lw) = take idx keys \<longrightarrow> fst r \<longrightarrow> clean_keys (fst (snd r)) = keys"
  have "?P (on_world select0) (noted get0) keys idx lw r"
  proof (rule cleanup_loop.raw_induct[OF _ assms(1), where P = ?P])
    fix loop select get and keys :: "string list" and idx :: nat and lw r
    assume IH: "\<And>select get keys idx lw r. loop select get keys idx lw = Some r \<Longrightarrow> ?P select get keys idx lw r"
      and body: "(if idx = length keys then Some (True, lw)
        else case select lw of (d, w1) \<Rightarrow> if d then Some (False, w1)
          else case cleanup_tick get keys idx w1 of (idx', w2) \<Rightarrow> loop select get keys idx' w2) = Some r"
    show "?P select get keys idx lw r"
    proof (intro impI)
      assume sg: "select = on_world select0" "get = noted get0" and le: "idx \<le> length keys"
        and cl: "clean_keys (fst lw) = take idx keys" and ok: "fst r"
      show "clean_keys (fst (snd r)) = keys"
      proof (cases "idx = length keys")
        case True
        then show ?thesis using body cl by auto
      next
        case False
        obtain d w1 where sel: "select0 (snd lw) = (d, w1)" by (cases "select0 (snd lw)")
        obtain idx' l2 w2 where t: "cleanup_tick (noted get0) keys idx (fst lw, w1) = (idx', (l2, w2))" by (metis prod_cases3)
        have rest: "loop select get keys idx' (l2, w2) = Some r"
          using body False sel t ok by (auto simp: on_world_def sg split: if_splits)
        from IH[OF rest] show ?thesis using cleanup_tick_clean[OF t le cl] sg ok by simp
      qed
    qed
  qed
  then show ?thesis using assms by simp
qed

text \<open>C11 (the clean-up before the results).  When the wait for the clean-up keys succeeds, each key in turn was
  answered by the telemetry server with every group at zero: the successful answers are exactly the
  keys, in their order.\<close>

theorem cleanup_checks_every_key:
  assumes "assertCleanupState (on_world select) (noted get) keys ([], w) = Some (True, (l, w'))"
  shows "clean_keys l = keys"
proof (cases "keys = []")
  case True
  then show ?thesis using assms by (simp add: assertCleanupState_def clean_keys_def)
next
  case False
  then have "cleanup_loop (on_world select) (noted get) keys 0 ([], w) = Some (True, (l, w'))"
    using assms by (simp add: assertCleanupState_def)
  from cleanup_loop_clean[OF this] show ?thesis by (simp add: clean_keys_def)
qed

lemma cleanup_tick_stuck:
  assumes "\<And>w. I w \<Longrightarrow> \<exists>e w'. get key w = (Inl e, w')" "\<And>k w. I w \<Longrightarrow> I (snd (get k w))"
  shows "I w \<Longrightarrow> key \<in> set (drop idx keys) \<Longrightarrow> cleanup_tick get keys idx w = (idx', w') \<Longrightarrow>
    I w' \<and> key \<in> set (drop idx' keys) \<and> idx' < length keys"
proof (induction "length keys - idx" arbitrary: idx w rule: less_induct)
  case less
  have i: "idx < length keys" using less.prems(2) by (cases "idx < length keys") auto
  obtain r w1 where g: "get (keys ! idx) w = (r, w1)" by (cases "get (keys ! idx) w")
  have I1: "I w1" using assms(2)[OF less.prems(1), of "keys ! idx"] g by simp
  show ?case
  proof (cases "\<exists>m. r = Inr m \<and> all_zero m")
    case True
    then have "keys ! idx \<noteq> key" using assms(1)[OF less.prems(1)] g by auto
    then have "key \<in> set (drop (Suc idx) keys)" using less.prems(2) i by (auto simp: Cons_nth_drop_Suc[symmetric])
    moreover have "cleanup_tick get keys (Suc idx) w1 = (idx', w')"
      using less.prems(3) i g True by (subst (asm) cleanup_tick.simps) auto
    ultimately show ?thesis using less.hyps[of "Suc idx" w1] i I1 by (metis diff_less_mono2 lessI)
  next
    case False
    then have "idx' = idx" "w' = w1"
      using less.prems(3) i g by (subst (asm) cleanup_tick.simps, cases r; auto)+
    then show ?thesis using I1 less.prems(2) i by simp
  qed
qed

lemma cleanup_loop_stuck:
  assumes "cleanup_loop select get keys idx w = Some r"
    and "\<And>w. I w \<Longrightarrow> \<exists>e w'. get key w = (Inl e, w')" "\<And>k w. I w \<Longrightarrow> I (snd (get k w))"
    and "\<And>w. I w \<Longrightarrow> \<not> fst (select w) \<and> I (snd (select w))"
  shows "\<not> (I w \<and> key \<in> set (drop idx keys))"
proof -
  let ?P = "\<lambda>select' get' keys idx w r. select' = select \<longrightarrow> get' = get \<longrightarrow> \<not> (I w \<and> key \<in> set (drop idx keys))"
  have "?P select get keys idx w r"
  proof (rule cleanup_loop.raw_induct[OF _ assms(1), where P = ?P])
    fix loop select' get' and keys :: "string list" and idx :: nat and w r
    assume IH: "\<And>select' get' keys idx w r. loop select' get' keys idx w = Some r \<Longrightarrow> ?P select' get' keys idx w r"
      and body: "(if idx = length keys then Some (True, w)
        else case select' w of (d, w1) \<Rightarrow> if d then Some (False, w1)
          else case cleanup_tick get' keys idx w1 of (idx', w2) \<Rightarrow> loop select' get' keys idx' w2) = Some r"
    show "?P select' get' keys idx w r"
    proof (intro impI notI, elim conjE)
      assume sg: "select' = select" "get' = get" and I: "I w" and k: "key \<in> set (drop idx keys)"
      obtain w1 where sel: "select w = (False, w1)" "I w1" using assms(4)[OF I] by (cases "select w") auto
      obtain idx' w2 where t: "cleanup_tick get keys idx w1 = (idx', w2)" by fastforce
      have n: "idx \<noteq> length keys" using k by auto
      have "loop select' get' keys idx' w2 = Some r" using body n sel(1) t by (simp add: sg)
      moreover have "I w2 \<and> key \<in> set (drop idx' keys) \<and> idx' < length keys"
        by (rule cleanup_tick_stuck[OF assms(2,3) sel(2) k t])
      ultimately show False using IH sg by blast
    qed
  qed
  then show ?thesis by simp
qed

text \<open>The telemetry server as the driver sees it: between ticks its store may change in any way that keeps its
  configurations, and the context is never done.\<close>

definition server_get :: "string \<Rightarrow> store \<Rightarrow> (client_error + numbers) \<times> store" where
  "server_get key s = (telemetry_Get key (handle_key Get key s), s)"


subsection \<open>Instances\<close>

lemma blank_agents: "nonblank '','' = []" "set_agents '','' declared_bench_config = (None, declared_bench_config\<lparr>bc_AgentsList := []\<rparr>)"
  by (simp_all add: nonblank_def trim_space_def set_agents_def parse_agents_def)

lemma no_agents_panics_witness:
  "\<exists>cfg. set_agents '','' declared_bench_config = (None, cfg)
     \<and> bench_Run cfg (\<lambda>t. None) (\<lambda>f. Inr ''BenchmarkX'') (\<lambda>w. w) (\<lambda>n f w. (\<lparr>br_text = [], br_skipped = False, br_failed = False\<rparr>, w)) [()] ()
       = Inl (BenchPanic IndexOutOfRange, [], ())"
proof -
  have sel: "select_benchmarks (declared_bench_config\<lparr>bc_AgentsList := []\<rparr>) (\<lambda>f. Inr ''BenchmarkX'') [()] ([], [], [])
      = Inr (''BenchmarkX'', [(''BenchmarkX'', ())], [])"
    by (simp add: shouldRun_def declared_bench_config_def)
  show ?thesis
    using no_agents_panics[OF blank_agents _ sel, of "\<lambda>t. None"] blank_agents(2) by (simp add: declared_bench_config_def)
qed


theorem cleanup_checks_every_key_witness:
  "\<exists>l. assertCleanupState (on_world (\<lambda>w. (False, w))) (noted (\<lambda>k w. (Inr Map.empty, w))) [''a'', ''b''] ([], ()) = Some (True, (l, ()))
     \<and> clean_keys l = [''a'', ''b'']"
proof -
  obtain l where r: "assertCleanupState (on_world (\<lambda>w. (False, w))) (noted (\<lambda>k w. (Inr Map.empty, w))) [''a'', ''b''] ([], ()) = Some (True, (l, ()))"
    by (simp add: assertCleanupState_def cleanup_loop.simps cleanup_tick.simps on_world_def noted_def all_zero_def)
  from cleanup_checks_every_key[OF r] r show ?thesis by blast
qed

definition ex_bench_store :: store where
  "ex_bench_store = \<lparr>st_nameM = Map.empty, st_keyM = Map.empty, st_nums = Map.empty, st_hists = Map.empty\<rparr>"


end
