(* ===== verification/OtlpConfig.thy ===== *)
theory OtlpConfig
  imports Flags
begin

section \<open>Configuration of the OTLP generators (internal/telemetrygen/common and the exporter options)\<close>

text \<open>
  The configuration the three generators share, its flags, the attribute lists, the TLS
  configuration from files, and the options each generator gives to its exporter.  Reading files,
  PEM decoding and loading a key pair are parameters; the exporters themselves are library code, so
  an exporter is the list of its options.
\<close>

subsection \<open>Key-value flags\<close>

datatype kv_error = ErrFormatOTLPAttributes | ErrDoubleQuotesOTLPAttributes

definition KeyValue_Set :: "string \<Rightarrow> go_map \<Rightarrow> kv_error option \<times> go_map" where
  "KeyValue_Set s v =
     (let kv = splitn2 CHR ''='' s in
      if length kv \<noteq> 2 then (Some ErrFormatOTLPAttributes, v)
      else let val = kv ! 1 in
        if length val < 2 \<or> \<not> has_prefix val [CHR 0x22] \<or> \<not> has_suffix val [CHR 0x22]
        then (Some ErrDoubleQuotesOTLPAttributes, v)
        else (None, AList.update (kv ! 0) (take (length val - 2) (drop 1 val)) v))"

subsection \<open>Config\<close>

record client_auth =
  ca_Enabled :: bool
  ca_ClientCertFile :: string
  ca_ClientKeyFile :: string

record common_config =
  cc_WorkerCount :: int
  cc_Rate :: int
  cc_TotalDuration :: duration
  cc_ReportingInterval :: duration
  cc_SkipSettingGRPCLogger :: bool
  cc_CustomEndpoint :: string
  cc_Insecure :: bool
  cc_UseHTTP :: bool
  cc_HTTPPath :: string
  cc_Headers :: go_map
  cc_ResourceAttributes :: go_map
  cc_TelemetryAttributes :: go_map
  cc_CaFile :: string
  cc_ClientAuth :: client_auth

definition defaultGRPCEndpoint :: string where "defaultGRPCEndpoint = ''localhost:4317''"
definition defaultHTTPEndpoint :: string where "defaultHTTPEndpoint = ''localhost:4318''"

definition Endpoint :: "common_config \<Rightarrow> string" where
  "Endpoint c =
     (if cc_CustomEndpoint c \<noteq> [] then cc_CustomEndpoint c
      else if cc_UseHTTP c then defaultHTTPEndpoint
      else defaultGRPCEndpoint)"

text \<open>The attributes, in the order one \<open>range\<close> visits the map.\<close>

definition GetAttributes :: "common_config \<Rightarrow> go_map" where
  "GetAttributes c =
     (let attributes = [] in
      if length (cc_ResourceAttributes c) > 0
      then fold (\<lambda>(k, v) attributes. attributes @ [(k, v)]) (cc_ResourceAttributes c) attributes
      else attributes)"

definition GetTelemetryAttributes :: "common_config \<Rightarrow> go_map" where
  "GetTelemetryAttributes c =
     (let attributes = [] in
      if length (cc_TelemetryAttributes c) > 0
      then fold (\<lambda>(k, v) attributes. attributes @ [(k, v)]) (cc_TelemetryAttributes c) attributes
      else attributes)"

text \<open>Declaring the flags stores their defaults.\<close>

definition CommonFlags :: "common_config \<Rightarrow> common_config" where
  "CommonFlags c =
     c\<lparr>cc_WorkerCount := 1, cc_Rate := 0, cc_TotalDuration := 0, cc_ReportingInterval := 1 * dur_second,
       cc_CustomEndpoint := [], cc_Insecure := False, cc_UseHTTP := False,
       cc_Headers := [], cc_ResourceAttributes := [], cc_TelemetryAttributes := [],
       cc_CaFile := [], cc_ClientAuth := \<lparr>ca_Enabled = False, ca_ClientCertFile = [], ca_ClientKeyFile = []\<rparr>\<rparr>"

subsection \<open>TLS\<close>

record tls_files =
  t_ReadFile :: "string \<Rightarrow> string + bytes"
  t_AppendPEM :: "bytes \<Rightarrow> string list option"
  t_LoadKeyPair :: "string \<Rightarrow> string \<Rightarrow> string + string"

record tls_config =
  tls_RootCAs :: "string list"
  tls_Certificates :: "string list"
  tls_RequireClientCert :: bool

text \<open>The pool starts empty, so without a CA file no authority is trusted.\<close>

definition caPool :: "tls_files \<Rightarrow> string \<Rightarrow> string + string list" where
  "caPool fs caFile =
     (if caFile \<noteq> [] then
        res_bind (t_ReadFile fs caFile) (\<lambda>data.
          case t_AppendPEM fs data of
            Some certs \<Rightarrow> Inr certs
          | None \<Rightarrow> Inl ''failed to add CA certificate to root CA pool'')
      else Inr [])"

definition GetTLSCredentialsForGRPCExporter :: "tls_files \<Rightarrow> string \<Rightarrow> client_auth \<Rightarrow> string + tls_config" where
  "GetTLSCredentialsForGRPCExporter fs caFile cAuth =
     res_bind (caPool fs caFile) (\<lambda>pool.
       let creds = \<lparr>tls_RootCAs = pool, tls_Certificates = [], tls_RequireClientCert = False\<rparr> in
       if ca_Enabled cAuth then
         res_bind (t_LoadKeyPair fs (ca_ClientCertFile cAuth) (ca_ClientKeyFile cAuth)) (\<lambda>keypair.
           Inr \<lparr>tls_RootCAs = pool, tls_Certificates = [keypair], tls_RequireClientCert = False\<rparr>)
       else Inr creds)"

definition GetTLSCredentialsForHTTPExporter :: "tls_files \<Rightarrow> string \<Rightarrow> client_auth \<Rightarrow> string + tls_config" where
  "GetTLSCredentialsForHTTPExporter fs caFile cAuth =
     res_bind (caPool fs caFile) (\<lambda>pool.
       let tlsCfg = \<lparr>tls_RootCAs = pool, tls_Certificates = [], tls_RequireClientCert = False\<rparr> in
       if ca_Enabled cAuth then
         res_bind (t_LoadKeyPair fs (ca_ClientCertFile cAuth) (ca_ClientKeyFile cAuth)) (\<lambda>keypair.
           Inr (tlsCfg\<lparr>tls_RequireClientCert := True, tls_Certificates := [keypair]\<rparr>))
       else Inr tlsCfg)"

subsection \<open>Exporter options\<close>

datatype exp_option =
    WithEndpoint string
  | WithURLPath string
  | WithInsecure
  | WithTLS tls_config
  | WithHeaders go_map

definition metrics_grpcExporterOptions :: "tls_files \<Rightarrow> common_config \<Rightarrow> string + exp_option list" where
  "metrics_grpcExporterOptions fs cfg =
     res_bind
       (let grpcExpOpt = [WithEndpoint (Endpoint cfg)] in
        if cc_Insecure cfg then Inr (grpcExpOpt @ [WithInsecure])
        else res_bind (map_err ((@) ''failed to get TLS credentials: '')
               (GetTLSCredentialsForGRPCExporter fs (cc_CaFile cfg) (cc_ClientAuth cfg)))
             (\<lambda>credentials. Inr (grpcExpOpt @ [WithTLS credentials])))
       (\<lambda>grpcExpOpt. Inr (if length (cc_Headers cfg) > 0 then grpcExpOpt @ [WithHeaders (cc_Headers cfg)] else grpcExpOpt))"

definition metrics_httpExporterOptions :: "tls_files \<Rightarrow> common_config \<Rightarrow> string + exp_option list" where
  "metrics_httpExporterOptions fs cfg =
     res_bind
       (let httpExpOpt = [WithEndpoint (Endpoint cfg), WithURLPath (cc_HTTPPath cfg)] in
        if cc_Insecure cfg then Inr (httpExpOpt @ [WithInsecure])
        else res_bind (map_err ((@) ''failed to get TLS credentials: '')
               (GetTLSCredentialsForHTTPExporter fs (cc_CaFile cfg) (cc_ClientAuth cfg)))
             (\<lambda>tlsCfg. Inr (httpExpOpt @ [WithTLS tlsCfg])))
       (\<lambda>httpExpOpt. Inr (if length (cc_Headers cfg) > 0 then httpExpOpt @ [WithHeaders (cc_Headers cfg)] else httpExpOpt))"

definition traces_grpcExporterOptions :: "tls_files \<Rightarrow> common_config \<Rightarrow> string + exp_option list" where
  "traces_grpcExporterOptions fs cfg =
     (let grpcExpOpt = [WithEndpoint (Endpoint cfg)];
          headers = (if length (cc_Headers cfg) > 0 then [WithHeaders (cc_Headers cfg)] else [])
      in if cc_Insecure cfg then Inr (grpcExpOpt @ [WithInsecure] @ headers)
         else case GetTLSCredentialsForGRPCExporter fs (cc_CaFile cfg) (cc_ClientAuth cfg) of
           Inl e \<Rightarrow> Inl (''failed to get TLS credentials: '' @ e)
         | Inr credentials \<Rightarrow> Inr (grpcExpOpt @ [WithTLS credentials] @ headers))"

definition traces_httpExporterOptions :: "tls_files \<Rightarrow> common_config \<Rightarrow> string + exp_option list" where
  "traces_httpExporterOptions fs cfg =
     (let httpExpOpt = [WithEndpoint (Endpoint cfg), WithURLPath (cc_HTTPPath cfg)];
          headers = (if length (cc_Headers cfg) > 0 then [WithHeaders (cc_Headers cfg)] else [])
      in if cc_Insecure cfg then Inr (httpExpOpt @ [WithInsecure] @ headers)
         else case GetTLSCredentialsForHTTPExporter fs (cc_CaFile cfg) (cc_ClientAuth cfg) of
           Inl e \<Rightarrow> Inl (''failed to get TLS credentials: '' @ e)
         | Inr tlsCfg \<Rightarrow> Inr (httpExpOpt @ [WithTLS tlsCfg] @ headers))"

text \<open>\<open>newExporter\<close> of the logs: its gRPC client is a connection to the endpoint with credentials only.\<close>

datatype logs_exporter =
    HTTPClientExporter "tls_config option" common_config
  | GRPCClientExporter string "tls_config option"

definition newExporter :: "tls_files \<Rightarrow> (string \<Rightarrow> string option) \<Rightarrow> common_config \<Rightarrow> string + logs_exporter" where
  "newExporter fs grpc_error cfg =
     (if cc_UseHTTP cfg then
        (if cc_Insecure cfg then Inr (HTTPClientExporter None cfg)
         else case GetTLSCredentialsForHTTPExporter fs (cc_CaFile cfg) (cc_ClientAuth cfg) of
           Inl e \<Rightarrow> Inl (''failed to get TLS credentials: '' @ e)
         | Inr creds \<Rightarrow> Inr (HTTPClientExporter (Some creds) cfg))
      else if cc_Insecure cfg then
        (case grpc_error (Endpoint cfg) of Some e \<Rightarrow> Inl e | None \<Rightarrow> Inr (GRPCClientExporter (Endpoint cfg) None))
      else case GetTLSCredentialsForGRPCExporter fs (cc_CaFile cfg) (cc_ClientAuth cfg) of
        Inl e \<Rightarrow> Inl (''failed to get TLS credentials: '' @ e)
      | Inr creds \<Rightarrow>
          (case grpc_error (Endpoint cfg) of Some e \<Rightarrow> Inl e | None \<Rightarrow> Inr (GRPCClientExporter (Endpoint cfg) (Some creds))))"

subsection \<open>Properties\<close>

lemma attributes_eq: "GetAttributes c = cc_ResourceAttributes c" "GetTelemetryAttributes c = cc_TelemetryAttributes c"
proof -
  have "fold (\<lambda>(k, v) ys. ys @ [(k, v)]) xs ys = ys @ xs" for xs ys :: go_map
    by (induction xs arbitrary: ys) auto
  then show "GetAttributes c = cc_ResourceAttributes c" "GetTelemetryAttributes c = cc_TelemetryAttributes c"
    by (simp_all add: GetAttributes_def GetTelemetryAttributes_def)
qed

text \<open>The headers an exporter sends, from its options.\<close>

definition sent_headers :: "exp_option list \<Rightarrow> go_map" where
  "sent_headers opts = concat (map (\<lambda>x. case x of WithHeaders h \<Rightarrow> h | _ \<Rightarrow> []) opts)"

text \<open>The contract of the four option functions: the options for the address, then plain text or the TLS
  credentials, then the headers if there are any; an error is that of the credentials.\<close>

locale exporter_options =
  fixes options :: "tls_files \<Rightarrow> common_config \<Rightarrow> string + exp_option list"
    and credentials :: "tls_files \<Rightarrow> string \<Rightarrow> client_auth \<Rightarrow> string + tls_config"
    and address :: "common_config \<Rightarrow> exp_option list"
  assumes address_only: "list_all (\<lambda>x. \<exists>e. x = WithEndpoint e \<or> x = WithURLPath e) (address cfg)"
    and plain: "cc_Insecure cfg \<Longrightarrow>
      options fs cfg = Inr (address cfg @ [WithInsecure] @ (if cc_Headers cfg = [] then [] else [WithHeaders (cc_Headers cfg)]))"
    and encrypted: "\<not> cc_Insecure cfg \<Longrightarrow> options fs cfg = (case credentials fs (cc_CaFile cfg) (cc_ClientAuth cfg) of
        Inl e \<Rightarrow> Inl (''failed to get TLS credentials: '' @ e)
      | Inr creds \<Rightarrow> Inr (address cfg @ [WithTLS creds] @ (if cc_Headers cfg = [] then [] else [WithHeaders (cc_Headers cfg)])))"
begin

lemma address_facts: "sent_headers (address cfg) = []" "WithInsecure \<notin> set (address cfg)" "WithTLS c \<notin> set (address cfg)"
  using address_only[of cfg] by (induction "address cfg" rule: list.induct) (auto simp: sent_headers_def list_all_iff)

lemma headers_sent: "options fs cfg = Inr opts \<Longrightarrow> sent_headers opts = cc_Headers cfg"
  using address_facts(1)[of cfg] plain[of cfg fs] encrypted[of cfg fs]
  by (cases "cc_Insecure cfg") (auto simp: sent_headers_def split: sum.splits if_splits)

lemma encrypted_iff: "options fs cfg = Inr opts \<Longrightarrow> (\<exists>c. WithTLS c \<in> set opts) \<longleftrightarrow> \<not> cc_Insecure cfg"
  using address_facts(3)[of _ cfg] plain[of cfg fs] encrypted[of cfg fs]
  by (cases "cc_Insecure cfg") (auto split: sum.splits if_splits)

end

lemmas options_defs = metrics_grpcExporterOptions_def metrics_httpExporterOptions_def traces_grpcExporterOptions_def
  traces_httpExporterOptions_def Let_def

interpretation metrics_grpc: exporter_options metrics_grpcExporterOptions GetTLSCredentialsForGRPCExporter "\<lambda>c. [WithEndpoint (Endpoint c)]"
  by unfold_locales (auto simp: options_defs split: sum.split)

interpretation metrics_http: exporter_options metrics_httpExporterOptions GetTLSCredentialsForHTTPExporter
    "\<lambda>c. [WithEndpoint (Endpoint c), WithURLPath (cc_HTTPPath c)]"
  by unfold_locales (auto simp: options_defs split: sum.split)

interpretation traces_grpc: exporter_options traces_grpcExporterOptions GetTLSCredentialsForGRPCExporter "\<lambda>c. [WithEndpoint (Endpoint c)]"
  by unfold_locales (auto simp: options_defs split: sum.split)

interpretation traces_http: exporter_options traces_httpExporterOptions GetTLSCredentialsForHTTPExporter
    "\<lambda>c. [WithEndpoint (Endpoint c), WithURLPath (cc_HTTPPath c)]"
  by unfold_locales (auto simp: options_defs split: sum.split)

text \<open>The headers of a logs exporter: those of the request of the HTTP exporter, none for the other.\<close>

fun logs_sent_headers :: "logs_exporter \<Rightarrow> go_map" where
  "logs_sent_headers (HTTPClientExporter tls cfg) = cc_Headers cfg"
| "logs_sent_headers (GRPCClientExporter e tls) = []"

lemma quoted_value:
  "length val < 2 \<or> \<not> has_prefix val [q] \<or> \<not> has_suffix val [q] \<longleftrightarrow> \<not> (\<exists>v. val = q # v @ [q])"
proof
  assume "length val < 2 \<or> \<not> has_prefix val [q] \<or> \<not> has_suffix val [q]"
  then show "\<not> (\<exists>v. val = q # v @ [q])" by (auto simp: has_prefix_iff has_suffix_iff)
next
  assume n: "\<not> (\<exists>v. val = q # v @ [q])"
  show "length val < 2 \<or> \<not> has_prefix val [q] \<or> \<not> has_suffix val [q]"
  proof (rule ccontr)
    assume "\<not> ?thesis"
    then have p: "has_prefix val [q]" "has_suffix val [q]" and l: "2 \<le> length val" by auto
    obtain r where "val = q # r" using p(1) by (auto simp: has_prefix_iff)
    moreover obtain r' where "val = r' @ [q]" using p(2) by (auto simp: has_suffix_iff)
    ultimately have r: "val = q # r" "val = r' @ [q]" "2 \<le> length val" using l by auto
    then have "r \<noteq> []" by auto
    then have "r = butlast r @ [last r]" by simp
    moreover have "last r = q" using r \<open>r \<noteq> []\<close> by (metis last_ConsR last_snoc)
    ultimately have "val = q # butlast r @ [q]" using r(1) by simp
    with n show False by blast
  qed
qed

text \<open>Attribute flags.  A flag value is accepted exactly when it is a key without equals sign, an
  equals sign and a value in double quotes; then the key gets the value without the quotes, whatever
  is between them, and the other keys are kept.\<close>

lemma key_value_accepts_iff:
  "(fst (KeyValue_Set s v) = None \<longleftrightarrow> (\<exists>k x. s = k @ ''='' @ [CHR 0x22] @ x @ [CHR 0x22] \<and> CHR ''='' \<notin> set k))
   \<and> (CHR ''='' \<in> set k0 \<or> KeyValue_Set (k0 @ ''='' @ [CHR 0x22] @ x0 @ [CHR 0x22]) v = (None, AList.update k0 x0 v))
   \<and> (fst (KeyValue_Set s v) = None \<or> snd (KeyValue_Set s v) = v)"
proof -
  have ok: "KeyValue_Set (k @ ''='' @ [CHR 0x22] @ x @ [CHR 0x22]) v = (None, AList.update k x v)" if "CHR ''='' \<notin> set k" for k x
  proof -
    have "splitn2 CHR ''='' (k @ ''='' @ [CHR 0x22] @ x @ [CHR 0x22]) = [k, CHR 0x22 # x @ [CHR 0x22]]"
      using that by (simp add: splitn2_def)
    then show ?thesis
      unfolding KeyValue_Set_def using quoted_value[of "CHR 0x22 # x @ [CHR 0x22]" "CHR 0x22"] by (auto simp: Let_def)
  qed
  have "\<exists>k x. s = k @ ''='' @ [CHR 0x22] @ x @ [CHR 0x22] \<and> CHR ''='' \<notin> set k" if acc: "fst (KeyValue_Set s v) = None"
  proof -
    obtain k r b where c: "cut1 CHR ''='' s = (k, r, b)" by (cases "cut1 CHR ''='' s")
    with acc have b: "b" by (auto simp: KeyValue_Set_def splitn2_def Let_def split: if_splits)
    then have s: "s = k @ CHR ''='' # r" "CHR ''='' \<notin> set k" using c cut1_found by auto
    have "\<exists>x. r = CHR 0x22 # x @ [CHR 0x22]"
      using acc c b quoted_value[of r "CHR 0x22"] by (auto simp: KeyValue_Set_def splitn2_def Let_def split: if_splits)
    then show ?thesis using s by auto
  qed
  moreover have "fst (KeyValue_Set s v) = None \<or> snd (KeyValue_Set s v) = v"
    by (auto simp: KeyValue_Set_def Let_def)
  ultimately show ?thesis using ok by fastforce
qed


end
