(* ===== verification/Workers.thy ===== *)
theory Workers
  imports EventRate
begin

section \<open>The workers of a generator (internal/telemetrygen: the worker loops and Run)\<close>

text \<open>
  The three generators run the same machine: \<open>Run\<close> adds every worker to a wait group, starts it, sleeps
  for the duration if there is one and clears the running flag, and waits for the group.  A worker
  tests the flag, exports what it generates, waits for its limiter, counts, and leaves when it has
  made its number.  The steps of the workers and of \<open>Run\<close> interleave freely.  Exporting and waiting
  can fail, which ends the process (\<open>logger.Fatal\<close>); a worker that cannot create its exporter returns
  without telling the group.
\<close>

subsection \<open>The machine\<close>

text \<open>What a worker does: whether it can create its exporter, how many iterations it makes (0 for no
  bound), its limit, and what iteration \<open>i\<close> generates with the readings of the clock it makes, if the
  process survives it.\<close>

record 'a job =
  job_create :: bool
  job_num :: nat
  job_limit :: rate_limit
  job_item :: "nat \<Rightarrow> (nat \<Rightarrow> int) \<Rightarrow> 'a option"

datatype pc = AtCreate | AtTest | AtSend | AtDone | AtReturn

record 'a worker =
  w_pc :: pc
  w_i :: nat
  w_out :: "'a list"

record 'a gen_state =
  g_workers :: "'a worker list"
  g_running :: bool
  g_slept :: bool
  g_wg :: int
  g_fatal :: bool

definition init_state :: "int \<Rightarrow> duration \<Rightarrow> 'a gen_state" where
  "init_state workerCount totalDuration =
     \<lparr>g_workers = replicate (nat workerCount) \<lparr>w_pc = AtCreate, w_i = 0, w_out = []\<rparr>, g_running = True,
      g_slept = (totalDuration \<le> 0), g_wg = int (nat workerCount), g_fatal = False\<rparr>"

definition set_worker :: "nat \<Rightarrow> 'a worker \<Rightarrow> 'a gen_state \<Rightarrow> 'a gen_state" where
  "set_worker k w s = s\<lparr>g_workers := (g_workers s)[k := w]\<rparr>"

definition wg_Done :: "'a gen_state \<Rightarrow> 'a gen_state" where
  "wg_Done s = s\<lparr>g_wg := g_wg s - 1\<rparr>"

text \<open>After an iteration the worker leaves the loop if it has a number and has reached it.\<close>

definition finish_iteration :: "'a job \<Rightarrow> nat \<Rightarrow> 'a worker \<Rightarrow> 'a \<Rightarrow> 'a gen_state \<Rightarrow> 'a gen_state" where
  "finish_iteration job k w x s =
     (let w' = w\<lparr>w_i := Suc (w_i w), w_out := w_out w @ [x]\<rparr> in
      if job_num job \<noteq> 0 \<and> w_i w' \<ge> job_num job then wg_Done (set_worker k (w'\<lparr>w_pc := AtDone\<rparr>) s)
      else set_worker k (w'\<lparr>w_pc := AtTest\<rparr>) s)"

inductive gen_step :: "'a job \<Rightarrow> 'a gen_state \<Rightarrow> 'a gen_state \<Rightarrow> bool" for job :: "'a job" where
  created: "\<lbrakk>\<not> g_fatal s; k < length (g_workers s); w = g_workers s ! k; w_pc w = AtCreate; job_create job\<rbrakk>
     \<Longrightarrow> gen_step job s (set_worker k (w\<lparr>w_pc := AtTest\<rparr>) s)"
| not_created: "\<lbrakk>\<not> g_fatal s; k < length (g_workers s); w = g_workers s ! k; w_pc w = AtCreate; \<not> job_create job\<rbrakk>
     \<Longrightarrow> gen_step job s (set_worker k (w\<lparr>w_pc := AtReturn\<rparr>) s)"
| goes_on: "\<lbrakk>\<not> g_fatal s; k < length (g_workers s); w = g_workers s ! k; w_pc w = AtTest; g_running s\<rbrakk>
     \<Longrightarrow> gen_step job s (set_worker k (w\<lparr>w_pc := AtSend\<rparr>) s)"
| stops: "\<lbrakk>\<not> g_fatal s; k < length (g_workers s); w = g_workers s ! k; w_pc w = AtTest; \<not> g_running s\<rbrakk>
     \<Longrightarrow> gen_step job s (wg_Done (set_worker k (w\<lparr>w_pc := AtDone\<rparr>) s))"
| sends: "\<lbrakk>\<not> g_fatal s; k < length (g_workers s); w = g_workers s ! k; w_pc w = AtSend; job_item job (w_i w) now = Some x\<rbrakk>
     \<Longrightarrow> gen_step job s (finish_iteration job k w x s)"
| dies: "\<lbrakk>\<not> g_fatal s; k < length (g_workers s); w = g_workers s ! k; w_pc w = AtSend\<rbrakk>
     \<Longrightarrow> gen_step job s (s\<lparr>g_fatal := True\<rparr>)"
| wakes: "\<lbrakk>\<not> g_fatal s; \<not> g_slept s\<rbrakk> \<Longrightarrow> gen_step job s (s\<lparr>g_running := False, g_slept := True\<rparr>)"

inductive_cases gen_step_E: "gen_step job s s'"

text \<open>\<open>Run\<close> returns when it has slept and the group is empty.\<close>

definition run_returns :: "'a gen_state \<Rightarrow> bool" where
  "run_returns s = (\<not> g_fatal s \<and> g_slept s \<and> g_wg s = 0)"

abbreviation reachable :: "'a job \<Rightarrow> int \<Rightarrow> duration \<Rightarrow> 'a gen_state \<Rightarrow> bool" where
  "reachable job n d s \<equiv> (gen_step job)\<^sup>*\<^sup>* (init_state n d) s"

subsection \<open>The invariant\<close>

text \<open>What a worker has exported, and where it can be.\<close>

definition worker_ok :: "'a job \<Rightarrow> bool \<Rightarrow> 'a worker \<Rightarrow> bool" where
  "worker_ok job running w \<longleftrightarrow>
     length (w_out w) = w_i w
     \<and> (\<forall>j < w_i w. \<exists>now. job_item job j now = Some (w_out w ! j))
     \<and> (job_num job \<noteq> 0 \<longrightarrow> w_i w \<le> job_num job \<and> (w_i w = job_num job \<longrightarrow> w_pc w = AtDone))
     \<and> (w_pc w = AtDone \<and> running \<longrightarrow> job_num job \<noteq> 0 \<and> w_i w = job_num job)
     \<and> (w_pc w \<in> {AtCreate, AtReturn} \<longrightarrow> w_i w = 0)
     \<and> (w_pc w \<in> {AtTest, AtSend, AtDone} \<longrightarrow> job_create job)
     \<and> (w_pc w = AtReturn \<longrightarrow> \<not> job_create job)"

definition gen_inv :: "'a job \<Rightarrow> int \<Rightarrow> duration \<Rightarrow> 'a gen_state \<Rightarrow> bool" where
  "gen_inv job n d s \<longleftrightarrow>
     length (g_workers s) = nat n
     \<and> list_all (worker_ok job (g_running s)) (g_workers s)
     \<and> g_wg s = int (length (filter (\<lambda>w. w_pc w \<noteq> AtDone) (g_workers s)))
     \<and> (d \<le> 0 \<longrightarrow> g_running s \<and> g_slept s)
     \<and> (0 < d \<longrightarrow> g_running s = (\<not> g_slept s))"

lemma gen_inv_init: "gen_inv job n d (init_state n d)"
  by (auto simp: gen_inv_def init_state_def worker_ok_def list_all_iff)

lemma count_update:
  "k < length ws \<Longrightarrow> int (length (filter P (ws[k := w]))) =
     int (length (filter P ws)) + (if P w then 1 else 0) - (if P (ws ! k) then 1 else 0)"
proof (induction ws arbitrary: k)
  case (Cons a ws)
  show ?case
  proof (cases k)
    case (Suc m)
    then have "m < length ws" using Cons.prems by simp
    from Cons.IH[OF this] show ?thesis using Suc by (cases "P w"; cases "P (ws ! m)") simp_all
  qed simp
qed simp

lemma gen_inv_set:
  assumes "gen_inv job n d s" "k < length (g_workers s)" "worker_ok job (g_running s) w'"
    and "w_pc (g_workers s ! k) \<noteq> AtDone"
  shows "w_pc w' \<noteq> AtDone \<Longrightarrow> gen_inv job n d (set_worker k w' s)"
    and "w_pc w' = AtDone \<Longrightarrow> gen_inv job n d (wg_Done (set_worker k w' s))"
proof -
  let ?ws = "(g_workers s)[k := w']"
  have all: "list_all (worker_ok job (g_running s)) ?ws"
    using assms(1-3) by (simp add: gen_inv_def list_all_length nth_list_update)
  have wg: "g_wg s = int (length (filter (\<lambda>w. w_pc w \<noteq> AtDone) (g_workers s)))" using assms(1) by (simp add: gen_inv_def)
  have c: "int (length (filter (\<lambda>w. w_pc w \<noteq> AtDone) ?ws)) = g_wg s + (if w_pc w' \<noteq> AtDone then 1 else 0) - 1"
    using count_update[OF assms(2), of "\<lambda>w. w_pc w \<noteq> AtDone" w'] assms(4) wg by simp
  show "gen_inv job n d (set_worker k w' s)" if "w_pc w' \<noteq> AtDone"
    using assms(1) all c that by (simp add: gen_inv_def set_worker_def)
  show "gen_inv job n d (wg_Done (set_worker k w' s))" if "w_pc w' = AtDone"
    using assms(1) all c that by (simp add: gen_inv_def set_worker_def wg_Done_def)
qed

lemma worker_okD:
  assumes "worker_ok job r w"
  shows "length (w_out w) = w_i w"
    and "j < w_i w \<Longrightarrow> \<exists>now. job_item job j now = Some (w_out w ! j)"
    and "job_num job \<noteq> 0 \<Longrightarrow> w_i w \<le> job_num job"
    and "job_num job \<noteq> 0 \<Longrightarrow> w_pc w \<noteq> AtDone \<Longrightarrow> w_i w < job_num job"
    and "w_pc w = AtDone \<Longrightarrow> r \<Longrightarrow> job_num job \<noteq> 0 \<and> w_i w = job_num job"
    and "w_pc w = AtReturn \<Longrightarrow> \<not> job_create job"
    and "w_pc w = AtDone \<Longrightarrow> job_create job"
  using assms unfolding worker_ok_def by (blast intro: le_neq_implies_less)+

lemma gen_inv_worker: "gen_inv job n d s \<Longrightarrow> w \<in> set (g_workers s) \<Longrightarrow> worker_ok job (g_running s) w"
  unfolding gen_inv_def list_all_iff by blast

lemma worker_ok_stop: "worker_ok job r w \<Longrightarrow> worker_ok job False w"
  unfolding worker_ok_def by blast

lemma gen_inv_step: "gen_step job s s' \<Longrightarrow> gen_inv job n d s \<Longrightarrow> gen_inv job n d s'"
proof (induction rule: gen_step.induct)
  case (created s k w)
  then have "worker_ok job (g_running s) w" by (simp add: gen_inv_def list_all_length)
  with created show ?case by (intro gen_inv_set(1)) (auto simp: worker_ok_def)
next
  case (not_created s k w)
  then have "worker_ok job (g_running s) w" by (simp add: gen_inv_def list_all_length)
  with not_created show ?case by (intro gen_inv_set(1)) (auto simp: worker_ok_def)
next
  case (goes_on s k w)
  then have "worker_ok job (g_running s) w" by (simp add: gen_inv_def list_all_length)
  with goes_on show ?case by (intro gen_inv_set(1)) (auto simp: worker_ok_def)
next
  case (stops s k w)
  then have "worker_ok job (g_running s) w" by (simp add: gen_inv_def list_all_length)
  with stops show ?case by (intro gen_inv_set(2)) (auto simp: worker_ok_def)
next
  case (sends s k w now x)
  then have w: "worker_ok job (g_running s) w" by (simp add: gen_inv_def list_all_length)
  have out: "\<exists>now. job_item job j now = Some ((w_out w @ [x]) ! j)" if "j < Suc (w_i w)" for j
    using w that sends(5) by (cases "j = w_i w") (auto simp: worker_ok_def nth_append)
  let ?w = "w\<lparr>w_i := Suc (w_i w), w_out := w_out w @ [x]\<rparr>"
  show ?case
  proof (cases "job_num job \<noteq> 0 \<and> Suc (w_i w) \<ge> job_num job")
    case True
    then have "finish_iteration job k w x s = wg_Done (set_worker k (?w\<lparr>w_pc := AtDone\<rparr>) s)"
      by (simp add: finish_iteration_def Let_def)
    moreover have "worker_ok job (g_running s) (?w\<lparr>w_pc := AtDone\<rparr>)"
      using w True out sends(4) by (auto simp: worker_ok_def)
    ultimately show ?thesis using sends by (simp add: gen_inv_set(2))
  next
    case False
    then have "finish_iteration job k w x s = set_worker k (?w\<lparr>w_pc := AtTest\<rparr>) s"
      by (auto simp: finish_iteration_def Let_def)
    moreover have "worker_ok job (g_running s) (?w\<lparr>w_pc := AtTest\<rparr>)"
      using w False out sends(4) by (auto simp: worker_ok_def)
    ultimately show ?thesis using sends by (simp add: gen_inv_set(1))
  qed
next
  case (dies s k w)
  then show ?case by (simp add: gen_inv_def)
next
  case (wakes s)
  then show ?case using worker_ok_stop by (auto simp: gen_inv_def list_all_iff)
qed

lemma gen_inv_reachable: "reachable job n d s \<Longrightarrow> gen_inv job n d s"
  by (induction rule: rtranclp_induct) (auto intro: gen_inv_init gen_inv_step)

subsection \<open>Every bounded run ends\<close>

fun worker_weight :: "nat \<Rightarrow> 'a worker \<Rightarrow> nat" where
  "worker_weight n w = (case w_pc w of
     AtCreate \<Rightarrow> 2 * (n - w_i w) + 2 | AtTest \<Rightarrow> 2 * (n - w_i w) + 1 | AtSend \<Rightarrow> 2 * (n - w_i w) | _ \<Rightarrow> 0)"

definition state_weight :: "'a job \<Rightarrow> 'a gen_state \<Rightarrow> nat" where
  "state_weight job s = sum_list (map (worker_weight (job_num job)) (g_workers s))
     + (if g_fatal s then 0 else 1) + (if g_slept s then 0 else 1)"

lemma weight_update:
  assumes "k < length ws" "(f w' :: nat) < f (ws ! k)"
  shows "sum_list (map f (ws[k := w'])) < sum_list (map f ws)"
proof -
  have "sum_list (map f (ws[k := w'])) + f (ws ! k) = sum_list (map f ws) + f w'"
    using assms(1)
  proof (induction ws arbitrary: k)
    case (Cons a ws)
    show ?case
    proof (cases k)
      case (Suc m)
      then have "m < length ws" using Cons.prems by simp
      from Cons.IH[OF this] show ?thesis using Suc by simp
    qed simp
  qed simp
  then show ?thesis using assms(2) by linarith
qed

lemma step_decreases:
  assumes "gen_step job s s'" "gen_inv job n d s" "job_num job \<noteq> 0"
  shows "state_weight job s' < state_weight job s"
proof -
  have bound: "w_i (g_workers s ! k) < job_num job" if "k < length (g_workers s)" "w_pc (g_workers s ! k) \<noteq> AtDone" for k
  proof -
    show ?thesis using worker_okD(4)[OF gen_inv_worker[OF assms(2)]] that assms(3) by simp
  qed
  from assms(1) show ?thesis
  proof cases
    case (created k w)
    then show ?thesis unfolding state_weight_def set_worker_def by (simp add: weight_update)
  next
    case (not_created k w)
    then show ?thesis unfolding state_weight_def set_worker_def by (simp add: weight_update)
  next
    case (goes_on k w)
    then show ?thesis unfolding state_weight_def set_worker_def by (simp add: weight_update)
  next
    case (stops k w)
    then show ?thesis unfolding state_weight_def set_worker_def wg_Done_def by (simp add: weight_update)
  next
    case (sends k w now x)
    then have "w_i w < job_num job" using bound[of k] by simp
    then show ?thesis using sends
      unfolding state_weight_def set_worker_def wg_Done_def finish_iteration_def by (simp add: weight_update Let_def)
  next
    case (dies k w)
    then show ?thesis unfolding state_weight_def by simp
  next
    case wakes
    then show ?thesis unfolding state_weight_def by simp
  qed
qed

lemma no_infinite_run:
  assumes "job_num job \<noteq> 0" "f 0 = init_state n d"
  shows "\<exists>k. \<not> gen_step job (f k) (f (Suc k))"
proof (rule ccontr)
  assume "\<not> ?thesis"
  then have step: "gen_step job (f k) (f (Suc k))" for k by blast
  have inv: "gen_inv job n d (f k)" for k
  proof (induction k)
    case 0
    then show ?case using assms(2) gen_inv_init by simp
  next
    case (Suc k)
    show ?case by (rule gen_inv_step[OF step Suc])
  qed
  have "state_weight job (f k) + k \<le> state_weight job (f 0)" for k
  proof (induction k)
    case (Suc k)
    have "state_weight job (f (Suc k)) < state_weight job (f k)"
      by (rule step_decreases[OF step inv assms(1)])
    then show ?case using Suc by linarith
  qed simp
  from this[of "Suc (state_weight job (f 0))"] show False by simp
qed

lemma wg_zero_iff:
  "gen_inv job n d s \<Longrightarrow> g_wg s = 0 \<longleftrightarrow> list_all (\<lambda>w. w_pc w = AtDone) (g_workers s)"
  by (auto simp: gen_inv_def list_all_iff filter_empty_conv)

lemma progress:
  assumes "gen_inv job n d s" "job_create job" "\<not> g_fatal s" "\<not> run_returns s"
  shows "\<exists>s'. gen_step job s s'"
proof (cases "g_slept s")
  case False
  then show ?thesis using gen_step.wakes assms(3) by blast
next
  case True
  then have "g_wg s \<noteq> 0" using assms(3,4) by (simp add: run_returns_def)
  then obtain k where k: "k < length (g_workers s)" "w_pc (g_workers s ! k) \<noteq> AtDone"
    using wg_zero_iff[OF assms(1)] by (auto simp: list_all_length)
  have "w_pc (g_workers s ! k) \<noteq> AtReturn"
    using worker_okD(6)[OF gen_inv_worker[OF assms(1) nth_mem[OF k(1)]]] assms(2) by blast
  then consider "w_pc (g_workers s ! k) = AtCreate" | "w_pc (g_workers s ! k) = AtTest" | "w_pc (g_workers s ! k) = AtSend"
    using k(2) by (cases "w_pc (g_workers s ! k)") auto
  then show ?thesis
  proof cases
    case 1
    then show ?thesis using gen_step.created[OF assms(3) k(1) refl] assms(2) by blast
  next
    case 2
    then show ?thesis using gen_step.goes_on[OF assms(3) k(1) refl] gen_step.stops[OF assms(3) k(1) refl] by blast
  next
    case 3
    then show ?thesis using gen_step.dies[OF assms(3) k(1) refl] by blast
  qed
qed

text \<open>A worker that made its number: as many items, each the one of its iteration.\<close>

definition made_all :: "'a job \<Rightarrow> 'a worker \<Rightarrow> bool" where
  "made_all job w \<longleftrightarrow> length (w_out w) = job_num job \<and> (\<forall>j < job_num job. \<exists>now. job_item job j now = Some (w_out w ! j))"

lemma returns_exact:
  assumes "gen_inv job n d s" "d \<le> 0" "run_returns s"
  shows "job_num job \<noteq> 0 \<or> n \<le> 0" "length (g_workers s) = nat n" "list_all (made_all job) (g_workers s)"
proof -
  have fin: "list_all (\<lambda>w. w_pc w = AtDone) (g_workers s)"
    using assms(3) wg_zero_iff[OF assms(1)] by (simp add: run_returns_def)
  have run: "g_running s" and len: "length (g_workers s) = nat n" and ok: "list_all (worker_ok job (g_running s)) (g_workers s)"
    using assms(1,2) by (auto simp: gen_inv_def)
  have m: "job_num job \<noteq> 0 \<and> made_all job w" if "w \<in> set (g_workers s)" for w
  proof -
    have w: "worker_ok job (g_running s) w" "w_pc w = AtDone" using that ok fin unfolding list_all_iff by blast+
    show ?thesis using worker_okD(5)[OF w(1,2) run] worker_okD(1,2)[OF w(1)] by (auto simp: made_all_def)
  qed
  show "length (g_workers s) = nat n" by (rule len)
  show "list_all (made_all job) (g_workers s)" using m by (simp add: list_all_iff)
  show "job_num job \<noteq> 0 \<or> n \<le> 0" using m len by (cases "g_workers s") auto
qed

lemma create_failure_blocks:
  assumes "reachable job n d s" "\<not> job_create job" "0 < n"
  shows "\<not> run_returns s"
proof
  assume "run_returns s"
  then have "list_all (\<lambda>w. w_pc w = AtDone) (g_workers s)"
    using wg_zero_iff[OF gen_inv_reachable[OF assms(1)]] by (simp add: run_returns_def)
  moreover have "length (g_workers s) = nat n" using gen_inv_reachable[OF assms(1)] by (simp add: gen_inv_def)
  ultimately obtain w where "w \<in> set (g_workers s)" "w_pc w = AtDone" using assms(3) by (cases "g_workers s") auto
  then show False using worker_okD(7)[OF gen_inv_worker[OF gen_inv_reachable[OF assms(1)]]] assms(2) by blast
qed

lemma never_more:
  assumes "reachable job n d s" "job_num job \<noteq> 0" "w \<in> set (g_workers s)"
  shows "length (w_out w) \<le> job_num job"
  using worker_okD(1,3)[OF gen_inv_worker[OF gen_inv_reachable[OF assms(1)] assms(3)]] assms(2) by simp

end
