(* ===== verification/Signals.thy ===== *)
theory Signals
  imports OtlpConfig Workers GoTime Transport
begin

section \<open>Logs, metrics and traces (internal/telemetrygen/logs, metrics, traces)\<close>

text \<open>
  What one iteration of each worker generates, and how \<open>Run\<close> and \<open>Start\<close> set up the machine of theory
  \<open>Workers\<close>.  A clock gives the readings of \<open>time.Now\<close> an iteration makes, in order.  The exporters, the
  tracer's contexts and the propagator are parameters.
\<close>

definition limit_of :: "int \<Rightarrow> rate_limit" where
  "limit_of rate = (if rate = 0 then Lim_Inf else Lim (f_of_int rate))"

text \<open>\<open>PutStr\<close> on the attributes of a log record, and the set of attributes of a data point: the last value
  of a key counts.\<close>

definition put_attrs :: "go_map \<Rightarrow> go_map \<Rightarrow> go_map" where
  "put_attrs attrs m = fold (\<lambda>(k, v). AList.update k v) attrs m"

subsection \<open>Logs\<close>

record logs_config =
  lg_Common :: common_config
  lg_NumLogs :: int
  lg_Body :: string

definition logs_Flags :: "logs_config \<Rightarrow> logs_config" where
  "logs_Flags c = c\<lparr>lg_Common := (CommonFlags (lg_Common c))\<lparr>cc_HTTPPath := ''/v1/logs''\<rparr>, lg_NumLogs := 1, lg_Body := ''the message''\<rparr>"

record log_record =
  lr_resource :: go_map
  lr_body :: string
  lr_time :: int
  lr_dropped :: nat
  lr_severity :: nat
  lr_severity_text :: string
  lr_attrs :: go_map

text \<open>The key of each attribute is the text of its value.\<close>

definition log_attrs :: "go_map \<Rightarrow> go_map" where
  "log_attrs telemetryAttributes =
     fold (\<lambda>(k, v) lattrs. AList.update v v lattrs) telemetryAttributes (AList.update ''app'' ''server'' [])"

definition log_item :: "logs_config \<Rightarrow> nat \<Rightarrow> (nat \<Rightarrow> int) \<Rightarrow> log_record option" where
  "log_item c i clock =
     Some \<lparr>lr_resource = put_attrs (GetAttributes (lg_Common c)) [], lr_body = lg_Body c, lr_time = clock 0, lr_dropped = 1,
           lr_severity = 9, lr_severity_text = ''Info'', lr_attrs = log_attrs (GetTelemetryAttributes (lg_Common c))\<rparr>"

definition logs_Run :: "logs_config \<Rightarrow> string + log_record job \<times> log_record gen_state" where
  "logs_Run c =
     (let d = cc_TotalDuration (lg_Common c) in
      if \<not> d > 0 \<and> lg_NumLogs c \<le> 0 then Inl ''either `logs` or `duration` must be greater than 0''
      else let c = (if d > 0 then c\<lparr>lg_NumLogs := 0\<rparr> else c) in
        Inr (\<lparr>job_create = True, job_num = nat (lg_NumLogs c), job_limit = limit_of (cc_Rate (lg_Common c)), job_item = log_item c\<rparr>,
             init_state (cc_WorkerCount (lg_Common c)) d))"

definition logs_Start :: "tls_files \<Rightarrow> (string \<Rightarrow> string option) \<Rightarrow> logs_config \<Rightarrow> string + logs_exporter \<times> log_record job \<times> log_record gen_state" where
  "logs_Start fs grpc_error c =
     res_bind (newExporter fs grpc_error (lg_Common c)) (\<lambda>e.
     res_bind (logs_Run c) (\<lambda>(job, s). Inr (e, job, s)))"

text \<open>The request of the HTTP exporter, and the error of its answer.\<close>

datatype log_export_error = ErrLogRequest string | ErrLogDo string | ErrLogStatus int

definition log_url :: "common_config \<Rightarrow> string" where
  "log_url cfg =
     (let scheme = (if cc_Insecure cfg then ''http'' else ''https'')
      in scheme @ ''://'' @ Endpoint cfg @ cc_HTTPPath cfg)"

definition log_headers :: "common_config \<Rightarrow> header" where
  "log_headers cfg =
     header_Set ''Content-Type'' ''application/x-protobuf''
       (fold (\<lambda>(k, v). header_Set k v) (cc_Headers cfg) Map.empty)"

definition http_export ::
    "(string \<Rightarrow> string option) \<Rightarrow> (string \<Rightarrow> header \<Rightarrow> bytes \<Rightarrow> string + int) \<Rightarrow> common_config \<Rightarrow> string + bytes \<Rightarrow> log_export_error option" where
  "http_export bad_url client_Do cfg marshalled =
     (case marshalled of
        Inl e \<Rightarrow> Some (ErrLogRequest (''failed to marshal logs to protobuf: '' @ e))
      | Inr body \<Rightarrow>
          (case bad_url (log_url cfg) of
             Some e \<Rightarrow> Some (ErrLogRequest (''failed to create logs HTTP request: '' @ e))
           | None \<Rightarrow>
               (case client_Do (log_url cfg) (log_headers cfg) body of
                  Inl e \<Rightarrow> Some (ErrLogDo e)
                | Inr status \<Rightarrow> if status \<noteq> 200 then Some (ErrLogStatus status) else None)))"

subsection \<open>Metrics\<close>

record metrics_config =
  mc_Common :: common_config
  mc_NumMetrics :: int
  mc_MetricType :: string

definition metricType_Set :: "string \<Rightarrow> string \<Rightarrow> string option \<times> string" where
  "metricType_Set v e =
     (if v = ''Gauge'' \<or> v = ''Sum'' then (None, v)
      else (Some ''must be one of \"Gauge\" or \"Sum\"'', e))"

definition metrics_Flags :: "metrics_config \<Rightarrow> metrics_config" where
  "metrics_Flags c =
     c\<lparr>mc_MetricType := ''Gauge'', mc_Common := (CommonFlags (mc_Common c))\<lparr>cc_HTTPPath := ''/v1/metrics''\<rparr>, mc_NumMetrics := 1\<rparr>"

datatype metric_data =
    Gauge "(int \<times> nat \<times> go_map) list"
  | Sum_Cumulative "(int \<times> int \<times> nat \<times> go_map) list"

text \<open>A point is its times, its value and its attributes; the sum starts a second before a first reading of
  the clock and is at a second one.  An unknown type ends the process.\<close>

definition metric_item :: "metrics_config \<Rightarrow> nat \<Rightarrow> (nat \<Rightarrow> int) \<Rightarrow> (go_map \<times> string \<times> metric_data) option" where
  "metric_item c i clock =
     (let attrs = put_attrs (GetTelemetryAttributes (mc_Common c)) [];
          res = put_attrs (GetAttributes (mc_Common c)) []
      in if mc_MetricType c = ''Gauge'' then Some (res, ''gen'', Gauge [(clock 0, i, attrs)])
         else if mc_MetricType c = ''Sum'' then Some (res, ''gen'', Sum_Cumulative [(time_Add (clock 0) (- dur_second), clock 1, i, attrs)])
         else None)"

text \<open>What \<open>Start\<close> gives to \<open>Run\<close> for creating an exporter.\<close>

definition metrics_exporter :: "tls_files \<Rightarrow> (bool \<Rightarrow> exp_option list \<Rightarrow> string option) \<Rightarrow> common_config \<Rightarrow> string + exp_option list" where
  "metrics_exporter fs new_error cfg =
     (if cc_UseHTTP cfg then
        res_bind (metrics_httpExporterOptions fs cfg) (\<lambda>exporterOpts.
          case new_error True exporterOpts of
            Some e \<Rightarrow> Inl (''failed to obtain OTLP HTTP exporter: '' @ e) | None \<Rightarrow> Inr exporterOpts)
      else
        res_bind (metrics_grpcExporterOptions fs cfg) (\<lambda>exporterOpts.
          case new_error False exporterOpts of
            Some e \<Rightarrow> Inl (''failed to obtain OTLP gRPC exporter: '' @ e) | None \<Rightarrow> Inr exporterOpts))"

definition metrics_Run :: "bool \<Rightarrow> metrics_config \<Rightarrow> string + (go_map \<times> string \<times> metric_data) job \<times> (go_map \<times> string \<times> metric_data) gen_state" where
  "metrics_Run exporter_ok c =
     (let d = cc_TotalDuration (mc_Common c) in
      if \<not> d > 0 \<and> mc_NumMetrics c \<le> 0 then Inl ''either `metrics` or `duration` must be greater than 0''
      else let c = (if d > 0 then c\<lparr>mc_NumMetrics := 0\<rparr> else c) in
        Inr (\<lparr>job_create = exporter_ok, job_num = nat (mc_NumMetrics c), job_limit = limit_of (cc_Rate (mc_Common c)), job_item = metric_item c\<rparr>,
             init_state (cc_WorkerCount (mc_Common c)) d))"

definition metrics_Start ::
    "tls_files \<Rightarrow> (bool \<Rightarrow> exp_option list \<Rightarrow> string option) \<Rightarrow> metrics_config
       \<Rightarrow> string + (go_map \<times> string \<times> metric_data) job \<times> (go_map \<times> string \<times> metric_data) gen_state" where
  "metrics_Start fs new_error cfg = metrics_Run (is_ok (metrics_exporter fs new_error (mc_Common cfg))) cfg"

subsection \<open>Traces\<close>

record traces_config =
  tc_Common :: common_config
  tc_NumTraces :: int
  tc_NumChildSpans :: int
  tc_PropagateContext :: bool
  tc_ServiceName :: string
  tc_StatusCode :: string
  tc_Batch :: bool
  tc_LoadSize :: int
  tc_SpanDuration :: duration

definition traces_Flags :: "traces_config \<Rightarrow> traces_config" where
  "traces_Flags c =
     c\<lparr>tc_Common := (CommonFlags (tc_Common c))\<lparr>cc_HTTPPath := ''/v1/traces''\<rparr>, tc_NumTraces := 1, tc_NumChildSpans := 1,
       tc_PropagateContext := False, tc_ServiceName := ''telemetrygen'', tc_StatusCode := ''0'', tc_Batch := True,
       tc_LoadSize := 0, tc_SpanDuration := 123000\<rparr>"

datatype status_code = Unset | StatusError | StatusOk

text \<open>\<open>strings.ToLower\<close> on ASCII text.\<close>

definition to_lower :: "string \<Rightarrow> string" where
  "to_lower s = map lower_char s"

definition status_of :: "string \<Rightarrow> status_code option" where
  "status_of s =
     (let t = to_lower s in
      if t = ''0'' \<or> t = ''unset'' \<or> t = '''' then Some Unset
      else if t = ''1'' \<or> t = ''error'' then Some StatusError
      else if t = ''2'' \<or> t = ''ok'' then Some StatusOk
      else None)"

datatype span_kind = SpanKindClient | SpanKindServer

record 'c span =
  sp_name :: string
  sp_kind :: span_kind
  sp_parent :: "'c option"
  sp_attrs :: go_map
  sp_start :: int
  sp_end :: int
  sp_status :: status_code

text \<open>The contexts of a tracer: the one \<open>Start\<close> returns in an iteration, and what injecting it into headers
  and extracting it again gives.\<close>

record 'c tracer =
  tr_context :: "nat \<Rightarrow> 'c"
  tr_remote :: "'c \<Rightarrow> 'c"

definition fakeIP :: string where "fakeIP = ''1.2.3.4''"
definition charactersPerMB :: nat where "charactersPerMB = 1024 * 1024"

definition load_attrs :: "nat \<Rightarrow> go_map" where
  "load_attrs loadSize = map (\<lambda>j. (''load-'' @ nat_str j, replicate charactersPerMB (CHR 0x00))) [0..<loadSize]"

text \<open>The loop over the child spans: the children, and the end timestamp it leaves.\<close>

fun child_loop :: "'c \<Rightarrow> go_map \<Rightarrow> status_code \<Rightarrow> duration \<Rightarrow> nat \<Rightarrow> nat \<Rightarrow> int \<Rightarrow> int \<Rightarrow> int option \<Rightarrow> 'c span list \<times> int option" where
  "child_loop childCtx attrs status d 0 j spanStart spanEnd endTimestamp = ([], endTimestamp)"
| "child_loop childCtx attrs status d (Suc n) j spanStart spanEnd endTimestamp =
     (case child_loop childCtx attrs status d n (Suc j) spanEnd (time_Add spanEnd d) (Some spanEnd) of
        (children, e) \<Rightarrow>
          (\<lparr>sp_name = ''okey-dokey-'' @ nat_str j, sp_kind = SpanKindServer, sp_parent = Some childCtx,
            sp_attrs = put_attrs attrs [(''net.peer.ip'', fakeIP), (''peer.service'', ''telemetrygen-client'')],
            sp_start = spanStart, sp_end = spanEnd, sp_status = status\<rparr> # children, e))"

definition trace_item :: "'c tracer \<Rightarrow> status_code \<Rightarrow> nat \<Rightarrow> traces_config \<Rightarrow> nat \<Rightarrow> (nat \<Rightarrow> int) \<Rightarrow> ('c span list \<times> 'c span) option" where
  "trace_item tr status numChildSpans c i clock =
     (let attrs = GetTelemetryAttributes (tc_Common c);
          spanStart = clock 0;
          spanEnd = time_Add spanStart (tc_SpanDuration c);
          ctx = tr_context tr i;
          childCtx = (if tc_PropagateContext c then tr_remote tr ctx else ctx);
          (children, endTimestamp) = child_loop childCtx attrs status (tc_SpanDuration c) numChildSpans 0 spanStart spanEnd None
      in Some (children,
           \<lparr>sp_name = ''lets-go'', sp_kind = SpanKindClient, sp_parent = None,
            sp_attrs = put_attrs (load_attrs (nat (tc_LoadSize c)))
              (put_attrs attrs [(''net.peer.ip'', fakeIP), (''peer.service'', ''telemetrygen-server'')]),
            sp_start = spanStart, sp_end = (case endTimestamp of Some e \<Rightarrow> e | None \<Rightarrow> clock 1), sp_status = status\<rparr>))"

definition child_spans :: "int \<Rightarrow> nat" where
  "child_spans n = (let x = f_of_int n in if f_lt (Fin 1) x then f_trunc_nat x else 1)"

definition traces_Run :: "'c tracer \<Rightarrow> traces_config \<Rightarrow> string + ('c span list \<times> 'c span) job \<times> ('c span list \<times> 'c span) gen_state" where
  "traces_Run tr c =
     (let d = cc_TotalDuration (tc_Common c) in
      if \<not> d > 0 \<and> tc_NumTraces c \<le> 0 then Inl ''either `traces` or `duration` must be greater than 0''
      else let c = (if d > 0 then c\<lparr>tc_NumTraces := 0\<rparr> else c) in
        (case status_of (tc_StatusCode c) of
           None \<Rightarrow> Inl (''expected `status-code` to be one of (Unset, Error, Ok) or (0, 1, 2), got '' @ tc_StatusCode c)
         | Some status \<Rightarrow>
             Inr (\<lparr>job_create = True, job_num = nat (tc_NumTraces c), job_limit = limit_of (cc_Rate (tc_Common c)),
                   job_item = trace_item tr status (child_spans (tc_NumChildSpans c)) c\<rparr>,
                  init_state (cc_WorkerCount (tc_Common c)) d)))"

text \<open>The set-up of the provider: the exporter's options, the resource's attributes and the registered span
  processors, of which there is one when batching and none otherwise.\<close>

record trace_provider =
  tp_exporter :: "exp_option list"
  tp_attributes :: go_map
  tp_processors :: "exp_option list list"

definition trace_setup :: "tls_files \<Rightarrow> (bool \<Rightarrow> exp_option list \<Rightarrow> string option) \<Rightarrow> traces_config \<Rightarrow> string + trace_provider" where
  "trace_setup fs new_error cfg =
     res_bind
       (if cc_UseHTTP (tc_Common cfg) then
          res_bind (traces_httpExporterOptions fs (tc_Common cfg)) (\<lambda>opts.
            case new_error True opts of Some e \<Rightarrow> Inl (''failed to obtain OTLP HTTP exporter: '' @ e) | None \<Rightarrow> Inr opts)
        else
          res_bind (traces_grpcExporterOptions fs (tc_Common cfg)) (\<lambda>opts.
            case new_error False opts of Some e \<Rightarrow> Inl (''failed to obtain OTLP gRPC exporter: '' @ e) | None \<Rightarrow> Inr opts))
       (\<lambda>exp. let ssp = (if tc_Batch cfg then Some exp else None);
                  attributes = (''service.name'', tc_ServiceName cfg) # GetAttributes (tc_Common cfg);
                  processors = (if tc_Batch cfg then (case ssp of Some p \<Rightarrow> [p] | None \<Rightarrow> []) else [])
              in Inr \<lparr>tp_exporter = exp, tp_attributes = put_attrs attributes [], tp_processors = processors\<rparr>)"

definition traces_Start ::
    "tls_files \<Rightarrow> (bool \<Rightarrow> exp_option list \<Rightarrow> string option) \<Rightarrow> 'c tracer \<Rightarrow> traces_config
       \<Rightarrow> string + trace_provider \<times> ('c span list \<times> 'c span) job \<times> ('c span list \<times> 'c span) gen_state" where
  "traces_Start fs new_error tr cfg =
     res_bind (trace_setup fs new_error cfg) (\<lambda>tp.
     res_bind (traces_Run tr cfg) (\<lambda>(job, s). Inr (tp, job, s)))"

text \<open>The spans that reach an exporter: each processor gets every ended span.\<close>

definition exported_spans :: "trace_provider \<Rightarrow> ('c span list \<times> 'c span) gen_state \<Rightarrow> 'c span list" where
  "exported_spans tp s =
     concat (map (\<lambda>p. concat (map (\<lambda>w. concat (map (\<lambda>(cs, p). cs @ [p]) (w_out w))) (g_workers s))) (tp_processors tp))"

subsection \<open>Properties of the runs\<close>

text \<open>A run completes when there is no infinite run, and a run that can go no further has died on an exporter or
  limiter error or returned, every worker having exported its number of items, each as it should be.\<close>

definition run_completes :: "'a job \<Rightarrow> 'a gen_state \<Rightarrow> int \<Rightarrow> int \<Rightarrow> ('a \<Rightarrow> bool) \<Rightarrow> bool" where
  "run_completes job s0 workers num good \<longleftrightarrow>
     (\<forall>f. f 0 = s0 \<longrightarrow> (\<exists>k. \<not> gen_step job (f k) (f (Suc k))))
     \<and> (\<forall>s. (gen_step job)\<^sup>*\<^sup>* s0 s \<and> (\<nexists>s'. gen_step job s s') \<longrightarrow>
          g_fatal s \<or> run_returns s \<and> length (g_workers s) = nat workers
            \<and> list_all (\<lambda>w. length (w_out w) = nat num \<and> list_all good (w_out w)) (g_workers s))"

text \<open>The contract of the three \<open>Run\<close> functions: a run needs a duration or a number, starts every worker, has
  the number only without a duration, and every item it makes is one of its configuration.\<close>

locale signal_generator =
  fixes run :: "'c \<Rightarrow> string + 'a job \<times> 'a gen_state" and common :: "'c \<Rightarrow> common_config" and num :: "'c \<Rightarrow> int"
    and create :: bool and produces :: "'c \<Rightarrow> 'a \<Rightarrow> bool"
  assumes accepted: "run c = Inr (job, s0) \<Longrightarrow> 0 < cc_TotalDuration (common c) \<or> 0 < num c"
    and start: "run c = Inr (job, s0) \<Longrightarrow> s0 = init_state (cc_WorkerCount (common c)) (cc_TotalDuration (common c))"
    and number: "run c = Inr (job, s0) \<Longrightarrow> job_num job = (if 0 < cc_TotalDuration (common c) then 0 else nat (num c))"
    and creates: "run c = Inr (job, s0) \<Longrightarrow> job_create job = create"
    and item: "run c = Inr (job, s0) \<Longrightarrow> job_item job j clock = Some x \<Longrightarrow> produces c x"
begin

lemma bounded:
  assumes "run c = Inr (job, s0)" "cc_TotalDuration (common c) \<le> 0"
  shows "job_num job = nat (num c)" "job_num job \<noteq> 0"
  using accepted[OF assms(1)] number[OF assms(1)] assms(2) by auto

lemma ends:
  assumes "run c = Inr (job, s0)" "cc_TotalDuration (common c) \<le> 0" "f 0 = s0"
  shows "\<exists>k. \<not> gen_step job (f k) (f (Suc k))"
  using no_infinite_run[OF bounded(2)[OF assms(1,2)]] assms(3) start[OF assms(1)] by simp

lemma outputs:
  assumes "run c = Inr (job, s0)" "(gen_step job)\<^sup>*\<^sup>* s0 s" "w \<in> set (g_workers s)"
  shows "list_all (produces c) (w_out w)"
    and "0 < cc_TotalDuration (common c) \<or> length (w_out w) \<le> nat (num c)"
proof -
  have reach: "reachable job (cc_WorkerCount (common c)) (cc_TotalDuration (common c)) s" using assms(2) start[OF assms(1)] by simp
  note ok = gen_inv_worker[OF gen_inv_reachable[OF reach] assms(3)]
  have "produces c (w_out w ! j)" if j: "j < length (w_out w)" for j
  proof -
    obtain now where "job_item job j now = Some (w_out w ! j)"
      using worker_okD(2)[OF ok, of j] worker_okD(1)[OF ok] j by auto
    then show ?thesis by (rule item[OF assms(1)])
  qed
  then show "list_all (produces c) (w_out w)" by (simp add: list_all_length)
  show "0 < cc_TotalDuration (common c) \<or> length (w_out w) \<le> nat (num c)"
    using never_more[OF reach _ assms(3)] number[OF assms(1)] accepted[OF assms(1)]
    by (cases "0 < cc_TotalDuration (common c)") auto
qed

lemma completes:
  assumes "run c = Inr (job, s0)" "cc_TotalDuration (common c) \<le> 0" create
    and "(gen_step job)\<^sup>*\<^sup>* s0 s" "\<nexists>s'. gen_step job s s'" "\<not> g_fatal s"
  shows "run_returns s \<and> length (g_workers s) = nat (cc_WorkerCount (common c))
    \<and> list_all (\<lambda>w. length (w_out w) = nat (num c) \<and> list_all (produces c) (w_out w)) (g_workers s)"
proof -
  have reach: "reachable job (cc_WorkerCount (common c)) (cc_TotalDuration (common c)) s" using assms(4) start[OF assms(1)] by simp
  note inv = gen_inv_reachable[OF reach]
  have "job_create job" using creates[OF assms(1)] assms(3) by simp
  then have returns: "run_returns s" using progress[OF inv _ assms(6)] assms(5) by blast
  moreover note exact = returns_exact(2,3)[OF inv assms(2) returns]
  ultimately show ?thesis
    using outputs(1)[OF assms(1,4)] bounded(1)[OF assms(1,2)] by (auto simp: list_all_iff made_all_def)
qed

lemma run_completes:
  assumes "run c = Inr (job, s0)" "cc_TotalDuration (common c) \<le> 0" create
  shows "run_completes job s0 (cc_WorkerCount (common c)) (num c) (produces c)"
  using ends[OF assms(1,2)] completes[OF assms] unfolding run_completes_def by blast

lemma blocks:
  assumes "run c = Inr (job, s0)" "\<not> create" "0 < cc_WorkerCount (common c)" "(gen_step job)\<^sup>*\<^sup>* s0 s"
  shows "\<not> run_returns s"
  using create_failure_blocks[of job] creates[OF assms(1)] start[OF assms(1)] assms(2-4) by blast

end

lemma logs_Run_Inr:
  "logs_Run c = Inr (job, s0) \<longleftrightarrow>
     (0 < cc_TotalDuration (lg_Common c) \<or> 0 < lg_NumLogs c) \<and>
     job = \<lparr>job_create = True, job_num = (if 0 < cc_TotalDuration (lg_Common c) then 0 else nat (lg_NumLogs c)),
            job_limit = limit_of (cc_Rate (lg_Common c)), job_item = log_item c\<rparr> \<and>
     s0 = init_state (cc_WorkerCount (lg_Common c)) (cc_TotalDuration (lg_Common c))"
proof -
  have "log_item (c\<lparr>lg_NumLogs := n\<rparr>) = log_item c" for n by (auto simp: log_item_def fun_eq_iff)
  then show ?thesis by (auto simp: logs_Run_def Let_def)
qed

lemma metrics_Run_Inr:
  "metrics_Run ok c = Inr (job, s0) \<longleftrightarrow>
     (0 < cc_TotalDuration (mc_Common c) \<or> 0 < mc_NumMetrics c) \<and>
     job = \<lparr>job_create = ok, job_num = (if 0 < cc_TotalDuration (mc_Common c) then 0 else nat (mc_NumMetrics c)),
            job_limit = limit_of (cc_Rate (mc_Common c)), job_item = metric_item c\<rparr> \<and>
     s0 = init_state (cc_WorkerCount (mc_Common c)) (cc_TotalDuration (mc_Common c))"
proof -
  have "metric_item (c\<lparr>mc_NumMetrics := n\<rparr>) = metric_item c" for n by (simp add: metric_item_def fun_eq_iff Let_def)
  then show ?thesis by (auto simp: metrics_Run_def Let_def)
qed

lemma traces_Run_Inr:
  "traces_Run tr c = Inr (job, s0) \<longleftrightarrow>
     (0 < cc_TotalDuration (tc_Common c) \<or> 0 < tc_NumTraces c) \<and>
     (\<exists>status. status_of (tc_StatusCode c) = Some status \<and>
       job = \<lparr>job_create = True, job_num = (if 0 < cc_TotalDuration (tc_Common c) then 0 else nat (tc_NumTraces c)),
              job_limit = limit_of (cc_Rate (tc_Common c)), job_item = trace_item tr status (child_spans (tc_NumChildSpans c)) c\<rparr>) \<and>
     s0 = init_state (cc_WorkerCount (tc_Common c)) (cc_TotalDuration (tc_Common c))"
proof -
  have "trace_item tr status k (c\<lparr>tc_NumTraces := n\<rparr>) = trace_item tr status k c" for n status k
    by (auto simp: trace_item_def fun_eq_iff)
  then show ?thesis by (auto simp: traces_Run_def Let_def split: option.splits)
qed

interpretation logs: signal_generator logs_Run lg_Common lg_NumLogs True "\<lambda>c r. lr_body r = lg_Body c"
  by unfold_locales (auto simp: logs_Run_Inr log_item_def)

interpretation metrics: signal_generator "metrics_Run ok" mc_Common mc_NumMetrics ok "\<lambda>c x. fst (snd x) = ''gen''" for ok
  by unfold_locales (auto simp: metrics_Run_Inr metric_item_def Let_def split: if_splits)

text \<open>Attributes of log records.  A record has an attribute for each value of the telemetry attributes,
  keyed by the value itself, and the application unless a value is \<open>app\<close>; the configured keys are lost.\<close>

lemma log_attributes_keyed_by_value:
  "map_of (log_attrs attrs) k =
     (if k \<in> snd ` set attrs then Some k else if k = ''app'' then Some ''server'' else None)"
proof -
  have "map_of (fold (\<lambda>(k, v). AList.update v v) attrs m) = (\<lambda>k. if k \<in> snd ` set attrs then Some k else map_of m k)" for m
    by (induction attrs arbitrary: m) (auto simp: AList.update_conv' fun_eq_iff)
  then show ?thesis by (simp add: log_attrs_def)
qed

text \<open>C38 (metrics without an exporter).  When the exporter cannot be created and there is a worker, \<open>Run\<close>
  never returns: every worker returns without telling the wait group.\<close>

theorem metrics_run_blocks:
  assumes "metrics_exporter fs new_error (mc_Common c) = Inl e" "0 < cc_WorkerCount (mc_Common c)"
    and "metrics_Start fs new_error c = Inr (job, s0)" "(gen_step job)\<^sup>*\<^sup>* s0 s"
  shows "\<not> run_returns s"
proof -
  have "metrics_Run False c = Inr (job, s0)" using assms(1,3) by (simp add: metrics_Start_def)
  then show ?thesis using metrics.blocks[of False] assms(2,4) by blast
qed

subsection \<open>Properties of the spans\<close>

lemma child_loop_spans:
  "child_loop ctx attrs status d n j t (time_Add t d) e0 = (cs, e) \<Longrightarrow>
     length cs = n \<and> e = (if n = 0 then e0 else Some (t + int n * d))
     \<and> (\<forall>i < n. sp_start (cs ! i) = t + int i * d \<and> sp_end (cs ! i) = t + (int i + 1) * d
          \<and> sp_status (cs ! i) = status \<and> sp_parent (cs ! i) = Some ctx \<and> sp_name (cs ! i) = ''okey-dokey-'' @ nat_str (j + i))"
proof (induction n arbitrary: j t e0 cs e)
  case (Suc n)
  obtain cs' e' where r: "child_loop ctx attrs status d n (Suc j) (time_Add t d) (time_Add (time_Add t d) d) (Some (time_Add t d)) = (cs', e')"
    by fastforce
  note IH = Suc.IH[OF r]
  have cs: "cs = \<lparr>sp_name = ''okey-dokey-'' @ nat_str j, sp_kind = SpanKindServer, sp_parent = Some ctx,
      sp_attrs = put_attrs attrs [(''net.peer.ip'', fakeIP), (''peer.service'', ''telemetrygen-client'')],
      sp_start = t, sp_end = time_Add t d, sp_status = status\<rparr> # cs'" and e: "e = e'"
    using Suc.prems r by simp_all
  have "sp_start (cs ! i) = t + int i * d \<and> sp_end (cs ! i) = t + (int i + 1) * d
      \<and> sp_status (cs ! i) = status \<and> sp_parent (cs ! i) = Some ctx \<and> sp_name (cs ! i) = ''okey-dokey-'' @ nat_str (j + i)"
    if "i < Suc n" for i
  proof (cases i)
    case 0
    then show ?thesis by (simp add: cs time_Add_def)
  next
    case (Suc m)
    then have "m < n" using that by simp
    with IH have "sp_start (cs' ! m) = time_Add t d + int m * d \<and> sp_end (cs' ! m) = time_Add t d + (int m + 1) * d
      \<and> sp_status (cs' ! m) = status \<and> sp_parent (cs' ! m) = Some ctx \<and> sp_name (cs' ! m) = ''okey-dokey-'' @ nat_str (Suc j + m)" by blast
    then show ?thesis using Suc by (simp add: cs time_Add_def algebra_simps)
  qed
  moreover have "e = Some (t + int (Suc n) * d)" using IH by (auto simp: e time_Add_def algebra_simps)
  ultimately show ?case using IH by (simp add: cs)
qed simp

lemma child_spans_eq:
  assumes "\<bar>n\<bar> < 2 ^ 53"
  shows "child_spans n = nat (max 1 n)"
proof -
  have "f_of_int n = Fin (of_int n)" using assms unfolding f_of_int_def by (rule f64_round_of_int)
  then show ?thesis by (simp add: child_spans_def Let_def max_def)
qed

text \<open>The spans of a trace: as many children as asked for, and at least one, following each other without
  gap from the start of the trace, inside a parent that ends with the last of them.\<close>

definition trace_shape :: "traces_config \<Rightarrow> status_code \<Rightarrow> 'c span list \<times> 'c span \<Rightarrow> bool" where
  "trace_shape c status t =
     (case t of (cs, p) \<Rightarrow>
        (let n = nat (max 1 (tc_NumChildSpans c)); d = tc_SpanDuration c in
         length cs = n
         \<and> (\<forall>i < n. sp_start (cs ! i) = sp_start p + int i * d \<and> sp_end (cs ! i) = sp_start p + (int i + 1) * d
              \<and> sp_status (cs ! i) = status \<and> sp_name (cs ! i) = ''okey-dokey-'' @ nat_str i)
         \<and> sp_end p = sp_start p + int n * d \<and> sp_status p = status \<and> sp_name p = ''lets-go'' \<and> sp_parent p = None))"

lemma trace_item_shape:
  assumes "trace_item tr status (child_spans (tc_NumChildSpans c)) c i clock = Some t" "\<bar>tc_NumChildSpans c\<bar> < 2 ^ 53"
  shows "trace_shape c status t"
proof -
  let ?n = "nat (max 1 (tc_NumChildSpans c))" and ?d = "tc_SpanDuration c"
  let ?ctx = "if tc_PropagateContext c then tr_remote tr (tr_context tr i) else tr_context tr i"
  obtain cs e where l: "child_loop ?ctx (GetTelemetryAttributes (tc_Common c)) status ?d ?n 0 (clock 0) (time_Add (clock 0) ?d) None = (cs, e)"
    by fastforce
  note spans = child_loop_spans[OF l]
  have n: "?n \<noteq> 0" by simp
  have e: "e = Some (clock 0 + int ?n * ?d)" using spans n by (simp only: if_False)
  obtain p where t: "t = (cs, p)" "sp_start p = clock 0" "sp_end p = clock 0 + int ?n * ?d" "sp_status p = status"
      "sp_name p = ''lets-go''" "sp_parent p = None"
    using assms(1) unfolding trace_item_def child_spans_eq[OF assms(2)] Let_def l e
    by (auto simp only: prod.case option.case option.inject span.simps split: prod.splits)
  have shape: "sp_start (cs ! i) = sp_start p + int i * ?d \<and> sp_end (cs ! i) = sp_start p + (int i + 1) * ?d
      \<and> sp_status (cs ! i) = status \<and> sp_name (cs ! i) = ''okey-dokey-'' @ nat_str i" if "i < ?n" for i
    using spans that t(2) by simp
  then show ?thesis
    unfolding trace_shape_def t(1) Let_def prod.case using spans t shape by simp
qed

interpretation traces: signal_generator "traces_Run tr" tc_Common tc_NumTraces True
  "\<lambda>c t. \<bar>tc_NumChildSpans c\<bar> < 2 ^ 53 \<longrightarrow> (\<exists>status. status_of (tc_StatusCode c) = Some status \<and> trace_shape c status t)" for tr
  by unfold_locales (auto simp: traces_Run_Inr dest: trace_item_shape[simplified])


text \<open>C9 (the traces a run makes).  In every state a run of traces can reach, every trace of every worker has
  the shape asked for: the configured status, children that follow each other without a gap, each of
  the configured duration, and a parent that spans them all; without a duration no worker makes more
  than its number of traces.\<close>

theorem traces_in_shape:
  assumes "traces_Run tr c = Inr (job, s0)" "\<bar>tc_NumChildSpans c\<bar> < 2 ^ 53" "status_of (tc_StatusCode c) = Some status"
    and "(gen_step job)\<^sup>*\<^sup>* s0 s" "w \<in> set (g_workers s)"
  shows "list_all (trace_shape c status) (w_out w)
     \<and> (0 < cc_TotalDuration (tc_Common c) \<or> length (w_out w) \<le> nat (tc_NumTraces c))"
proof -
  note out = traces.outputs[OF assms(1,4,5)]
  have "list_all (trace_shape c status) (w_out w)" using out(1) assms(2,3) by (simp add: list_all_iff)
  then show ?thesis using out(2) by blast
qed

text \<open>Traces without batching are lost.  The spans that reach an exporter are those of all workers when
  batching; without batching no span does, whatever the run makes.\<close>

lemma unbatched_traces_lost:
  assumes "traces_Start fs new_error tr c = Inr (tp, job, s0)"
  shows "exported_spans tp s =
     (if tc_Batch c then concat (map (\<lambda>w. concat (map (\<lambda>(cs, p). cs @ [p]) (w_out w))) (g_workers s)) else [])"
proof -
  have "tp_processors tp = (if tc_Batch c then [tp_exporter tp] else [])"
    using assms by (auto simp: traces_Start_def trace_setup_def res_bind_Inr_iff Let_def)
  then show ?thesis by (simp add: exported_spans_def)
qed

text \<open>Which runs are rejected.  A generator runs exactly when it has a positive duration or number, and
  for traces also one of the nine spellings of a status code, in any case.\<close>

lemma runs_rejected_iff:
  "(is_ok (logs_Run lc) \<longleftrightarrow> 0 < cc_TotalDuration (lg_Common lc) \<or> 0 < lg_NumLogs lc)
   \<and> (is_ok (metrics_Run ok mc) \<longleftrightarrow> 0 < cc_TotalDuration (mc_Common mc) \<or> 0 < mc_NumMetrics mc)
   \<and> (is_ok (traces_Run tr c) \<longleftrightarrow> (0 < cc_TotalDuration (tc_Common c) \<or> 0 < tc_NumTraces c)
        \<and> to_lower (tc_StatusCode c) \<in> {[], ''0'', ''1'', ''2'', ''unset'', ''error'', ''ok''})"
proof -
  have "(\<exists>status. status_of x = Some status) \<longleftrightarrow> to_lower x \<in> {[], ''0'', ''1'', ''2'', ''unset'', ''error'', ''ok''}" for x
    by (auto simp: status_of_def Let_def)
  then show ?thesis by (auto simp: is_ok_iff logs_Run_Inr metrics_Run_Inr traces_Run_Inr)
qed

subsection \<open>Instances\<close>

definition ex_common :: common_config where
  "ex_common =
     \<lparr>cc_WorkerCount = 2, cc_Rate = 0, cc_TotalDuration = 0, cc_ReportingInterval = 0, cc_SkipSettingGRPCLogger = True,
      cc_CustomEndpoint = ''x:4317'', cc_Insecure = True, cc_UseHTTP = False, cc_HTTPPath = [], cc_Headers = [],
      cc_ResourceAttributes = [], cc_TelemetryAttributes = [], cc_CaFile = [],
      cc_ClientAuth = \<lparr>ca_Enabled = False, ca_ClientCertFile = [], ca_ClientKeyFile = []\<rparr>\<rparr>"

definition ex_files :: tls_files where
  "ex_files = \<lparr>t_ReadFile = \<lambda>f. Inl ''no file'', t_AppendPEM = \<lambda>d. None, t_LoadKeyPair = \<lambda>c k. Inl ''no key''\<rparr>"

definition ex_logs :: logs_config where
  "ex_logs = \<lparr>lg_Common = ex_common, lg_NumLogs = 3, lg_Body = ''test''\<rparr>"

definition ex_metrics :: metrics_config where
  "ex_metrics = \<lparr>mc_Common = ex_common\<lparr>cc_Insecure := False, cc_CaFile := ''ca.pem''\<rparr>, mc_NumMetrics = 3, mc_MetricType = ''Sum''\<rparr>"

definition ex_traces :: traces_config where
  "ex_traces =
     \<lparr>tc_Common = ex_common, tc_NumTraces = 3, tc_NumChildSpans = 1, tc_PropagateContext = False, tc_ServiceName = ''foo'',
      tc_StatusCode = [], tc_Batch = False, tc_LoadSize = 0, tc_SpanDuration = 123000\<rparr>"

definition ex_tracer :: "nat tracer" where "ex_tracer = \<lparr>tr_context = \<lambda>i. i, tr_remote = \<lambda>c. c\<rparr>"


theorem metrics_run_blocks_witness:
  "\<exists>job. metrics_Start ex_files (\<lambda>h opts. None) ex_metrics = Inr (job, init_state 2 0) \<and> \<not> run_returns (init_state 2 0 :: (go_map \<times> string \<times> metric_data) gen_state)"
proof -
  have e: "metrics_exporter ex_files (\<lambda>h opts. None) (mc_Common ex_metrics) = Inl (''failed to get TLS credentials: '' @ ''no file'')"
    by (simp add: metrics_exporter_def metrics_grpcExporterOptions_def GetTLSCredentialsForGRPCExporter_def caPool_def
        ex_metrics_def ex_common_def ex_files_def)
  obtain job where r: "metrics_Start ex_files (\<lambda>h opts. None) ex_metrics = Inr (job, init_state 2 0)"
    by (simp add: metrics_Start_def metrics_Run_def ex_metrics_def ex_common_def Let_def)
  have n: "0 < cc_WorkerCount (mc_Common ex_metrics)" by (simp add: ex_metrics_def ex_common_def)
  show ?thesis using metrics_run_blocks[OF e n r rtranclp.rtrancl_refl] r by blast
qed

lemma ex_traces_run:
  "status_of (tc_StatusCode ex_traces) = Some Unset" "\<exists>job. traces_Run ex_tracer ex_traces = Inr (job, init_state 2 0)"
  by (simp_all add: ex_traces_def status_of_def to_lower_def traces_Run_def ex_common_def Let_def)

theorem traces_in_shape_witness:
  "\<exists>job. traces_Run ex_tracer ex_traces = Inr (job, init_state 2 0)
     \<and> (\<forall>s w. (gen_step job)\<^sup>*\<^sup>* (init_state 2 0) s \<and> w \<in> set (g_workers s) \<longrightarrow> list_all (trace_shape ex_traces Unset) (w_out w))"
proof -
  obtain job where r: "traces_Run ex_tracer ex_traces = Inr (job, init_state 2 0)" using ex_traces_run(2) by blast
  have b: "\<bar>tc_NumChildSpans ex_traces\<bar> < 2 ^ 53" by (simp add: ex_traces_def)
  show ?thesis using traces_in_shape[OF r b ex_traces_run(1)] r by blast
qed

lemma unbatched_traces_lost_witness:
  "\<exists>tp job. traces_Start ex_files (\<lambda>h opts. None) ex_tracer ex_traces = Inr (tp, job, init_state 2 0)
     \<and> (\<forall>s. exported_spans tp s = ([] :: nat span list))"
proof -
  obtain job where r: "traces_Run ex_tracer ex_traces = Inr (job, init_state 2 0)" using ex_traces_run(2) by blast
  obtain tp where t: "trace_setup ex_files (\<lambda>h opts. None) ex_traces = Inr tp"
    by (simp add: trace_setup_def traces_grpcExporterOptions_def ex_traces_def ex_common_def Let_def)
  have s: "traces_Start ex_files (\<lambda>h opts. None) ex_tracer ex_traces = Inr (tp, job, init_state 2 0)"
    using r t by (simp add: traces_Start_def)
  have "\<not> tc_Batch ex_traces" by (simp add: ex_traces_def)
  then show ?thesis using unbatched_traces_lost[OF s] s by auto
qed

end
