(* ===== verification/BenchFns.thy ===== *)
theory BenchFns
  imports ApmBench Signals
begin

section \<open>The benchmark functions (cmd/apmbench: bench.go, bench_otlp.go)\<close>

text \<open>
  What the benchmarks send and with which configuration, from the flags of \<open>loadgen/config\<close>.  The agent,
  its transport and \<open>b.RunParallel\<close> are library code: a tracer is its configuration and the calls made
  on it, and a benchmark body is what one goroutine does for a number of iterations.  A benchmark
  reports an error by panicking.
\<close>

datatype bench_panic = PanicNil | PanicWait string | PanicHandler handler_error | PanicSend send_error

subsection \<open>The tracer\<close>

record tracer_config =
  trc_ServerURL :: "go_url option"
  trc_APIKey :: string
  trc_SecretToken :: string
  trc_InsecureSkipVerify :: bool

definition newTracer :: "load_config \<Rightarrow> tracer_config" where
  "newTracer c =
     \<lparr>trc_ServerURL = C_ServerURL c, trc_APIKey = C_APIKey c, trc_SecretToken = C_SecretToken c,
      trc_InsecureSkipVerify = (\<not> C_Secure c)\<rparr>"

datatype tracer_call =
    NewTracer tracer_config
  | Transaction string string
  | StartTransaction string string
  | StartSpan string string
  | SetServiceTarget string string
  | EndSpan duration
  | EndTransaction
  | Flush

text \<open>The inner loop of a benchmark: wait for the limiter, then make the calls of iteration \<open>i\<close>.\<close>

fun paced_calls ::
    "('w \<Rightarrow> string option \<times> 'w) \<Rightarrow> (nat \<Rightarrow> tracer_call list) \<Rightarrow> nat \<Rightarrow> nat \<Rightarrow> tracer_call list \<times> 'w
       \<Rightarrow> bench_panic + tracer_call list \<times> 'w" where
  "paced_calls wait calls 0 i st = Inr st"
| "paced_calls wait calls (Suc n) i (out, w) =
     (case wait w of
        (Some err, w') \<Rightarrow> Inl (PanicWait err)
      | (None, w') \<Rightarrow> paced_calls wait calls n (Suc i) (out @ calls i, w'))"

text \<open>One goroutine of \<open>Benchmark1000Transactions\<close>, for \<open>n\<close> answers \<open>true\<close> of \<open>pb.Next\<close>.\<close>

definition Benchmark1000Transactions ::
    "load_config \<Rightarrow> ('w \<Rightarrow> string option \<times> 'w) \<Rightarrow> nat \<Rightarrow> tracer_call list \<times> 'w \<Rightarrow> bench_panic + tracer_call list \<times> 'w" where
  "Benchmark1000Transactions c wait n st =
     (let (out, w) = st in
      loop_res (\<lambda>k st. res_bind (paced_calls wait (\<lambda>i. [Transaction ''name'' ''type'']) 1000 0 st) (\<lambda>(out, w). Inr (out @ [Flush], w)))
        [0..<n] (out @ [NewTracer (newTracer c)], w))"

definition group_calls :: "nat \<Rightarrow> tracer_call list" where
  "group_calls i =
     [StartTransaction (''name'' @ nat_str i) (''type'' @ nat_str i), StartSpan (''name'' @ nat_str i) (''type'' @ nat_str i),
      SetServiceTarget (''name'' @ nat_str i) (''resource'' @ nat_str i), EndSpan dur_second, EndTransaction]"

definition Benchmark10000AggregationGroups ::
    "load_config \<Rightarrow> ('w \<Rightarrow> string option \<times> 'w) \<Rightarrow> nat \<Rightarrow> tracer_call list \<times> 'w \<Rightarrow> bench_panic + tracer_call list \<times> 'w" where
  "Benchmark10000AggregationGroups c wait n st =
     loop_res (\<lambda>k (out, w). res_bind (paced_calls wait group_calls 10000 0 (out @ [NewTracer (newTracer c)], w))
         (\<lambda>(out, w). Inr (out @ [Flush], w)))
       [0..<n] st"

subsection \<open>Replaying agents\<close>

definition bench_params :: "load_config \<Rightarrow> string \<Rightarrow> limiter \<Rightarrow> bench_panic + event_handler_params" where
  "bench_params c p l =
     (let protocol = (if has_prefix p ''otlp-'' then ''otlp/http'' else ''apm/http'') in
      case C_ServerURL c of
        None \<Rightarrow> Inl PanicNil
      | Some url \<Rightarrow>
          Inr \<lparr>P_Logger = True, P_Path = p, P_URL = u_String url, P_Token = C_SecretToken c, P_APIKey = C_APIKey c,
               P_Limiter = Some l, P_IgnoreErrors = C_IgnoreErrors c, P_RunForever = False,
               P_RewriteIDs = C_RewriteIDs c, P_RewriteServiceNames = False, P_RewriteServiceNodeNames = False,
               P_RewriteServiceTargetNames = False, P_RewriteSpanNames = False, P_RewriteTransactionNames = False,
               P_RewriteTransactionTypes = False, P_RewriteTimestamps = C_RewriteTimestamps c,
               P_Headers = C_Headers c, P_Protocol = protocol, P_Datatype = [], P_Insecure = (\<not> C_Secure c),
               P_TargetStackVersion = TargetStackVersionUnknown\<rparr>)"

definition bench_newEventHandler ::
    "json_lib \<Rightarrow> (bool \<Rightarrow> string option) \<Rightarrow> (string \<Rightarrow> string + string list) \<Rightarrow> (string \<Rightarrow> string + bytes)
       \<Rightarrow> load_config \<Rightarrow> string \<Rightarrow> limiter \<Rightarrow> bench_panic + event_handler" where
  "bench_newEventHandler lib transport_error glob open_file c p l =
     res_bind (bench_params c p l) (\<lambda>params.
       map_err PanicHandler (NewEventHandler lib transport_error glob open_file params))"

text \<open>One goroutine of \<open>benchmarkAgent\<close>: a pass of the handler for every iteration, errors of an exceeded
  deadline apart.\<close>

fun agent_iterations :: "('w \<Rightarrow> int \<times> send_error option \<times> 'w) \<Rightarrow> (send_error \<Rightarrow> bool) \<Rightarrow> nat \<Rightarrow> 'w \<Rightarrow> bench_panic + 'w" where
  "agent_iterations send deadline 0 w = Inr w"
| "agent_iterations send deadline (Suc n) w =
     (case send w of
        (k, Some err, w') \<Rightarrow> if \<not> deadline err then Inl (PanicSend err) else agent_iterations send deadline n w'
      | (k, None, w') \<Rightarrow> agent_iterations send deadline n w')"

definition benchmarkAgent ::
    "json_lib \<Rightarrow> (bool \<Rightarrow> string option) \<Rightarrow> (string \<Rightarrow> string + string list) \<Rightarrow> (string \<Rightarrow> string + bytes)
       \<Rightarrow> 'w outside \<Rightarrow> (send_error \<Rightarrow> bool) \<Rightarrow> load_config \<Rightarrow> limiter \<Rightarrow> string \<Rightarrow> nat \<Rightarrow> 'w \<Rightarrow> bench_panic + 'w" where
  "benchmarkAgent lib transport_error glob open_file out deadline c l expr n w =
     res_bind (bench_newEventHandler lib transport_error glob open_file c expr l) (\<lambda>h.
       agent_iterations (handler_SendBatches lib out h) deadline n w)"

definition BenchmarkAgentAll :: string where "BenchmarkAgentAll = ''apm-*.ndjson''"
definition BenchmarkAgentGo :: string where "BenchmarkAgentGo = ''apm-go*.ndjson''"
definition BenchmarkAgentNodeJS :: string where "BenchmarkAgentNodeJS = ''apm-nodejs*.ndjson''"
definition BenchmarkAgentPython :: string where "BenchmarkAgentPython = ''apm-python*.ndjson''"
definition BenchmarkAgentRuby :: string where "BenchmarkAgentRuby = ''apm-ruby*.ndjson''"

subsection \<open>OTLP\<close>

definition commonConfigWithHTTPPath :: "load_config \<Rightarrow> int \<Rightarrow> string \<Rightarrow> bench_panic + common_config" where
  "commonConfigWithHTTPPath c gomaxprocs httpPath =
     (let insecure = (\<not> C_Secure c) in
      case C_ServerURL c of
        None \<Rightarrow> Inl PanicNil
      | Some serverURL \<Rightarrow>
          let endpoint = u_Host serverURL;
              (endpoint, insecure) =
                (if u_Port serverURL = [] then
                   (if u_Scheme serverURL = ''http'' then (endpoint @ '':80'', True)
                    else if u_Scheme serverURL = ''https'' then (endpoint @ '':443'', insecure)
                    else (endpoint, insecure))
                 else (endpoint, insecure));
              secretToken = C_SecretToken c;
              apiKey = C_APIKey c;
              headers = fold (\<lambda>(k, v) h. AList.update k v h) (C_Headers c) [];
              headers =
                (if secretToken \<noteq> [] \<or> apiKey \<noteq> [] then
                   (if apiKey \<noteq> [] then AList.update ''Authorization'' (''ApiKey '' @ apiKey) headers
                    else AList.update ''Authorization'' (''Bearer '' @ secretToken) headers)
                 else headers)
          in Inr \<lparr>cc_WorkerCount = gomaxprocs, cc_Rate = 0, cc_TotalDuration = 0, cc_ReportingInterval = 0,
                  cc_SkipSettingGRPCLogger = True, cc_CustomEndpoint = endpoint, cc_Insecure = insecure,
                  cc_UseHTTP = False, cc_HTTPPath = httpPath, cc_Headers = headers, cc_ResourceAttributes = [],
                  cc_TelemetryAttributes = [], cc_CaFile = [],
                  cc_ClientAuth = \<lparr>ca_Enabled = False, ca_ClientCertFile = [], ca_ClientKeyFile = []\<rparr>\<rparr>)"

definition BenchmarkOTLPLogs :: "load_config \<Rightarrow> int \<Rightarrow> int \<Rightarrow> bench_panic + logs_config" where
  "BenchmarkOTLPLogs c gomaxprocs N =
     res_bind (commonConfigWithHTTPPath c gomaxprocs ''/v1/logs'') (\<lambda>common.
       Inr \<lparr>lg_Common = common, lg_NumLogs = N, lg_Body = ''test''\<rparr>)"

definition BenchmarkOTLPTraces :: "load_config \<Rightarrow> int \<Rightarrow> int \<Rightarrow> bench_panic + traces_config" where
  "BenchmarkOTLPTraces c gomaxprocs N =
     res_bind (commonConfigWithHTTPPath c gomaxprocs ''/v1/traces'') (\<lambda>common.
       Inr \<lparr>tc_Common = common, tc_NumTraces = N, tc_NumChildSpans = 1, tc_PropagateContext = False,
            tc_ServiceName = ''foo'', tc_StatusCode = ''0'', tc_Batch = True, tc_LoadSize = 0, tc_SpanDuration = 123000\<rparr>)"

definition BenchmarkOTLPMetrics :: "load_config \<Rightarrow> int \<Rightarrow> int \<Rightarrow> bench_panic + metrics_config" where
  "BenchmarkOTLPMetrics c gomaxprocs N =
     res_bind (commonConfigWithHTTPPath c gomaxprocs ''/v1/metrics'') (\<lambda>common.
       Inr \<lparr>mc_Common = common, mc_NumMetrics = N, mc_MetricType = ''Sum''\<rparr>)"

subsection \<open>Properties\<close>

text \<open>The handler of a benchmark.  The handler of a benchmark has the credentials, headers, limiter and
  certificate check of the flags, but none of the flags that rewrite names has an effect on it; an
  invalid server URL makes the benchmark panic.\<close>

lemma bench_handler_flags:
  "(case C_ServerURL c of
      None \<Rightarrow> bench_params c p l = Inl PanicNil
    | Some url \<Rightarrow> (\<exists>params. bench_params c p l = Inr params \<and> P_URL params = u_String url
        \<and> P_Token params = C_SecretToken c \<and> P_APIKey params = C_APIKey c \<and> P_Headers params = C_Headers c
        \<and> P_Limiter params = Some l \<and> P_Insecure params = (\<not> C_Secure c)))
   \<and> bench_params (c\<lparr>C_RewriteServiceNames := a1, C_RewriteServiceNodeNames := a2, C_RewriteServiceTargetNames := a3,
        C_RewriteSpanNames := a4, C_RewriteTransactionNames := a5, C_RewriteTransactionTypes := a6\<rparr>) p l = bench_params c p l"
  by (auto simp: bench_params_def Let_def split: option.split)

text \<open>The exporters of the three OTLP benchmarks, from the common configuration.\<close>

text \<open>C37 (transport security of the OTLP benchmarks).  For a server URL with an explicit port or the scheme
  \<open>https\<close>, leaving certificates unchecked turns transport security off, and checking them trusts no
  certificate authority; the logs benchmark moreover sends no authorisation header.  The headers of
  the other two carry the API key, or else the secret token.\<close>

theorem otlp_benchmark_transport:
  assumes "C_ServerURL c = Some url" "u_Port url \<noteq> [] \<or> u_Scheme url = ''https''"
    and "commonConfigWithHTTPPath c n path = Inr cfg" "C_APIKey c \<noteq> [] \<or> C_SecretToken c \<noteq> []"
  shows "(\<exists>opts. metrics_grpcExporterOptions fs cfg = Inr opts \<and> traces_grpcExporterOptions fs cfg = Inr opts
        \<and> (if C_Secure c then WithTLS \<lparr>tls_RootCAs = [], tls_Certificates = [], tls_RequireClientCert = False\<rparr> \<in> set opts
           else WithInsecure \<in> set opts)
        \<and> map_of (sent_headers opts) ''Authorization''
            = Some (if C_APIKey c \<noteq> [] then ''ApiKey '' @ C_APIKey c else ''Bearer '' @ C_SecretToken c))
    \<and> (case newExporter fs grpc_error cfg of Inl e \<Rightarrow> True | Inr x \<Rightarrow> logs_sent_headers x = [])"
proof -
  have cfg: "cc_Insecure cfg = (\<not> C_Secure c)" "cc_UseHTTP cfg = False" "cc_CaFile cfg = []" "ca_Enabled (cc_ClientAuth cfg) = False"
    "map_of (cc_Headers cfg) ''Authorization'' = Some (if C_APIKey c \<noteq> [] then ''ApiKey '' @ C_APIKey c else ''Bearer '' @ C_SecretToken c)"
    using assms by (auto simp: commonConfigWithHTTPPath_def Let_def AList.update_conv' split: if_splits)
  let ?tls = "\<lparr>tls_RootCAs = [], tls_Certificates = [], tls_RequireClientCert = False\<rparr>"
  have creds: "GetTLSCredentialsForGRPCExporter fs (cc_CaFile cfg) (cc_ClientAuth cfg) = Inr ?tls"
    by (simp add: GetTLSCredentialsForGRPCExporter_def caPool_def cfg)
  have "\<exists>opts. metrics_grpcExporterOptions fs cfg = Inr opts
      \<and> (if C_Secure c then WithTLS ?tls \<in> set opts else WithInsecure \<in> set opts)"
    by (cases "C_Secure c") (simp_all add: metrics_grpcExporterOptions_def cfg(1) creds Let_def)
  then obtain opts where opts: "metrics_grpcExporterOptions fs cfg = Inr opts"
    and sec: "if C_Secure c then WithTLS ?tls \<in> set opts else WithInsecure \<in> set opts" by blast
  have "case newExporter fs grpc_error cfg of Inl e \<Rightarrow> True | Inr x \<Rightarrow> logs_sent_headers x = []"
    by (auto simp: newExporter_def cfg(2) split: sum.splits option.splits)
  moreover have "traces_grpcExporterOptions fs cfg = metrics_grpcExporterOptions fs cfg"
    by (auto simp: options_defs split: sum.split)
  ultimately show ?thesis
    using opts sec metrics_grpc.headers_sent[OF opts] cfg(5) by auto
qed

text \<open>The names of the transactions a benchmark makes.\<close>

definition transactions :: "tracer_call list \<Rightarrow> (string \<times> string) list" where
  "transactions calls = concat (map (\<lambda>x. case x of StartTransaction n t \<Rightarrow> [(n, t)] | Transaction n t \<Rightarrow> [(n, t)] | _ \<Rightarrow> []) calls)"

lemma transactions_simps:
  "transactions [] = []" "transactions (a @ b) = transactions a @ transactions b"
  "transactions (group_calls i) = [(''name'' @ nat_str i, ''type'' @ nat_str i)]" "transactions [Flush] = []" "transactions [NewTracer t] = []"
  by (simp_all add: transactions_def group_calls_def)

lemma nat_str_inj: "nat_str m = nat_str n \<longleftrightarrow> m = n"
  by (metis digits_val_nat_str)

lemma paced_calls_transactions:
  "paced_calls wait calls n i (out, w) = Inr (out', w') \<Longrightarrow>
     transactions out' = transactions out @ concat (map (\<lambda>k. transactions (calls k)) [i..<i + n])"
proof (induction n arbitrary: i out w)
  case (Suc n)
  obtain w1 where "paced_calls wait calls n (Suc i) (out @ calls i, w1) = Inr (out', w')"
    using Suc.prems by (auto split: prod.splits option.splits)
  from Suc.IH[OF this] show ?case by (simp add: transactions_simps upt_conv_Cons del: upt_Suc)
qed simp

text \<open>The aggregation groups.  A run of the benchmark that does not panic makes, in every iteration, ten
  thousand transactions that are pairwise different in name and type, and in every iteration the
  same ones.\<close>

lemma aggregation_groups:
  assumes "Benchmark10000AggregationGroups c wait n ([], w) = Inr (out, w')"
  shows "transactions out = concat (replicate n (map (\<lambda>i. (''name'' @ nat_str i, ''type'' @ nat_str i)) [0..<10000]))
    \<and> distinct (map (\<lambda>i. (''name'' @ nat_str i, ''type'' @ nat_str i)) [0..<10000])"
proof -
  let ?g = "map (\<lambda>i. (''name'' @ nat_str i, ''type'' @ nat_str i)) [0..<10000]"
  let ?f = "\<lambda>k (out, w). res_bind (paced_calls wait group_calls 10000 0 (out @ [NewTracer (newTracer c)], w))
         (\<lambda>(out, w). Inr (out @ [Flush], w))"
  have "concat (map (\<lambda>k. [h k]) xs) = map h xs" for h :: "nat \<Rightarrow> string \<times> string" and xs by (induction xs) simp_all
  then have step: "transactions o2 = transactions o1 @ ?g" if run: "?f k (o1, w1) = Inr (o2, w2)" for k o1 w1 o2 w2
  proof -
    obtain o3 where "paced_calls wait group_calls 10000 0 (o1 @ [NewTracer (newTracer c)], w1) = Inr (o3, w2)" "o2 = o3 @ [Flush]"
      using run by (auto simp: res_bind_Inr_iff)
    then show ?thesis
      using paced_calls_transactions[of wait group_calls 10000 0] \<open>\<And>xs h. concat (map (\<lambda>k. [h k]) xs) = map h xs\<close>
      by (simp add: transactions_simps)
  qed
  have "loop_res ?f ks (o1, w1) = Inr (o2, w2) \<Longrightarrow> transactions o2 = transactions o1 @ concat (replicate (length ks) ?g)" for ks o1 w1 o2 w2
  proof (induction ks arbitrary: o1 w1)
    case (Cons k ks)
    obtain o3 w3 where "?f k (o1, w1) = Inr (o3, w3)" "loop_res ?f ks (o3, w3) = Inr (o2, w2)"
      using Cons.prems by (auto split: sum.splits)
    then show ?case using step Cons.IH by auto
  qed simp
  from this[of "[0..<n]" "[]" w out w'] assms
  have "transactions out = concat (replicate n ?g)" by (simp add: Benchmark10000AggregationGroups_def transactions_simps(1))
  moreover have "distinct ?g" by (simp add: distinct_map inj_on_def nat_str_inj)
  ultimately show ?thesis by blast
qed

definition ex_bench_flags :: load_config where
  "ex_bench_flags = declared_config\<lparr>C_ServerURL := Some \<lparr>u_Scheme = ''https'', u_Host = ''x'', u_Port = [], u_String = ''https://x''\<rparr>,
     C_APIKey := ''k''\<rparr>"

theorem otlp_benchmark_transport_witness:
  "\<exists>cfg opts. commonConfigWithHTTPPath ex_bench_flags 4 ''/v1/traces'' = Inr cfg \<and> traces_grpcExporterOptions ex_files cfg = Inr opts
     \<and> WithInsecure \<in> set opts \<and> map_of (sent_headers opts) ''Authorization'' = Some ''ApiKey k''"
proof -
  obtain cfg where c: "commonConfigWithHTTPPath ex_bench_flags 4 ''/v1/traces'' = Inr cfg"
    by (simp add: commonConfigWithHTTPPath_def ex_bench_flags_def Let_def)
  obtain url where u: "C_ServerURL ex_bench_flags = Some url" "u_Port url \<noteq> [] \<or> u_Scheme url = ''https''"
    by (simp add: ex_bench_flags_def)
  have k: "C_APIKey ex_bench_flags \<noteq> [] \<or> C_SecretToken ex_bench_flags \<noteq> []" by (simp add: ex_bench_flags_def)
  have s: "\<not> C_Secure ex_bench_flags" "C_APIKey ex_bench_flags = ''k''" by (simp_all add: ex_bench_flags_def declared_config_def)
  show ?thesis using otlp_benchmark_transport[OF u c k, of ex_files "\<lambda>e. None"] s c by auto
qed

lemma paced_calls_unlimited: "\<exists>out'. paced_calls (\<lambda>w. (None, w)) calls n i (out, ()) = Inr (out', ())"
  by (induction n arbitrary: i out) simp_all

lemma aggregation_groups_witness:
  "\<exists>out. Benchmark10000AggregationGroups ex_bench_flags (\<lambda>w. (None, w)) 1 ([], ()) = Inr (out, ()) \<and> length (transactions out) = 10000"
proof -
  obtain o1 where p: "paced_calls (\<lambda>w. (None, w)) group_calls 10000 0 ([NewTracer (newTracer ex_bench_flags)], ()) = Inr (o1, ())"
    using paced_calls_unlimited by blast
  have r: "Benchmark10000AggregationGroups ex_bench_flags (\<lambda>w. (None, w)) 1 ([], ()) = Inr (o1 @ [Flush], ())"
    using p by (simp add: Benchmark10000AggregationGroups_def)
  from aggregation_groups[OF r] r show ?thesis by (intro exI[of _ "o1 @ [Flush]"]) simp
qed

end
