(* ===== verification/SendOtlp.thy ===== *)
theory SendOtlp
  imports Flags
begin

section \<open>The OTLP sender (cmd/sendotlp)\<close>

text \<open>
  The command sends a few metrics, spans and a log record to an endpoint.  The exporters, providers
  and the gRPC connection are library code: the state is the list of the calls made on them, and the
  outside answers a call, from the calls made before it, with an error or without one.  An exporter
  is what it was created with.
\<close>

subsection \<open>Flags\<close>

record so_flags =
  so_endpoint :: string
  so_secretToken :: string
  so_apiKey :: string
  so_protocol :: string
  so_insecure :: bool

definition getenvDefault :: "(string \<Rightarrow> string) \<Rightarrow> string \<Rightarrow> string \<Rightarrow> string" where
  "getenvDefault getenv key defaultVal = (let val = getenv key in if val \<noteq> [] then val else defaultVal)"

definition declared_so_flags :: "(string \<Rightarrow> string) \<Rightarrow> so_flags" where
  "declared_so_flags getenv =
     \<lparr>so_endpoint = getenvDefault getenv ''OTEL_EXPORTER_OTLP_ENDPOINT'' ''http://127.0.0.1:8200'',
      so_secretToken = [], so_apiKey = [],
      so_protocol = getenvDefault getenv ''OTEL_EXPORTER_OTLP_PROTOCOL'' ''grpc'', so_insecure = False\<rparr>"

subsection \<open>Calls\<close>

datatype transport_credentials = GRPCInsecure | GRPCTLS bool

datatype so_option = WithGRPCConn | SoWithEndpoint string | SoWithTLS bool | SoWithInsecure | SoWithHeaders go_map

record so_log =
  sl_service :: string
  sl_body :: string
  sl_time :: int
  sl_severity :: nat
  sl_text :: string

datatype so_call =
    GRPCNewClient string "transport_credentials option"
  | GRPCClose
  | NewTraceExporter "so_option list"
  | NewMetricExporter "so_option list"
  | NewTracerProvider
  | NewMeterProvider
  | Float64Counter string
  | CounterAdd int
  | Int64Histogram string
  | HistogramRecord int
  | TracerStart string "string option"
  | SpanAddEvent string string
  | SpanRecordError string string
  | SpanEnd string
  | TimeSleep int
  | LogExport go_map so_log
  | MeterShutdown
  | TracerShutdown

record so_outside =
  so_answer :: "so_call list \<Rightarrow> so_call \<Rightarrow> string option"
  so_now :: "so_call list \<Rightarrow> int"

definition do_call :: "so_outside \<Rightarrow> so_call \<Rightarrow> so_call list \<Rightarrow> string option \<times> so_call list" where
  "do_call out c tr = (so_answer out tr c, tr @ [c])"

subsection \<open>Exporters\<close>

datatype so_log_exporter = LogGRPC "go_map option" | LogHTTP

record so_exporters =
  se_cleanup :: "so_call list \<Rightarrow> string option \<times> so_call list"
  se_trace :: "so_option list"
  se_metric :: "so_option list"
  se_log :: so_log_exporter

text \<open>A nil map of headers is \<open>None\<close>; credentials are nil for another scheme.\<close>

definition newOTLPGRPCExporters :: "so_outside \<Rightarrow> so_flags \<Rightarrow> go_url \<Rightarrow> so_call list \<Rightarrow> (string + so_exporters) \<times> so_call list" where
  "newOTLPGRPCExporters out fl endpointURL tr =
     (let transportCredentials =
        (if u_Scheme endpointURL = ''http'' then Some GRPCInsecure
         else if u_Scheme endpointURL = ''https'' then Some (GRPCTLS (so_insecure fl)) else None)
      in case do_call out (GRPCNewClient (u_Host endpointURL) transportCredentials) tr of
        (Some err, tr) \<Rightarrow> (Inl err, tr)
      | (None, tr) \<Rightarrow>
          let cleanup = do_call out GRPCClose;
              traceOptions = [WithGRPCConn];
              metricOptions = [WithGRPCConn];
              headers =
                (if so_apiKey fl \<noteq> [] then Some [(''Authorization'', ''ApiKey '' @ so_apiKey fl)]
                 else if so_secretToken fl \<noteq> [] then Some [(''Authorization'', ''Bearer '' @ so_secretToken fl)]
                 else None);
              (traceOptions, metricOptions) =
                (case headers of
                   Some h \<Rightarrow> (traceOptions @ [SoWithHeaders h], metricOptions @ [SoWithHeaders h])
                 | None \<Rightarrow> (traceOptions, metricOptions))
          in case do_call out (NewTraceExporter traceOptions) tr of
            (Some err, tr) \<Rightarrow> (Inl err, snd (cleanup tr))
          | (None, tr) \<Rightarrow>
              (case do_call out (NewMetricExporter metricOptions) tr of
                 (Some err, tr) \<Rightarrow> (Inl err, snd (cleanup tr))
               | (None, tr) \<Rightarrow>
                   (Inr \<lparr>se_cleanup = cleanup, se_trace = traceOptions, se_metric = metricOptions, se_log = LogGRPC headers\<rparr>, tr)))"

definition newOTLPHTTPExporters :: "so_outside \<Rightarrow> so_flags \<Rightarrow> go_url \<Rightarrow> so_call list \<Rightarrow> (string + so_exporters) \<times> so_call list" where
  "newOTLPHTTPExporters out fl endpointURL tr =
     (let traceOptions = [SoWithEndpoint (u_Host endpointURL), SoWithTLS (so_insecure fl)];
          metricOptions = [SoWithEndpoint (u_Host endpointURL), SoWithTLS (so_insecure fl)];
          (traceOptions, metricOptions) =
            (if u_Scheme endpointURL = ''http''
             then (traceOptions @ [SoWithInsecure], metricOptions @ [SoWithInsecure]) else (traceOptions, metricOptions));
          (traceOptions, metricOptions) =
            (if so_secretToken fl \<noteq> [] then
               (let headers = [(''Authorization'', ''Bearer '' @ so_secretToken fl)]
                in (traceOptions @ [SoWithHeaders headers], metricOptions @ [SoWithHeaders headers]))
             else (traceOptions, metricOptions));
          cleanup = (\<lambda>tr. (None, tr))
      in case do_call out (NewTraceExporter traceOptions) tr of
        (Some err, tr) \<Rightarrow> (Inl err, snd (cleanup tr))
      | (None, tr) \<Rightarrow>
          (case do_call out (NewMetricExporter metricOptions) tr of
             (Some err, tr) \<Rightarrow> (Inl err, snd (cleanup tr))
           | (None, tr) \<Rightarrow>
               (Inr \<lparr>se_cleanup = cleanup, se_trace = traceOptions, se_metric = metricOptions, se_log = LogHTTP\<rparr>, tr)))"

definition newOTLPExporters :: "so_outside \<Rightarrow> so_flags \<Rightarrow> go_url \<Rightarrow> so_call list \<Rightarrow> (string + so_exporters) \<times> so_call list" where
  "newOTLPExporters out fl endpointURL tr =
     (if so_protocol fl = ''grpc'' then newOTLPGRPCExporters out fl endpointURL tr
      else if so_protocol fl = ''http/protobuf'' then newOTLPHTTPExporters out fl endpointURL tr
      else (Inl (''invalid protocol '' @ so_protocol fl), tr))"

subsection \<open>Data\<close>

definition generateMetrics :: "so_outside \<Rightarrow> so_call list \<Rightarrow> string option \<times> so_call list" where
  "generateMetrics out tr =
     (case do_call out (Float64Counter ''float64_counter'') tr of
        (Some err, tr) \<Rightarrow> (Some err, tr)
      | (None, tr) \<Rightarrow>
          (case do_call out (Int64Histogram ''int64_histogram'') (tr @ [CounterAdd 1]) of
             (Some err, tr) \<Rightarrow> (Some err, tr)
           | (None, tr) \<Rightarrow>
               (None, tr @ [HistogramRecord 1, HistogramRecord 10, HistogramRecord 10,
                            HistogramRecord 100, HistogramRecord 100, HistogramRecord 100])))"

text \<open>The deferred end of the parent comes last.\<close>

definition generateSpans :: "so_call list \<Rightarrow> string option \<times> so_call list" where
  "generateSpans tr =
     (let tr = tr @ [TracerStart ''parent'' None];
          tr = tr @ [TracerStart ''child1'' (Some ''parent''), TimeSleep 10000000, SpanAddEvent ''child1'' ''an arbitrary event'', SpanEnd ''child1''];
          tr = tr @ [TracerStart ''child2'' (Some ''parent''), TimeSleep 10000000, SpanRecordError ''child2'' ''an exception occurred'', SpanEnd ''child2'']
      in (None, tr @ [SpanEnd ''parent'']))"

definition grpc_Export :: "so_outside \<Rightarrow> go_map option \<Rightarrow> so_log \<Rightarrow> so_call list \<Rightarrow> string option \<times> so_call list" where
  "grpc_Export out headers logs tr =
     do_call out (LogExport (case headers of Some h \<Rightarrow> h | None \<Rightarrow> []) logs) tr"

definition http_Export :: "so_log \<Rightarrow> so_call list \<Rightarrow> string option \<times> so_call list" where
  "http_Export logs tr = (None, tr)"

fun log_Export :: "so_outside \<Rightarrow> so_log_exporter \<Rightarrow> so_log \<Rightarrow> so_call list \<Rightarrow> string option \<times> so_call list" where
  "log_Export out (LogGRPC headers) logs tr = grpc_Export out headers logs tr"
| "log_Export out LogHTTP logs tr = http_Export logs tr"

definition generateLogs :: "so_outside \<Rightarrow> (string \<Rightarrow> string) \<Rightarrow> so_log_exporter \<Rightarrow> so_call list \<Rightarrow> string option \<times> so_call list" where
  "generateLogs out getenv logger tr =
     log_Export out logger
       \<lparr>sl_service = getenvDefault getenv ''OTEL_SERVICE_NAME'' ''unknown_service'', sl_body = ''test record'',
        sl_time = so_now out tr, sl_severity = 21, sl_text = ''fatal''\<rparr> tr"

subsection \<open>Main\<close>

text \<open>\<open>net.JoinHostPort\<close>\<close>

definition JoinHostPort :: "string \<Rightarrow> string \<Rightarrow> string" where
  "JoinHostPort host port = (if CHR '':'' \<in> set host then ''['' @ host @ '']:'' @ port else host @ '':'' @ port)"

definition endpoint_port :: "go_url \<Rightarrow> string + go_url" where
  "endpoint_port endpointURL =
     (if u_Scheme endpointURL = ''http'' then
        Inr (if u_Port endpointURL = [] then endpointURL\<lparr>u_Host := JoinHostPort (u_Host endpointURL) ''80''\<rparr> else endpointURL)
      else if u_Scheme endpointURL = ''https'' then
        Inr (if u_Port endpointURL = [] then endpointURL\<lparr>u_Host := JoinHostPort (u_Host endpointURL) ''443''\<rparr> else endpointURL)
      else Inl ''endpoint must be prefixed with http:// or https://'')"

text \<open>A deferred shutdown: its error, with a prefix, is joined to the result.\<close>

definition join_error :: "string option \<Rightarrow> string \<Rightarrow> string option" where
  "join_error result err = Some (case result of None \<Rightarrow> err | Some r \<Rightarrow> r @ CHR 0x0A # err)"

definition deferred :: "so_outside \<Rightarrow> so_call \<Rightarrow> string \<Rightarrow> string option \<times> so_call list \<Rightarrow> string option \<times> so_call list" where
  "deferred out c what r =
     (case r of (result, tr) \<Rightarrow>
        case do_call out c tr of
          (Some err, tr) \<Rightarrow> (join_error result (what @ err), tr)
        | (None, tr) \<Rightarrow> (result, tr))"

definition generate_all :: "so_outside \<Rightarrow> (string \<Rightarrow> string) \<Rightarrow> so_log_exporter \<Rightarrow> so_call list \<Rightarrow> string option \<times> so_call list" where
  "generate_all out getenv logger tr =
     (case generateMetrics out tr of
        (Some err, tr) \<Rightarrow> (Some err, tr)
      | (None, tr) \<Rightarrow>
          (case generateSpans tr of
             (Some err, tr) \<Rightarrow> (Some err, tr)
           | (None, tr) \<Rightarrow> generateLogs out getenv logger tr))"

definition so_Main :: "(string \<Rightarrow> string + go_url) \<Rightarrow> so_outside \<Rightarrow> (string \<Rightarrow> string) \<Rightarrow> so_flags \<Rightarrow> so_call list \<Rightarrow> string option \<times> so_call list" where
  "so_Main parse_url out getenv fl tr =
     (case parse_url (so_endpoint fl) of
        Inl err \<Rightarrow> (Some (''failed to parse endpoint: '' @ err), tr)
      | Inr endpointURL \<Rightarrow>
          (case endpoint_port endpointURL of
             Inl err \<Rightarrow> (Some err, tr)
           | Inr endpointURL \<Rightarrow>
               (case newOTLPExporters out fl endpointURL tr of
                  (Inl err, tr) \<Rightarrow> (Some err, tr)
                | (Inr otlpExporters, tr) \<Rightarrow>
                    deferred out TracerShutdown ''error shutting down tracer provider: ''
                      (deferred out MeterShutdown ''error shutting down meter provider: ''
                        (generate_all out getenv (se_log otlpExporters) (tr @ [NewTracerProvider, NewMeterProvider]))))))"

subsection \<open>What a run sends\<close>

text \<open>The calls whose error the command looks at, and that none of the calls of a list failed.\<close>

fun so_checked :: "so_call \<Rightarrow> bool" where
  "so_checked (GRPCNewClient h c) = True"
| "so_checked (NewTraceExporter opts) = True"
| "so_checked (NewMetricExporter opts) = True"
| "so_checked (Float64Counter name) = True"
| "so_checked (Int64Histogram name) = True"
| "so_checked (LogExport h l) = True"
| "so_checked MeterShutdown = True"
| "so_checked TracerShutdown = True"
| "so_checked c = False"

fun no_failure :: "so_outside \<Rightarrow> so_call list \<Rightarrow> so_call list \<Rightarrow> bool" where
  "no_failure out before [] = True"
| "no_failure out before (c # cs) =
     ((so_checked c \<longrightarrow> so_answer out before c = None) \<and> no_failure out (before @ [c]) cs)"

lemma no_failure_append: "no_failure out before (cs @ ds) \<longleftrightarrow> no_failure out before cs \<and> no_failure out (before @ cs) ds"
  by (induction cs arbitrary: before) auto

text \<open>The headers of the exporters, the calls that create them, and the calls that make the data.\<close>

definition so_auth :: "so_flags \<Rightarrow> go_map" where
  "so_auth fl =
     (if so_protocol fl = ''grpc'' \<and> so_apiKey fl \<noteq> [] then [(''Authorization'', ''ApiKey '' @ so_apiKey fl)]
      else if so_secretToken fl \<noteq> [] then [(''Authorization'', ''Bearer '' @ so_secretToken fl)] else [])"

definition header_option :: "go_map \<Rightarrow> so_option list" where
  "header_option h = (if h = [] then [] else [SoWithHeaders h])"

definition exporter_options :: "so_flags \<Rightarrow> go_url \<Rightarrow> so_option list" where
  "exporter_options fl u =
     (if so_protocol fl = ''grpc'' then [WithGRPCConn]
      else [SoWithEndpoint (u_Host u), SoWithTLS (so_insecure fl)] @ (if u_Scheme u = ''http'' then [SoWithInsecure] else []))
     @ header_option (so_auth fl)"

definition connection_calls :: "so_flags \<Rightarrow> go_url \<Rightarrow> so_call list" where
  "connection_calls fl u =
     (if so_protocol fl = ''grpc''
      then [GRPCNewClient (u_Host u) (Some (if u_Scheme u = ''http'' then GRPCInsecure else GRPCTLS (so_insecure fl)))] else [])"

definition metric_calls :: "so_call list" where
  "metric_calls =
     [Float64Counter ''float64_counter'', CounterAdd 1, Int64Histogram ''int64_histogram'', HistogramRecord 1,
      HistogramRecord 10, HistogramRecord 10, HistogramRecord 100, HistogramRecord 100, HistogramRecord 100]"

definition span_calls :: "so_call list" where
  "span_calls =
     [TracerStart ''parent'' None,
      TracerStart ''child1'' (Some ''parent''), TimeSleep 10000000, SpanAddEvent ''child1'' ''an arbitrary event'', SpanEnd ''child1'',
      TracerStart ''child2'' (Some ''parent''), TimeSleep 10000000, SpanRecordError ''child2'' ''an exception occurred'', SpanEnd ''child2'',
      SpanEnd ''parent'']"

lemma generateSpans_eq: "generateSpans tr = (None, tr @ span_calls)"
  by (simp add: generateSpans_def span_calls_def)

definition exporter_calls :: "so_flags \<Rightarrow> go_url \<Rightarrow> so_call list" where
  "exporter_calls fl u =
     connection_calls fl u @ [NewTraceExporter (exporter_options fl u), NewMetricExporter (exporter_options fl u)]"

definition so_logger :: "so_flags \<Rightarrow> so_log_exporter" where
  "so_logger fl =
     (if so_protocol fl = ''grpc'' then LogGRPC (if so_auth fl = [] then None else Some (so_auth fl)) else LogHTTP)"

lemma newOTLPExporters_eq:
  assumes "u_Scheme u \<in> {''http'', ''https''}" "so_protocol fl \<in> {''grpc'', ''http/protobuf''}"
  shows "newOTLPExporters out fl u tr =
    (let opts = exporter_options fl u;
         grpc = (so_protocol fl = ''grpc'');
         cleanup = (if grpc then do_call out GRPCClose else (\<lambda>tr. (None, tr)));
         conn = connection_calls fl u
     in if \<not> no_failure out tr conn then (Inl (the (so_answer out tr (hd conn))), tr @ conn)
        else case so_answer out (tr @ conn) (NewTraceExporter opts) of
          Some err \<Rightarrow> (Inl err, snd (cleanup (tr @ conn @ [NewTraceExporter opts])))
        | None \<Rightarrow>
            (case so_answer out (tr @ conn @ [NewTraceExporter opts]) (NewMetricExporter opts) of
               Some err \<Rightarrow> (Inl err, snd (cleanup (tr @ conn @ [NewTraceExporter opts, NewMetricExporter opts])))
             | None \<Rightarrow> (Inr \<lparr>se_cleanup = cleanup, se_trace = opts, se_metric = opts, se_log = so_logger fl\<rparr>, tr @ exporter_calls fl u)))"
proof (cases "so_protocol fl = ''grpc''")
  case True
  let ?h = "if so_auth fl = [] then None else Some (so_auth fl)" and ?opts = "exporter_options fl u"
  have h: "(if so_apiKey fl \<noteq> [] then Some [(''Authorization'', ''ApiKey '' @ so_apiKey fl)]
      else if so_secretToken fl \<noteq> [] then Some [(''Authorization'', ''Bearer '' @ so_secretToken fl)] else None) = ?h"
    by (simp add: so_auth_def True)
  have o: "(case ?h of None \<Rightarrow> ([WithGRPCConn], [WithGRPCConn])
      | Some h \<Rightarrow> ([WithGRPCConn] @ [SoWithHeaders h], [WithGRPCConn] @ [SoWithHeaders h])) = (?opts, ?opts)"
    by (simp add: exporter_options_def header_option_def True)
  have c: "(if u_Scheme u = ''http'' then Some GRPCInsecure else if u_Scheme u = ''https'' then Some (GRPCTLS (so_insecure fl)) else None)
      = Some (if u_Scheme u = ''http'' then GRPCInsecure else GRPCTLS (so_insecure fl))"
    using assms(1) by auto
  show ?thesis
    unfolding newOTLPExporters_def newOTLPGRPCExporters_def Let_def h o c prod.case
    by (simp add: True connection_calls_def exporter_calls_def do_call_def so_logger_def split: option.split)
next
  case False
  then have p: "so_protocol fl = ''http/protobuf''" using assms(2) by simp
  let ?opts = "exporter_options fl u"
  let ?o1 = "(if u_Scheme u = ''http'' then ([SoWithEndpoint (u_Host u), SoWithTLS (so_insecure fl)] @ [SoWithInsecure],
      [SoWithEndpoint (u_Host u), SoWithTLS (so_insecure fl)] @ [SoWithInsecure])
    else ([SoWithEndpoint (u_Host u), SoWithTLS (so_insecure fl)], [SoWithEndpoint (u_Host u), SoWithTLS (so_insecure fl)]))"
  have o: "(case ?o1 of (traceOptions, metricOptions) \<Rightarrow>
      if so_secretToken fl \<noteq> [] then
        (traceOptions @ [SoWithHeaders [(''Authorization'', ''Bearer '' @ so_secretToken fl)]],
         metricOptions @ [SoWithHeaders [(''Authorization'', ''Bearer '' @ so_secretToken fl)]])
      else (traceOptions, metricOptions)) = (?opts, ?opts)"
    by (simp add: exporter_options_def header_option_def so_auth_def p)
  show ?thesis
    unfolding newOTLPExporters_def newOTLPHTTPExporters_def Let_def
    using o by (simp add: p connection_calls_def exporter_calls_def do_call_def so_logger_def exporter_options_def header_option_def so_auth_def split: option.split)
qed

lemma newOTLPExporters_Inr:
  assumes "u_Scheme u \<in> {''http'', ''https''}" "newOTLPExporters out fl u [] = (Inr ex, tr)"
  shows "so_protocol fl \<in> {''grpc'', ''http/protobuf''} \<and> tr = exporter_calls fl u \<and> no_failure out [] tr \<and> se_log ex = so_logger fl"
proof -
  have p: "so_protocol fl \<in> {''grpc'', ''http/protobuf''}"
    using assms(2) by (auto simp: newOTLPExporters_def split: if_splits)
  then show ?thesis using assms(2)
    by (auto simp: newOTLPExporters_eq[OF assms(1) p] Let_def exporter_calls_def no_failure_append split: if_splits option.splits)
qed

lemma newOTLPExporters_Inl:
  assumes "u_Scheme u \<in> {''http'', ''https''}" "newOTLPExporters out fl u [] = (Inl e, tr)"
  shows "set tr \<subseteq> set (exporter_calls fl u) \<union> {GRPCClose} \<and> (so_protocol fl \<notin> {''grpc'', ''http/protobuf''} \<or> \<not> no_failure out [] tr)"
proof (cases "so_protocol fl \<in> {''grpc'', ''http/protobuf''}")
  case True
  then show ?thesis using assms(2)
    by (auto simp: newOTLPExporters_eq[OF assms(1) True] Let_def exporter_calls_def no_failure_append do_call_def split: if_splits option.splits)
next
  case False
  then show ?thesis using assms(2) by (simp add: newOTLPExporters_def)
qed

text \<open>The log record, and its export.\<close>

definition so_record :: "so_outside \<Rightarrow> (string \<Rightarrow> string) \<Rightarrow> so_call list \<Rightarrow> so_log" where
  "so_record out getenv tr =
     \<lparr>sl_service = getenvDefault getenv ''OTEL_SERVICE_NAME'' ''unknown_service'', sl_body = ''test record'',
      sl_time = so_now out tr, sl_severity = 21, sl_text = ''fatal''\<rparr>"

definition log_calls :: "so_outside \<Rightarrow> (string \<Rightarrow> string) \<Rightarrow> so_flags \<Rightarrow> so_call list \<Rightarrow> so_call list" where
  "log_calls out getenv fl tr = (if so_protocol fl = ''grpc'' then [LogExport (so_auth fl) (so_record out getenv tr)] else [])"

definition data_calls :: "so_outside \<Rightarrow> (string \<Rightarrow> string) \<Rightarrow> so_flags \<Rightarrow> so_call list \<Rightarrow> so_call list" where
  "data_calls out getenv fl tr =
     metric_calls @ span_calls @ log_calls out getenv fl (tr @ metric_calls @ span_calls)"

lemma generateLogs_eq:
  "generateLogs out getenv (so_logger fl) tr =
     (if so_protocol fl = ''grpc'' then so_answer out tr (LogExport (so_auth fl) (so_record out getenv tr)) else None,
      tr @ log_calls out getenv fl tr)"
  by (simp add: generateLogs_def so_logger_def grpc_Export_def http_Export_def do_call_def log_calls_def so_record_def)

lemma generate_all_result:
  assumes "generate_all out getenv (so_logger fl) tr = (r, tr')"
  shows "\<exists>new. tr' = tr @ new \<and> set new \<subseteq> set (data_calls out getenv fl tr)
    \<and> (r = None \<longleftrightarrow> no_failure out tr new) \<and> (r = None \<longrightarrow> new = data_calls out getenv fl tr)"
proof -
  let ?c = "Float64Counter ''float64_counter''" and ?h = "Int64Histogram ''int64_histogram''"
  show ?thesis
  proof (cases "so_answer out tr ?c")
    case (Some e)
    then show ?thesis using assms
      by (intro exI[of _ "[?c]"]) (auto simp: Some generate_all_def generateMetrics_def do_call_def data_calls_def metric_calls_def)
  next
    case c: None
    show ?thesis
    proof (cases "so_answer out (tr @ [?c, CounterAdd 1]) ?h")
      case (Some e)
      then show ?thesis using assms c
        by (intro exI[of _ "[?c, CounterAdd 1, ?h]"]) (auto simp: Some generate_all_def generateMetrics_def do_call_def data_calls_def metric_calls_def)
    next
      case None
      then have "generateMetrics out tr = (None, tr @ metric_calls)" using c
        by (simp add: generateMetrics_def do_call_def metric_calls_def)
      then have "generate_all out getenv (so_logger fl) tr
          = generateLogs out getenv (so_logger fl) (tr @ metric_calls @ span_calls)"
        by (simp add: generate_all_def generateSpans_eq)
      moreover have "no_failure out tr (metric_calls @ span_calls)"
        using c None by (simp add: metric_calls_def span_calls_def)
      ultimately show ?thesis using assms
        by (intro exI[of _ "data_calls out getenv fl tr"])
           (auto simp: generateLogs_eq data_calls_def log_calls_def no_failure_append)
    qed
  qed
qed

lemma deferred_result:
  assumes "deferred out c what (r, tr) = (r', tr')" "so_checked c"
  shows "tr' = tr @ [c] \<and> (r' = None \<longleftrightarrow> r = None \<and> no_failure out tr [c])"
  using assms by (auto simp: deferred_def do_call_def join_error_def split: option.splits)

text \<open>A run is an error before the exporters exist, or it makes data and shuts the providers down.\<close>

lemma so_Main_cases:
  assumes "so_Main parse_url out getenv fl [] = (result, tr)"
  obtains
      (no_endpoint) e where "result = Some e" "tr = []" "\<nexists>u u'. parse_url (so_endpoint fl) = Inr u \<and> endpoint_port u = Inr u'"
    | (no_exporters) u u' e where "parse_url (so_endpoint fl) = Inr u" "endpoint_port u = Inr u'" "result = Some e"
        "set tr \<subseteq> set (exporter_calls fl u') \<union> {GRPCClose}" "so_protocol fl \<notin> {''grpc'', ''http/protobuf''} \<or> \<not> no_failure out [] tr"
    | (runs) u u' new where "parse_url (so_endpoint fl) = Inr u" "endpoint_port u = Inr u'"
        "so_protocol fl \<in> {''grpc'', ''http/protobuf''}"
        "tr = exporter_calls fl u' @ [NewTracerProvider, NewMeterProvider] @ new @ [MeterShutdown, TracerShutdown]"
        "set new \<subseteq> set (data_calls out getenv fl (exporter_calls fl u' @ [NewTracerProvider, NewMeterProvider]))"
        "result = None \<longleftrightarrow> no_failure out [] tr"
        "result = None \<longrightarrow> new = data_calls out getenv fl (exporter_calls fl u' @ [NewTracerProvider, NewMeterProvider])"
proof (cases "\<exists>u u'. parse_url (so_endpoint fl) = Inr u \<and> endpoint_port u = Inr u'")
  case False
  moreover from this have "\<exists>e. so_Main parse_url out getenv fl [] = (Some e, [])"
    by (cases "parse_url (so_endpoint fl)") (auto simp: so_Main_def split: sum.split)
  ultimately show thesis using assms no_endpoint by auto
next
  case True
  then obtain u u' where u: "parse_url (so_endpoint fl) = Inr u" "endpoint_port u = Inr u'" by blast
  have scheme: "u_Scheme u' \<in> {''http'', ''https''}" using u(2) by (auto simp: endpoint_port_def split: if_splits)
  obtain ex tr1 where e: "newOTLPExporters out fl u' [] = (ex, tr1)" by fastforce
  show thesis
  proof (cases ex)
    case (Inl err)
    then show thesis using no_exporters[OF u] newOTLPExporters_Inl[OF scheme e[unfolded Inl]] assms
      by (auto simp: so_Main_def u e)
  next
    case (Inr x)
    note ok = newOTLPExporters_Inr[OF scheme e[unfolded Inr]]
    let ?tr = "exporter_calls fl u' @ [NewTracerProvider, NewMeterProvider]"
    obtain r2 tr2 where g: "generate_all out getenv (so_logger fl) ?tr = (r2, tr2)" by fastforce
    obtain r3 tr3 where d1: "deferred out MeterShutdown ''error shutting down meter provider: '' (r2, tr2) = (r3, tr3)" by fastforce
    have d2: "deferred out TracerShutdown ''error shutting down tracer provider: '' (r3, tr3) = (result, tr)"
      using assms ok g d1 by (simp add: so_Main_def u e Inr)
    obtain new where new: "tr2 = ?tr @ new" "set new \<subseteq> set (data_calls out getenv fl ?tr)"
        "r2 = None \<longleftrightarrow> no_failure out ?tr new" "r2 = None \<longrightarrow> new = data_calls out getenv fl ?tr"
      using generate_all_result[OF g] by blast
    have "no_failure out [] ?tr" using ok by (auto simp: no_failure_append)
    moreover note deferred_result[OF d1] deferred_result[OF d2]
    ultimately have tr: "tr = ?tr @ new @ [MeterShutdown, TracerShutdown]"
      and r: "result = None \<longleftrightarrow> no_failure out [] tr" and finished: "result = None \<longrightarrow> new = data_calls out getenv fl ?tr"
      using new by (simp_all add: no_failure_append)
    show thesis
    proof (rule runs[OF u _ _ new(2) r finished])
      show "so_protocol fl \<in> {''grpc'', ''http/protobuf''}" using ok by blast
      show "tr = exporter_calls fl u' @ [NewTracerProvider, NewMeterProvider] @ new @ [MeterShutdown, TracerShutdown]"
        using tr by simp
    qed
  qed
qed

text \<open>C23 (a run of the sender).  The command succeeds exactly when the endpoint is an HTTP URL, the protocol is
  one of the two, and no call it checks fails; it has then created both exporters, sent the metrics, the
  spans and, over gRPC, the log record in this order, and shut down the meter and then the tracer
  provider.  Whenever the exporters could be created, both providers are shut down at the end, whatever
  failed before, and the connection of the exporters is never closed.\<close>

theorem sendotlp_run:
  assumes run: "so_Main parse_url out getenv fl [] = (result, tr)"
  shows "(result = None \<longleftrightarrow>
      (\<exists>u u'. parse_url (so_endpoint fl) = Inr u \<and> endpoint_port u = Inr u')
      \<and> so_protocol fl \<in> {''grpc'', ''http/protobuf''} \<and> no_failure out [] tr)
    \<and> (result = None \<longrightarrow> (\<exists>u u' before. parse_url (so_endpoint fl) = Inr u \<and> endpoint_port u = Inr u'
        \<and> before = exporter_calls fl u' @ [NewTracerProvider, NewMeterProvider]
        \<and> tr = before @ metric_calls @ span_calls @ log_calls out getenv fl (before @ metric_calls @ span_calls)
                 @ [MeterShutdown, TracerShutdown]))
    \<and> (NewMeterProvider \<in> set tr \<longrightarrow> (\<exists>before. tr = before @ [MeterShutdown, TracerShutdown]) \<and> GRPCClose \<notin> set tr)"
  using run
proof (cases rule: so_Main_cases)
  case (no_endpoint e)
  then show ?thesis by auto
next
  case (no_exporters u u' e)
  have "NewMeterProvider \<notin> set tr" using no_exporters(4) by (auto simp: exporter_calls_def connection_calls_def split: if_splits)
  then show ?thesis using no_exporters by auto
next
  case (runs u u' new)
  have "GRPCClose \<notin> set tr" using runs(4,5)
    by (auto simp: exporter_calls_def connection_calls_def data_calls_def metric_calls_def span_calls_def log_calls_def split: if_splits)
  then show ?thesis using runs(1-4,6,7) by (auto simp: data_calls_def)
qed

text \<open>What a call may carry: the headers of an exporter, and the credentials of the connection.\<close>

fun option_headers :: "so_option list \<Rightarrow> go_map" where
  "option_headers [] = []"
| "option_headers (SoWithHeaders h # opts) = h"
| "option_headers (x # opts) = option_headers opts"

fun so_authorised :: "so_flags \<Rightarrow> string \<Rightarrow> so_call \<Rightarrow> bool" where
  "so_authorised fl scheme (NewTraceExporter opts) = (option_headers opts = so_auth fl)"
| "so_authorised fl scheme (NewMetricExporter opts) = (option_headers opts = so_auth fl)"
| "so_authorised fl scheme (LogExport h record) = (so_protocol fl = ''grpc'' \<and> h = so_auth fl)"
| "so_authorised fl scheme (GRPCNewClient host creds) =
     (so_protocol fl = ''grpc'' \<and> creds = Some (if scheme = ''http'' then GRPCInsecure else GRPCTLS (so_insecure fl)))"
| "so_authorised fl scheme c = True"

lemma option_headers_exporter: "option_headers (exporter_options fl u) = so_auth fl"
  by (simp add: exporter_options_def header_option_def)

lemma calls_authorised:
  "c \<in> set (exporter_calls fl u) \<Longrightarrow> so_authorised fl (u_Scheme u) c"
  "c \<in> set (data_calls out getenv fl before) \<Longrightarrow> so_authorised fl scheme c"
  by (auto simp: exporter_calls_def connection_calls_def data_calls_def metric_calls_def span_calls_def log_calls_def
      option_headers_exporter split: if_splits)

text \<open>C35 (authorisation of the sender).  Over gRPC the exporters and the log record carry the API key, or else
  the secret token, and the connection is encrypted exactly for https.  Over HTTP the exporters carry the
  secret token only, the API key has no effect on the run, and no log record is sent at all.\<close>

theorem sendotlp_authorisation:
  assumes run: "so_Main parse_url out getenv fl [] = (result, tr)"
    and url: "parse_url (so_endpoint fl) = Inr u"
  shows "(\<forall>c \<in> set tr. so_authorised fl (u_Scheme u) c)
    \<and> (so_protocol fl = ''http/protobuf'' \<longrightarrow> so_Main parse_url out getenv (fl\<lparr>so_apiKey := k\<rparr>) [] = (result, tr))"
proof
  have scheme: "endpoint_port u = Inr u' \<Longrightarrow> u_Scheme u' = u_Scheme u" for u'
    by (auto simp: endpoint_port_def split: if_splits)
  show "\<forall>c \<in> set tr. so_authorised fl (u_Scheme u) c" using run
  proof (cases rule: so_Main_cases)
    case (no_endpoint e)
    then show ?thesis by simp
  next
    case (no_exporters v u' e)
    then show ?thesis using scheme[of u'] url calls_authorised(1)[of _ fl u'] by fastforce
  next
    case (runs v u' new)
    then show ?thesis using scheme[of u'] url calls_authorised(1)[of _ fl u'] calls_authorised(2) by fastforce
  qed
  show "so_protocol fl = ''http/protobuf'' \<longrightarrow> so_Main parse_url out getenv (fl\<lparr>so_apiKey := k\<rparr>) [] = (result, tr)"
  proof
    assume "so_protocol fl = ''http/protobuf''"
    then have "newOTLPExporters out (fl\<lparr>so_apiKey := k\<rparr>) v [] = newOTLPExporters out fl v []" for v
      by (simp add: newOTLPExporters_def newOTLPHTTPExporters_def Let_def)
    then show "so_Main parse_url out getenv (fl\<lparr>so_apiKey := k\<rparr>) [] = (result, tr)"
      using run by (simp add: so_Main_def cong: sum.case_cong)
  qed
qed

definition ex_so_flags :: "string \<Rightarrow> so_flags" where
  "ex_so_flags protocol = \<lparr>so_endpoint = ''x'', so_secretToken = ''s'', so_apiKey = ''k'', so_protocol = protocol, so_insecure = False\<rparr>"

definition ex_so_outside :: so_outside where
  "ex_so_outside = \<lparr>so_answer = (\<lambda>tr c. if c = TracerShutdown then Some ''late'' else None), so_now = (\<lambda>tr. 7)\<rparr>"

definition ex_so_parse :: "string \<Rightarrow> string + go_url" where
  "ex_so_parse s = Inr \<lparr>u_Scheme = ''http'', u_Host = ''h'', u_Port = [], u_String = s\<rparr>"

lemmas so_eval = so_Main_def ex_so_parse_def endpoint_port_def JoinHostPort_def newOTLPExporters_def newOTLPGRPCExporters_def
  newOTLPHTTPExporters_def do_call_def ex_so_flags_def ex_so_outside_def generate_all_def generateMetrics_def generateSpans_eq
  generateLogs_def grpc_Export_def http_Export_def deferred_def join_error_def Let_def

lemma ex_so_run:
  "fst (so_Main ex_so_parse ex_so_outside (\<lambda>v. []) (ex_so_flags ''grpc'') []) = Some ''error shutting down tracer provider: late''"
  "NewMeterProvider \<in> set (snd (so_Main ex_so_parse ex_so_outside (\<lambda>v. []) (ex_so_flags ''grpc'') []))"
  by (simp_all add: so_eval)

theorem sendotlp_run_witness:
  "\<not> no_failure ex_so_outside [] (snd (so_Main ex_so_parse ex_so_outside (\<lambda>v. []) (ex_so_flags ''grpc'') []))
   \<and> (\<exists>before. snd (so_Main ex_so_parse ex_so_outside (\<lambda>v. []) (ex_so_flags ''grpc'') []) = before @ [MeterShutdown, TracerShutdown])"
  using sendotlp_run[of ex_so_parse ex_so_outside "\<lambda>v. []" "ex_so_flags ''grpc''", OF surjective_pairing] ex_so_run
  by (auto simp: ex_so_parse_def endpoint_port_def ex_so_flags_def)

theorem sendotlp_authorisation_witness:
  "so_Main ex_so_parse ex_so_outside (\<lambda>v. []) (ex_so_flags ''http/protobuf''\<lparr>so_apiKey := ''other''\<rparr>) []
     = so_Main ex_so_parse ex_so_outside (\<lambda>v. []) (ex_so_flags ''http/protobuf'') []"
  using sendotlp_authorisation[of ex_so_parse ex_so_outside "\<lambda>v. []" "ex_so_flags ''http/protobuf''",
      OF surjective_pairing, OF ex_so_parse_def, of "''other''"]
  by (simp add: ex_so_flags_def)

end
