(* ===== verification/Soak.thy ===== *)
theory Soak
  imports Transport Flags
begin

section \<open>Soak tests (internal/soaktest, cmd/apmsoak)\<close>

text \<open>
  The options of \<open>apmsoak run\<close> become a \<open>RunnerConfig\<close>; \<open>NewRunner\<close> picks the scenario of a YAML file;
  \<open>Run\<close> starts every agent replica with the parameters \<open>getHandlerParams\<close> computes and waits for all
  of them.  YAML decoding, URL parsing, and \<open>errgroup.Wait\<close> over the results of the agents are
  parameters.  An agent that never returns is \<open>None\<close>, and then \<open>Run\<close> does not return either.
\<close>

record scenario_config =
  sc_ProjectID :: string
  sc_ServerURL :: string
  sc_APIKey :: string
  sc_AgentName :: string
  sc_AgentReplicas :: int
  sc_EventRate :: string
  sc_Headers :: go_map
  sc_RewriteIDs :: bool
  sc_RewriteTimestamps :: bool
  sc_RewriteServiceNames :: bool
  sc_RewriteServiceNodeNames :: bool
  sc_RewriteServiceTargetNames :: bool
  sc_RewriteSpanNames :: bool
  sc_RewriteTransactionNames :: bool
  sc_RewriteTransactionTypes :: bool
  sc_TargetVersion :: string

record runner_config =
  rc_Scenario :: string
  rc_ScenariosPath :: string
  rc_ServerURL :: string
  rc_SecretToken :: string
  rc_APIKeys :: go_map
  rc_Headers :: go_map
  rc_BypassProxy :: bool
  rc_IgnoreErrors :: bool
  rc_RunForever :: bool
  rc_RunDuration :: duration

subsection \<open>The options of the command\<close>

record run_options =
  ro_Scenario :: string
  ro_ScenariosPath :: string
  ro_ServerURL :: string
  ro_SecretToken :: string
  ro_APIKeys :: string
  ro_Headers :: go_map
  ro_BypassProxy :: bool
  ro_Loglevel :: string
  ro_IgnoreErrors :: bool
  ro_RunForever :: bool
  ro_RunDuration :: duration

fun api_keys_loop :: "string list \<Rightarrow> go_map \<Rightarrow> string + go_map" where
  "api_keys_loop [] apiKeys = Inr apiKeys"
| "api_keys_loop (pair # pairs) apiKeys =
     (case split1 CHR '':'' pair of
        [k, v] \<Rightarrow> api_keys_loop pairs (AList.update k v apiKeys)
      | _ \<Rightarrow> Inl ''invalid api keys provided. example: project_id:my_api_key'')"

definition toRunnerConfig :: "run_options \<Rightarrow> string + runner_config" where
  "toRunnerConfig opts =
     res_bind (if ro_APIKeys opts \<noteq> [] then api_keys_loop (split1 CHR '','' (ro_APIKeys opts)) [] else Inr []) (\<lambda>apiKeys.
       Inr \<lparr>rc_Scenario = ro_Scenario opts, rc_ScenariosPath = ro_ScenariosPath opts, rc_ServerURL = ro_ServerURL opts,
            rc_SecretToken = ro_SecretToken opts, rc_APIKeys = apiKeys, rc_Headers = ro_Headers opts,
            rc_BypassProxy = ro_BypassProxy opts, rc_IgnoreErrors = ro_IgnoreErrors opts,
            rc_RunForever = ro_RunForever opts, rc_RunDuration = ro_RunDuration opts\<rparr>)"

subsection \<open>What the configuration logs\<close>

definition redact :: "string \<Rightarrow> string" where
  "redact v = (let redacted = ''EMPTY'' in
     if v \<noteq> [] \<and> length v \<ge> 4 then take 4 v @ ''-REDACTED'' else redacted)"

definition runner_MarshalLogObject :: "runner_config \<Rightarrow> (string \<times> log_value) list" where
  "runner_MarshalLogObject r =
     [(''scenario'', LogString (rc_Scenario r)), (''scenarios_path'', LogString (rc_ScenariosPath r)),
      (''server_url'', LogString (rc_ServerURL r)), (''secret_token'', LogString (redact (rc_SecretToken r)))]
     @ map (\<lambda>(k, v). (''apikey['' @ k @ '']'', LogString (redact v))) (rc_APIKeys r)
     @ map (\<lambda>(k, v). (''headers['' @ k @ '']'', LogString v)) (rc_Headers r)
     @ [(''bypass_proxy'', LogBool (rc_BypassProxy r)), (''ignore_errors'', LogBool (rc_IgnoreErrors r)),
        (''run_forever'', LogBool (rc_RunForever r))]"

subsection \<open>NewRunner\<close>

record runner =
  run_config :: runner_config
  run_scenarioConfigs :: "scenario_config list"
  run_scenarioName :: string

datatype runner_error = ErrReadFile string | ErrYAML string | ErrUnknownScenario string

definition default_version :: "scenario_config \<Rightarrow> scenario_config" where
  "default_version v = (if sc_TargetVersion v = [] then v\<lparr>sc_TargetVersion := ''latest''\<rparr> else v)"

text \<open>The loop assigns to its variable, which is a copy of the element; the slice stays as it is.\<close>

definition default_versions :: "scenario_config list \<Rightarrow> scenario_config list" where
  "default_versions cfgs = snd (fold (\<lambda>v (copy, slice). (Some (default_version v), slice)) cfgs (None, cfgs))"

definition NewRunner ::
    "(string \<Rightarrow> string + bytes) \<Rightarrow> (bytes \<Rightarrow> string + (string \<Rightarrow> scenario_config list option)) \<Rightarrow> runner_config
       \<Rightarrow> runner_error + runner" where
  "NewRunner read_file unmarshal config =
     res_bind (map_err ErrReadFile (read_file (rc_ScenariosPath config))) (\<lambda>f.
     res_bind (map_err ErrYAML (unmarshal f)) (\<lambda>scenarios.
     case scenarios (rc_Scenario config) of
       None \<Rightarrow> Inl (ErrUnknownScenario (rc_Scenario config))
     | Some cfgs \<Rightarrow>
         Inr \<lparr>run_config = config, run_scenarioConfigs = default_versions cfgs, run_scenarioName = rc_Scenario config\<rparr>))"

subsection \<open>getHandlerParams\<close>

datatype params_error = ErrParseURL string | ErrEventRate rate_error

definition targetStackVer :: "scenario_config \<Rightarrow> target_stack_version" where
  "targetStackVer c = fst (FromStringVersion (sc_TargetVersion c))"

definition project_placeholder :: string where "project_placeholder = ''<project_id>''"

text \<open>The headers: those of the scenario, overridden by those of the runner, the placeholder replaced
  once in each value, and the project last.\<close>

definition handler_headers :: "runner_config \<Rightarrow> scenario_config \<Rightarrow> go_map" where
  "handler_headers rc c =
     (let h1 = fold (\<lambda>(k, v). AList.update k v) (sc_Headers c) [];
          h2 = fold (\<lambda>(k, v). AList.update k v) (rc_Headers rc) h1;
          h3 = fold (\<lambda>(k, v). AList.update k (replace_first v project_placeholder (sc_ProjectID c))) h2 h2
      in AList.update ''X-Elastic-Project-Id'' (sc_ProjectID c) h3)"

definition agent_protocol :: "string \<Rightarrow> string" where
  "agent_protocol name = (if has_prefix name ''otlp-'' then ''otlp/http'' else ''apm/http'')"

definition agent_datatype :: "string \<Rightarrow> string \<Rightarrow> string" where
  "agent_datatype protocol name =
     (if protocol = ''otlp/http'' then
        if has_prefix name ''otlp-logs'' then ''logs''
        else if has_prefix name ''otlp-metrics'' then ''metrics''
        else if has_prefix name ''otlp-traces'' then ''traces''
        else ''any''
      else ''any'')"

definition getHandlerParams ::
    "(string \<Rightarrow> string + go_url) \<Rightarrow> runner_config \<Rightarrow> scenario_config \<Rightarrow> params_error + event_handler_params" where
  "getHandlerParams parse_url rc config =
     (let config = (if sc_AgentName config = [] then config\<lparr>sc_AgentName := ''apm-''\<rparr> else config);
          path = sc_AgentName config @ ''*.ndjson'';
          headers = handler_headers rc config;
          config = (if sc_ServerURL config = [] then config\<lparr>sc_ServerURL := rc_ServerURL rc\<rparr> else config)
      in res_bind (map_err ErrParseURL (parse_url (replace_first (sc_ServerURL config) project_placeholder (sc_ProjectID config)))) (\<lambda>serverURL.
         let config = (if sc_APIKey config = []
                       then config\<lparr>sc_APIKey := (case map_of (rc_APIKeys rc) (sc_ProjectID config) of Some k \<Rightarrow> k | None \<Rightarrow> [])\<rparr>
                       else config)
         in res_bind (map_err ErrEventRate (ParseEventRate (sc_EventRate config))) (\<lambda>(burst, interval).
         let protocol = agent_protocol (sc_AgentName config);
             datatype = agent_datatype protocol (sc_AgentName config)
         in Inr \<lparr>P_Logger = False, P_Path = path, P_URL = u_String serverURL, P_Token = rc_SecretToken rc,
                 P_APIKey = sc_APIKey config, P_Limiter = Some (GetNewLimiter burst interval),
                 P_IgnoreErrors = rc_IgnoreErrors rc, P_RunForever = rc_RunForever rc,
                 P_RewriteIDs = sc_RewriteIDs config, P_RewriteServiceNames = sc_RewriteServiceNames config,
                 P_RewriteServiceNodeNames = sc_RewriteServiceNodeNames config,
                 P_RewriteServiceTargetNames = sc_RewriteServiceTargetNames config,
                 P_RewriteSpanNames = sc_RewriteSpanNames config,
                 P_RewriteTransactionNames = sc_RewriteTransactionNames config,
                 P_RewriteTransactionTypes = sc_RewriteTransactionTypes config,
                 P_RewriteTimestamps = sc_RewriteTimestamps config, P_Headers = headers,
                 P_Protocol = protocol, P_Datatype = datatype, P_Insecure = False,
                 P_TargetStackVersion = targetStackVer config\<rparr>)))"

subsection \<open>Run\<close>

record loader =
  l_transport_error :: "bool \<Rightarrow> string option"
  l_glob :: "string \<Rightarrow> string + string list"
  l_open :: "string \<Rightarrow> string + bytes"

datatype agent_error = AgentParams params_error | AgentHandler handler_error | AgentSend send_error

text \<open>The context of \<open>Run\<close> is also done after \<open>RunDuration\<close>, unless that is zero.\<close>

definition with_duration :: "duration \<Rightarrow> ('w \<Rightarrow> duration) \<Rightarrow> 'w outside \<Rightarrow> 'w outside" where
  "with_duration d elapsed out =
     (if d \<noteq> 0 then out\<lparr>o_Done := \<lambda>w. case o_Done out w of (b, w') \<Rightarrow> (b \<or> d \<le> elapsed w', w')\<rparr> else out)"

definition soak_runAgent ::
    "(string \<Rightarrow> string + go_url) \<Rightarrow> json_lib \<Rightarrow> loader \<Rightarrow> 'w outside \<Rightarrow> runner \<Rightarrow> scenario_config \<Rightarrow> 'w
       \<Rightarrow> agent_error option option" where
  "soak_runAgent parse_url lib ld out r config w =
     (case getHandlerParams parse_url (run_config r) config of
        Inl e \<Rightarrow> Some (Some (AgentParams e))
      | Inr params \<Rightarrow>
          (case NewEventHandler lib (l_transport_error ld) (l_glob ld) (l_open ld) (params\<lparr>P_Logger := True\<rparr>) of
             Inl e \<Rightarrow> Some (Some (AgentHandler e))
           | Inr eh \<Rightarrow> map_option (\<lambda>(e, w'). map_option AgentSend e) (handler_SendBatchesInLoop lib out eh w)))"

fun started_agents :: "scenario_config list \<Rightarrow> scenario_config list" where
  "started_agents [] = []"
| "started_agents (config # configs) =
     (let config = (if sc_AgentReplicas config \<le> 0 then config\<lparr>sc_AgentReplicas := 1\<rparr> else config)
      in replicate (nat (sc_AgentReplicas config)) config @ started_agents configs)"

text \<open>The results of the started functions, or none when one of them does not return.\<close>

fun all_returned :: "'a option list \<Rightarrow> 'a list option" where
  "all_returned [] = Some []"
| "all_returned (None # rs) = None"
| "all_returned (Some r # rs) = map_option (Cons r) (all_returned rs)"

datatype run_error = ErrSeed string | ErrAgent agent_error

definition soak_Run ::
    "(agent_error option list \<Rightarrow> agent_error option) \<Rightarrow> string option \<Rightarrow> (string \<Rightarrow> string + go_url) \<Rightarrow> json_lib \<Rightarrow> loader
       \<Rightarrow> ('w \<Rightarrow> duration) \<Rightarrow> 'w outside \<Rightarrow> (nat \<Rightarrow> 'w) \<Rightarrow> runner \<Rightarrow> run_error option option" where
  "soak_Run wait seed_error parse_url lib ld elapsed out world r =
     (let out = with_duration (rc_RunDuration (run_config r)) elapsed out in
      case seed_error of
        Some e \<Rightarrow> Some (Some (ErrSeed e))
      | None \<Rightarrow>
          map_option (\<lambda>rs. map_option ErrAgent (wait rs))
            (all_returned (map (\<lambda>(i, config). soak_runAgent parse_url lib ld out r config (world i))
               (enumerate 0 (started_agents (run_scenarioConfigs r))))))"

subsection \<open>Properties of the options and the runner\<close>

lemma map_of_fold_update:
  "map_of (fold (\<lambda>(k, v). AList.update k (f v)) xs m) = map_of m ++ map_of (rev (map (\<lambda>(k, v). (k, f v)) xs))"
  by (induction xs arbitrary: m) (auto simp: AList.update_conv' fun_eq_iff map_add_def split: option.splits)

lemma map_of_fold_update_ok:
  assumes "go_map_ok xs"
  shows "map_of (fold (\<lambda>(k, v). AList.update k (f v)) xs m) = map_of m ++ (map_option f \<circ> map_of xs)"
proof -
  let ?ys = "map (\<lambda>(k, v). (k, f v)) xs"
  have k: "map fst ?ys = map fst xs" by (simp add: comp_def case_prod_unfold)
  have "map_of (rev ?ys) = map_of ?ys"
    using assms by (intro map_of_perm) (simp_all add: go_map_ok_def rev_map[symmetric] comp_def case_prod_unfold)
  moreover have "map_of ?ys = map_option f \<circ> map_of xs" by (simp add: map_of_map)
  ultimately show ?thesis by (simp add: map_of_fold_update)
qed

lemma fold_update_ok:
  "go_map_ok m \<Longrightarrow> go_map_ok (fold (\<lambda>(k, v). AList.update k (f v)) xs m)"
  by (induction xs arbitrary: m) (auto simp: go_map_ok_def intro: AList.distinct_update)

lemma handler_headers_map:
  assumes "go_map_ok (sc_Headers c)" "go_map_ok (rc_Headers rc)"
  shows "map_of (handler_headers rc c) =
    (map_option (\<lambda>v. replace_first v project_placeholder (sc_ProjectID c)) \<circ> (map_of (sc_Headers c) ++ map_of (rc_Headers rc)))
      (''X-Elastic-Project-Id'' \<mapsto> sc_ProjectID c)"
proof -
  let ?id = "\<lambda>v::string. v" and ?rep = "\<lambda>v. replace_first v project_placeholder (sc_ProjectID c)"
  define h1 where "h1 = fold (\<lambda>(k, v). AList.update k v) (sc_Headers c) []"
  define h2 where "h2 = fold (\<lambda>(k, v). AList.update k v) (rc_Headers rc) h1"
  have ok: "go_map_ok h2"
    unfolding h2_def h1_def by (intro fold_update_ok[where f = ?id]) (simp add: go_map_ok_def)
  have "map_of h1 = map_of (sc_Headers c)"
    unfolding h1_def using map_of_fold_update_ok[OF assms(1), of ?id "[]"] by (simp add: option.map_ident comp_def)
  then have h2: "map_of h2 = map_of (sc_Headers c) ++ map_of (rc_Headers rc)"
    unfolding h2_def using map_of_fold_update_ok[OF assms(2), of ?id h1] by (simp add: option.map_ident comp_def)
  have "map_of (fold (\<lambda>(k, v). AList.update k (?rep v)) h2 h2) = map_option ?rep \<circ> map_of h2"
    using map_of_fold_update_ok[OF ok, of ?rep h2] by (auto simp: fun_eq_iff map_add_def split: option.split)
  then show ?thesis
    by (simp add: handler_headers_def Let_def h1_def[symmetric] h2_def[symmetric] AList.update_conv' h2)
qed

lemma split1_length: "length (split1 c s) = Suc (count_list s c)"
proof (induction s)
  case (Cons x s)
  then show ?case by (cases "split1 c s") auto
qed simp

lemma split1_two: "length (split1 CHR '':'' p) = 2 \<Longrightarrow> \<exists>k v. split1 CHR '':'' p = [k, v]"
  by (auto simp: numeral_2_eq_2 length_Suc_conv)

text \<open>The project and the key of one pair.\<close>

definition key_pair :: "string \<Rightarrow> string \<times> string" where
  "key_pair p = (hd (split1 CHR '':'' p), last (split1 CHR '':'' p))"

lemma api_keys_loop_ok:
  "list_all (\<lambda>p. count_list p CHR '':'' = 1) ps \<Longrightarrow>
     api_keys_loop ps m = Inr (fold (\<lambda>p. AList.update (fst (key_pair p)) (snd (key_pair p))) ps m)"
proof (induction ps arbitrary: m)
  case (Cons p ps)
  then have "length (split1 CHR '':'' p) = 2" by (simp add: split1_length)
  then obtain k v where kv: "split1 CHR '':'' p = [k, v]" using split1_two by blast
  then have "key_pair p = (k, v)" by (simp add: key_pair_def)
  then show ?case using Cons kv by simp
qed simp

lemma api_keys_loop_error:
  "\<not> list_all (\<lambda>p. count_list p CHR '':'' = 1) ps \<Longrightarrow> \<exists>e. api_keys_loop ps m = Inl e"
proof (induction ps arbitrary: m)
  case (Cons p ps)
  show ?case
  proof (cases "count_list p CHR '':'' = 1")
    case True
    then have "length (split1 CHR '':'' p) = 2" by (simp add: split1_length)
    then show ?thesis using True Cons split1_two[of p] by auto
  next
    case False
    then have "length (split1 CHR '':'' p) \<noteq> 2" by (simp add: split1_length)
    then show ?thesis by (auto split: list.split)
  qed
qed simp

text \<open>The API keys of the command line.  The options are accepted exactly when the list of keys is empty
  or each of its comma-separated parts has exactly one colon; a project then has the key of the last
  part that names it.\<close>

lemma api_keys_accepted:
  "(case toRunnerConfig opts of
      Inl e \<Rightarrow> ro_APIKeys opts \<noteq> [] \<and> (\<exists>p\<in>set (split1 CHR '','' (ro_APIKeys opts)). count_list p CHR '':'' \<noteq> 1)
    | Inr rc \<Rightarrow>
        map_of (rc_APIKeys rc) =
          (if ro_APIKeys opts = [] then Map.empty
           else map_of (rev (map key_pair (split1 CHR '','' (ro_APIKeys opts)))))
        \<and> rc_Headers rc = ro_Headers opts \<and> rc_RunDuration rc = ro_RunDuration opts)"
proof (cases "ro_APIKeys opts = []")
  case True
  then show ?thesis by (simp add: toRunnerConfig_def)
next
  case False
  let ?ps = "split1 CHR '','' (ro_APIKeys opts)"
  show ?thesis
  proof (cases "list_all (\<lambda>p. count_list p CHR '':'' = 1) ?ps")
    case True
    have "fold (\<lambda>p. AList.update (fst (key_pair p)) (snd (key_pair p))) ?ps [] = fold (\<lambda>(k, v). AList.update k v) (map key_pair ?ps) []"
      by (simp add: fold_map comp_def case_prod_unfold)
    then show ?thesis
      using False api_keys_loop_ok[OF True, of "[]"] map_of_fold_update[where f = "\<lambda>v. v", of "map key_pair ?ps" "[]"]
      by (simp add: toRunnerConfig_def)
  next
    case bad: False
    then obtain e where "api_keys_loop ?ps [] = Inl e" using api_keys_loop_error by blast
    then show ?thesis using False bad by (auto simp: toRunnerConfig_def list_all_iff)
  qed
qed

text \<open>C32 (secrets in logs).  What a runner configuration logs depends on a secret of at least four bytes
  only through its first four bytes, and what event handler parameters log does not depend on the
  token and the API key at all.\<close>

theorem secrets_not_logged:
  assumes "length t \<ge> 4" "length t' \<ge> 4" "take 4 t = take 4 t'"
    and "list_all2 (\<lambda>(p, k) (p', k'). p = p' \<and> length k \<ge> 4 \<and> length k' \<ge> 4 \<and> take 4 k = take 4 k') ks ks'"
  shows "runner_MarshalLogObject (r\<lparr>rc_SecretToken := t, rc_APIKeys := ks\<rparr>)
       = runner_MarshalLogObject (r\<lparr>rc_SecretToken := t', rc_APIKeys := ks'\<rparr>)
     \<and> params_MarshalLogObject (p\<lparr>P_Token := x, P_APIKey := y\<rparr>) = params_MarshalLogObject p"
proof -
  have red: "redact v = redact v'" if "length v \<ge> 4" "length v' \<ge> 4" "take 4 v = take 4 v'" for v v'
    using that by (auto simp: redact_def)
  have keys: "map (\<lambda>(k, v). (''apikey['' @ k @ '']'', LogString (redact v))) ks = map (\<lambda>(k, v). (''apikey['' @ k @ '']'', LogString (redact v))) ks'"
    using assms(4)
  proof (induction rule: list_all2_induct)
    case (Cons a as b bs)
    then show ?case using red[of "snd a" "snd b"] by (simp add: case_prod_unfold)
  qed simp
  show ?thesis using red[OF assms(1-3)] keys by (simp add: runner_MarshalLogObject_def params_MarshalLogObject_def)
qed

definition ex_runner_config :: runner_config where
  "ex_runner_config =
     \<lparr>rc_Scenario = ''steady'', rc_ScenariosPath = ''f'', rc_ServerURL = ''http://<project_id>.x'', rc_SecretToken = [],
      rc_APIKeys = [(''p1'', ''key1'')], rc_Headers = [], rc_BypassProxy = False, rc_IgnoreErrors = False,
      rc_RunForever = False, rc_RunDuration = 0\<rparr>"

theorem secrets_not_logged_witness:
  "runner_MarshalLogObject (ex_runner_config\<lparr>rc_SecretToken := ''abcdefgh'', rc_APIKeys := [(''p'', ''wxyz1'')]\<rparr>)
     = runner_MarshalLogObject (ex_runner_config\<lparr>rc_SecretToken := ''abcd0000'', rc_APIKeys := [(''p'', ''wxyz23'')]\<rparr>)"
  using secrets_not_logged[of "''abcdefgh''" "''abcd0000''" "[(''p'', ''wxyz1'')]" "[(''p'', ''wxyz23'')]" ex_runner_config]
  by simp

subsection \<open>Properties of the handler parameters and of a run\<close>

text \<open>C16 (the parameters of an agent).  They are an error exactly when the server URL, with the project in
  place of the placeholder, or the event rate does not parse, in this order.  Otherwise the agent
  replays the files of its name to that URL, limited to the burst of the rate, with the API key of
  the scenario or else of its project, and with the headers of the runner over those of the
  scenario, the project replacing the placeholder in each and always sent itself.\<close>

theorem agent_parameters:
  assumes "go_map_ok (sc_Headers c)" "go_map_ok (rc_Headers rc)"
    and "url_text = replace_first (if sc_ServerURL c = [] then rc_ServerURL rc else sc_ServerURL c) ''<project_id>'' (sc_ProjectID c)"
  shows "case getHandlerParams parse_url rc c of
      Inl e \<Rightarrow> (\<exists>x. parse_url url_text = Inl x \<and> e = ErrParseURL x)
             \<or> (\<exists>u x. parse_url url_text = Inr u \<and> ParseEventRate (sc_EventRate c) = Inl x \<and> e = ErrEventRate x)
    | Inr p \<Rightarrow> \<exists>u b d. parse_url url_text = Inr u \<and> ParseEventRate (sc_EventRate c) = Inr (b, d)
        \<and> P_URL p = u_String u \<and> P_Limiter p = Some (GetNewLimiter b d)
        \<and> P_Path p = (if sc_AgentName c = [] then ''apm-'' else sc_AgentName c) @ ''*.ndjson''
        \<and> P_Protocol p = (if has_prefix (sc_AgentName c) ''otlp-'' then ''otlp/http'' else ''apm/http'')
        \<and> P_APIKey p = (if sc_APIKey c = [] then case map_of (rc_APIKeys rc) (sc_ProjectID c) of Some k \<Rightarrow> k | None \<Rightarrow> []
                        else sc_APIKey c)
        \<and> P_RunForever p = rc_RunForever rc \<and> P_IgnoreErrors p = rc_IgnoreErrors rc
        \<and> map_of (P_Headers p) = (map_option (\<lambda>v. replace_first v ''<project_id>'' (sc_ProjectID c))
              \<circ> (map_of (sc_Headers c) ++ map_of (rc_Headers rc))) (''X-Elastic-Project-Id'' \<mapsto> sc_ProjectID c)"
proof -
  let ?c = "if sc_AgentName c = [] then c\<lparr>sc_AgentName := ''apm-''\<rparr> else c"
  have "handler_headers rc ?c = handler_headers rc c" by (simp add: handler_headers_def)
  moreover have "agent_protocol (sc_AgentName ?c) = agent_protocol (sc_AgentName c)" by (simp add: agent_protocol_def)
  ultimately show ?thesis
    using assms(3) handler_headers_map[OF assms(1,2)]
    by (cases "parse_url url_text"; cases "ParseEventRate (sc_EventRate c)")
       (auto simp: getHandlerParams_def Let_def project_placeholder_def agent_protocol_def split: if_splits)
qed

lemma getHandlerParams_protocol:
  assumes "getHandlerParams parse_url rc c = Inr p"
  shows "P_Protocol p = agent_protocol (sc_AgentName c)"
proof -
  have "agent_protocol ''apm-'' = agent_protocol []" by (simp add: agent_protocol_def)
  then show ?thesis using assms by (auto simp: getHandlerParams_def Let_def res_bind_Inr_iff split: if_splits)
qed

lemma getHandlerParams_limiter:
  assumes "getHandlerParams parse_url rc c = Inr p" "ParseEventRate (sc_EventRate c) = Inr (b, d)"
  shows "P_Limiter p = Some (GetNewLimiter b d)"
  using assms by (auto simp: getHandlerParams_def Let_def res_bind_Inr_iff split: if_splits)

text \<open>A scenario without a version.  The runner keeps the configurations of its scenario unchanged, so
  an agent without a version, or with any string that is not one, targets the unknown version,
  although the runner means to default it to the latest.\<close>

lemma missing_version_is_unknown:
  assumes "NewRunner read_file unmarshal rc = Inr r"
  shows "(\<exists>f scenarios. read_file (rc_ScenariosPath rc) = Inr f \<and> unmarshal f = Inr scenarios
           \<and> scenarios (rc_Scenario rc) = Some (run_scenarioConfigs r))
     \<and> run_config r = rc
     \<and> (case getHandlerParams parse_url rc c of
          Inl e \<Rightarrow> True
        | Inr p \<Rightarrow> P_TargetStackVersion p =
            (if sc_TargetVersion c = ''latest'' then TargetStackVersionLatest
             else if sc_TargetVersion c = ''7x'' then TargetStackVersion7x else TargetStackVersionUnknown))"
proof -
  have slice: "snd (fold (\<lambda>v (copy, slice). (Some (default_version v), slice)) xs (o1, ys)) = ys" for xs o1 ys
    by (induction xs arbitrary: o1) auto
  have "targetStackVer c' = (if sc_TargetVersion c = ''latest'' then TargetStackVersionLatest
      else if sc_TargetVersion c = ''7x'' then TargetStackVersion7x else TargetStackVersionUnknown)"
    if "sc_TargetVersion c' = sc_TargetVersion c" for c'
    using that by (simp add: targetStackVer_def FromStringVersion_def)
  moreover have "\<exists>c'. sc_TargetVersion c' = sc_TargetVersion c \<and> P_TargetStackVersion p = targetStackVer c'"
    if "getHandlerParams parse_url rc c = Inr p" for p
  proof -
    let ?c1 = "if sc_AgentName c = [] then c\<lparr>sc_AgentName := ''apm-''\<rparr> else c"
    let ?c2 = "if sc_ServerURL ?c1 = [] then ?c1\<lparr>sc_ServerURL := rc_ServerURL rc\<rparr> else ?c1"
    let ?c3 = "if sc_APIKey ?c2 = [] then ?c2\<lparr>sc_APIKey := case map_of (rc_APIKeys rc) (sc_ProjectID ?c2) of Some k \<Rightarrow> k | None \<Rightarrow> []\<rparr> else ?c2"
    have "P_TargetStackVersion p = targetStackVer ?c3"
      using that unfolding getHandlerParams_def Let_def res_bind_Inr_iff by (auto simp only: case_prod_unfold event_handler_params.simps res_bind_Inr_iff sum.inject)
    moreover have "sc_TargetVersion ?c3 = sc_TargetVersion c" by simp
    ultimately show ?thesis by blast
  qed
  ultimately have "case getHandlerParams parse_url rc c of Inl e \<Rightarrow> True
        | Inr p \<Rightarrow> P_TargetStackVersion p = (if sc_TargetVersion c = ''latest'' then TargetStackVersionLatest
             else if sc_TargetVersion c = ''7x'' then TargetStackVersion7x else TargetStackVersionUnknown)"
    by (cases "getHandlerParams parse_url rc c") force+
  moreover have "default_versions cfgs = cfgs" for cfgs by (simp add: default_versions_def slice)
  ultimately show ?thesis
    using assms by (auto simp: NewRunner_def res_bind_Inr_iff simp del: sum.case split: option.splits)
qed

lemma all_returned_Some: "all_returned xs = Some rs \<longleftrightarrow> xs = map Some rs"
proof (induction xs arbitrary: rs)
  case (Cons x xs)
  then show ?case by (cases x; cases rs) auto
qed auto

text \<open>The configuration an agent is started with.\<close>

definition agent_config :: "scenario_config \<Rightarrow> scenario_config" where
  "agent_config c = (if sc_AgentReplicas c \<le> 0 then c\<lparr>sc_AgentReplicas := 1\<rparr> else c)"

lemma started_agents_eq:
  "started_agents cs = concat (map (\<lambda>c. replicate (nat (max 1 (sc_AgentReplicas c))) (agent_config c)) cs)"
  by (induction cs) (auto simp: agent_config_def Let_def max_def)

lemma agent_config_started: "c \<in> set cs \<Longrightarrow> agent_config c \<in> set (started_agents cs)"
  by (auto simp: started_agents_eq)

lemma agent_config_params: "getHandlerParams pu rc (agent_config c) = getHandlerParams pu rc c"
proof -
  have "handler_headers rc (x\<lparr>sc_AgentReplicas := n\<rparr>) = handler_headers rc x"
    and "targetStackVer (x\<lparr>sc_AgentReplicas := n\<rparr>) = targetStackVer x" for x n
    by (simp_all add: handler_headers_def targetStackVer_def)
  then show ?thesis
    by (simp add: agent_config_def getHandlerParams_def Let_def handler_headers_def targetStackVer_def)
qed

text \<open>The agent of a configuration ends well.\<close>

definition agent_ends_well ::
    "(string \<Rightarrow> string + go_url) \<Rightarrow> json_lib \<Rightarrow> loader \<Rightarrow> 'w outside \<Rightarrow> runner \<Rightarrow> scenario_config \<Rightarrow> 'w \<Rightarrow> bool" where
  "agent_ends_well parse_url lib ld out r c w =
     (case getHandlerParams parse_url (run_config r) c of
        Inl e \<Rightarrow> False
      | Inr p \<Rightarrow>
          (case NewEventHandler lib (l_transport_error ld) (l_glob ld) (l_open ld) (p\<lparr>P_Logger := True\<rparr>) of
             Inl e \<Rightarrow> False
           | Inr eh \<Rightarrow> (case handler_SendBatchesInLoop lib out eh w of Some (None, w') \<Rightarrow> True | _ \<Rightarrow> False)))"

lemma agent_ends_well_iff: "agent_ends_well pu lib ld out r c w \<longleftrightarrow> soak_runAgent pu lib ld out r c w = Some None"
  by (auto simp: agent_ends_well_def soak_runAgent_def split: sum.split option.split)

lemma soak_Run_None:
  assumes "\<And>rs. wait rs = None \<longleftrightarrow> (\<forall>x\<in>set rs. x = None)"
  shows "soak_Run wait se pu lib ld el out world r = Some None \<longleftrightarrow> se = None \<and>
     (\<forall>i < length (started_agents (run_scenarioConfigs r)).
        soak_runAgent pu lib ld (with_duration (rc_RunDuration (run_config r)) el out) r
          (started_agents (run_scenarioConfigs r) ! i) (world i) = Some None)"
proof -
  let ?as = "started_agents (run_scenarioConfigs r)"
  let ?run = "\<lambda>(i, c). soak_runAgent pu lib ld (with_duration (rc_RunDuration (run_config r)) el out) r c (world i)"
  have e: "map ?run (enumerate 0 ?as) = map (\<lambda>i. ?run (i, ?as ! i)) [0..<length ?as]"
    by (rule nth_equalityI) (simp_all add: nth_enumerate_eq)
  have "(\<exists>rs. map ?run (enumerate 0 ?as) = map Some rs \<and> (\<forall>x\<in>set rs. x = None)) \<longleftrightarrow>
      (\<forall>i < length ?as. ?run (i, ?as ! i) = Some None)"
  proof
    assume "\<exists>rs. map ?run (enumerate 0 ?as) = map Some rs \<and> (\<forall>x\<in>set rs. x = None)"
    then obtain rs where rs: "map ?run (enumerate 0 ?as) = map Some rs" "\<forall>x\<in>set rs. x = None" by blast
    then have l: "length rs = length ?as" by (metis length_enumerate length_map)
    show "\<forall>i < length ?as. ?run (i, ?as ! i) = Some None"
    proof (intro allI impI)
      fix i assume i: "i < length ?as"
      have "map (\<lambda>i. ?run (i, ?as ! i)) [0..<length ?as] ! i = map Some rs ! i" using rs(1) unfolding e by simp
      then show "?run (i, ?as ! i) = Some None" using i l rs(2) by (simp add: all_set_conv_all_nth)
    qed
  next
    assume "\<forall>i < length ?as. ?run (i, ?as ! i) = Some None"
    then have "map ?run (enumerate 0 ?as) = map Some (replicate (length ?as) None)"
      unfolding e by (intro nth_equalityI) auto
    then show "\<exists>rs. map ?run (enumerate 0 ?as) = map Some rs \<and> (\<forall>x\<in>set rs. x = None)"
      by (intro exI[of _ "replicate (length ?as) None"]) auto
  qed
  then show ?thesis
    by (cases se) (auto simp: soak_Run_def Let_def all_returned_Some assms)
qed


text \<open>The first error of the results, which is what waiting gives when the agents end in order.\<close>

fun first_error :: "'e option list \<Rightarrow> 'e option" where
  "first_error [] = None"
| "first_error (None # rs) = first_error rs"
| "first_error (Some e # rs) = Some e"

lemma first_error_None: "first_error rs = None \<longleftrightarrow> (\<forall>x\<in>set rs. x = None)"
  by (induction rs rule: first_error.induct) auto

definition ex_agent :: "string \<Rightarrow> scenario_config" where
  "ex_agent name =
     \<lparr>sc_ProjectID = ''p1'', sc_ServerURL = [], sc_APIKey = [], sc_AgentName = name, sc_AgentReplicas = 0,
      sc_EventRate = ''20/s'', sc_Headers = [], sc_RewriteIDs = True, sc_RewriteTimestamps = False,
      sc_RewriteServiceNames = False, sc_RewriteServiceNodeNames = False, sc_RewriteServiceTargetNames = False,
      sc_RewriteSpanNames = False, sc_RewriteTransactionNames = False, sc_RewriteTransactionTypes = False,
      sc_TargetVersion = []\<rparr>"

definition ex_loader :: loader where
  "ex_loader = \<lparr>l_transport_error = \<lambda>b. None, l_glob = \<lambda>p. Inr [p], l_open = \<lambda>p. Inr ex_file\<rparr>"

definition ex_parse_url :: "string \<Rightarrow> string + go_url" where
  "ex_parse_url s = Inr \<lparr>u_Scheme = ''http'', u_Host = ''x'', u_Port = [], u_String = s\<rparr>"

text \<open>An outside in which everything succeeds and the context is done after the \<open>n\<close>-th look.\<close>

definition ex_outside :: "nat outside" where
  "ex_outside = \<lparr>o_waitN = \<lambda>l n w. (None, w), o_compress = Inr, o_bad_url = \<lambda>u. None, o_client_Do = \<lambda>r w. (Inr 202, w),
     o_Uint64 = \<lambda>w. (0, w), o_Now = \<lambda>w. (0, w), o_Done = \<lambda>w. (w = 0, w - 1)\<rparr>"

definition ex_runner :: "scenario_config list \<Rightarrow> runner" where
  "ex_runner cs = \<lparr>run_config = ex_runner_config, run_scenarioConfigs = cs, run_scenarioName = ''steady''\<rparr>"

lemma ex_rate: "ParseEventRate ''20/s'' = Inr (20, 1000000000)"
  by (simp add: rate_eval)

lemma ex_new_any: "p \<noteq> [] \<Longrightarrow> \<exists>h. NewAPM ex_lib p True (\<lambda>p. Inr [p]) (\<lambda>p. Inr ex_file) = Inr h"
  by (simp add: NewAPM_def New_def load_file_def ex_file_scan load_line_def APMEventCollector_def
      APM_Filter_def APM_IsMeta_def rumMetaHeader_def metaHeader_def ex_line_def append_event_def Let_def)

lemma ex_handler_any:
  assumes "P_Protocol p = ''apm/http''" "P_Logger p"
  shows "\<exists>eh. NewEventHandler ex_lib (l_transport_error ex_loader) (l_glob ex_loader) (l_open ex_loader) p = Inr eh"
proof -
  have "events_path (P_Path p) \<noteq> []" by (simp add: events_path_def)
  from ex_new_any[OF this] obtain h
    where "NewAPM ex_lib (events_path (P_Path p)) True (\<lambda>p. Inr [p]) (\<lambda>p. Inr ex_file) = Inr h" by blast
  then show ?thesis using assms by (simp add: NewEventHandler_def newAPMEventHandler_def ex_loader_def Let_def)
qed

lemma ex_loop_done: "handler_SendBatchesInLoop lib ex_outside eh 0 = Some (None, 0)"
  by (simp add: handler_SendBatchesInLoop_def SendBatchesInLoop_def send_loop.simps handler_env_def ex_outside_def)


text \<open>OTLP agents. A scenario with an agent whose name starts with \<open>otlp-\<close> never succeeds: no event
  handler supports the protocol of such an agent.\<close>

lemma otlp_agents_never_succeed:
  assumes "\<And>rs. wait rs = None \<longleftrightarrow> (\<forall>x\<in>set rs. x = None)"
    and "c \<in> set (run_scenarioConfigs r)" "has_prefix (sc_AgentName c) ''otlp-''"
  shows "soak_Run wait seed_error parse_url lib ld elapsed out world r \<noteq> Some None"
proof
  let ?out = "with_duration (rc_RunDuration (run_config r)) elapsed out"
  assume run: "soak_Run wait seed_error parse_url lib ld elapsed out world r = Some None"
  obtain i where "i < length (started_agents (run_scenarioConfigs r))" "started_agents (run_scenarioConfigs r) ! i = agent_config c"
    using agent_config_started[OF assms(2)] by (metis in_set_conv_nth)
  then have "soak_runAgent parse_url lib ld ?out r (agent_config c) (world i) = Some None"
    using run soak_Run_None[OF assms(1)] by metis
  then obtain p eh where p: "getHandlerParams parse_url (run_config r) c = Inr p"
    and eh: "NewEventHandler lib (l_transport_error ld) (l_glob ld) (l_open ld) (p\<lparr>P_Logger := True\<rparr>) = Inr eh"
    by (auto simp: soak_runAgent_def agent_config_params split: sum.splits)
  have "P_Protocol p = ''otlp/http''" using getHandlerParams_protocol[OF p] assms(3) by (simp add: agent_protocol_def)
  then show False using eh by (simp add: NewEventHandler_def)
qed

lemma otlp_agents_never_succeed_witness:
  "soak_Run first_error None ex_parse_url ex_lib ex_loader (\<lambda>w. 0) ex_outside (\<lambda>i. 0) (ex_runner [ex_agent ''apm-go'', ex_agent ''otlp-logs''])
     \<noteq> Some None"
  by (rule otlp_agents_never_succeed[OF first_error_None, of "ex_agent ''otlp-logs''"]) (simp_all add: ex_runner_def ex_agent_def)

theorem agent_parameters_witness:
  "\<exists>p. getHandlerParams ex_parse_url ex_runner_config (ex_agent ''otlp-logs'') = Inr p \<and> P_APIKey p = ''key1''
     \<and> P_Limiter p = Some (GetNewLimiter 20 1000000000) \<and> P_Protocol p = ''otlp/http''"
proof -
  obtain p where p: "getHandlerParams ex_parse_url ex_runner_config (ex_agent ''otlp-logs'') = Inr p"
    by (auto simp: getHandlerParams_def ex_parse_url_def ex_agent_def ex_rate Let_def)
  have ok: "go_map_ok (sc_Headers (ex_agent ''otlp-logs''))" "go_map_ok (rc_Headers ex_runner_config)"
    by (simp_all add: go_map_ok_def ex_agent_def ex_runner_config_def)
  show ?thesis
    using agent_parameters[OF ok refl, of ex_parse_url] p
    by (auto simp: ex_agent_def ex_runner_config_def ex_rate)
qed

lemma missing_version_is_unknown_witness:
  "\<exists>r p. NewRunner (\<lambda>f. Inr []) (\<lambda>f. Inr (\<lambda>n. Some [ex_agent ''apm-go''])) ex_runner_config = Inr r
     \<and> run_scenarioConfigs r = [ex_agent ''apm-go'']
     \<and> getHandlerParams ex_parse_url ex_runner_config (ex_agent ''apm-go'') = Inr p
     \<and> P_TargetStackVersion p = TargetStackVersionUnknown"
proof -
  obtain p where p: "getHandlerParams ex_parse_url ex_runner_config (ex_agent ''apm-go'') = Inr p"
    by (auto simp: getHandlerParams_def ex_parse_url_def ex_agent_def ex_rate Let_def)
  obtain r where r: "NewRunner (\<lambda>f. Inr []) (\<lambda>f. Inr (\<lambda>n. Some [ex_agent ''apm-go''])) ex_runner_config = Inr r"
    by (simp add: NewRunner_def)
  show ?thesis
    using missing_version_is_unknown[OF r, of "ex_agent ''apm-go''" ex_parse_url] p r
    by (auto simp: ex_agent_def)
qed

end
