(* ===== verification/Generator.thy ===== *)
theory Generator
  imports Soak
begin

section \<open>The generator library and command (pkg/telemetrygen, cmd/apmtelemetrygen)\<close>

text \<open>
  \<open>Generator.RunBlocking\<close> replays each of four recordings once per replica with one shared limiter;
  \<open>apmtelemetrygen run\<close> replays the recordings of all agents a number of times.  The text of a URL is
  \<open>u_String\<close>; calling \<open>String\<close> on a URL that is nil panics.
\<close>

subsection \<open>Configuration\<close>

record gen_config =
  G_AgentReplicas :: int
  G_ServerURL :: "go_url option"
  G_APIKey :: string
  G_Headers :: go_map
  G_Secure :: bool
  G_EventRate :: rate_flag
  G_IgnoreErrors :: bool
  G_RewriteIDs :: bool
  G_RewriteTimestamps :: bool
  G_RewriteServiceNames :: bool
  G_RewriteServiceNodeNames :: bool
  G_RewriteServiceTargetNames :: bool
  G_RewriteSpanNames :: bool
  G_RewriteTransactionNames :: bool
  G_RewriteTransactionTypes :: bool
  G_TargetStackVersion :: target_stack_version

definition DefaultConfig :: gen_config where
  "DefaultConfig =
     \<lparr>G_AgentReplicas = 1, G_ServerURL = None, G_APIKey = [], G_Headers = [], G_Secure = True,
      G_EventRate = \<lparr>Burst = 10, Interval = 1 * dur_second\<rparr>, G_IgnoreErrors = False,
      G_RewriteIDs = True, G_RewriteTimestamps = True, G_RewriteServiceNames = False,
      G_RewriteServiceNodeNames = False, G_RewriteServiceTargetNames = False, G_RewriteSpanNames = False,
      G_RewriteTransactionNames = False, G_RewriteTransactionTypes = False,
      G_TargetStackVersion = TargetStackVersionLatest\<rparr>"

text \<open>\<open>errors.Join\<close>: nil when there is no error.\<close>

definition errors_Join :: "string list \<Rightarrow> string option" where
  "errors_Join errs = (if errs = [] then None else Some (join_with [CHR 0x0A] errs))"

definition gen_Validate :: "gen_config \<Rightarrow> string option" where
  "gen_Validate c =
     (let errs = [];
          errs = (if G_ServerURL c = None then errs @ [''ServerURL is required''] else errs)
      in errors_Join errs)"

definition gen_New :: "gen_config \<Rightarrow> string + gen_config" where
  "gen_New cfg = (case gen_Validate cfg of
     Some e \<Rightarrow> Inl (''cannot create generator, configuration is invalid: '' @ e) | None \<Rightarrow> Inr cfg)"

subsection \<open>RunBlocking\<close>

definition gen_params :: "limiter \<Rightarrow> string \<Rightarrow> gen_config \<Rightarrow> panic + event_handler_params" where
  "gen_params lmt expr cfg =
     (case G_ServerURL cfg of
        None \<Rightarrow> Inl NilDereference
      | Some url \<Rightarrow>
          Inr \<lparr>P_Logger = True, P_Path = expr, P_URL = u_String url, P_Token = [], P_APIKey = G_APIKey cfg,
               P_Limiter = Some lmt, P_IgnoreErrors = False, P_RunForever = False, P_RewriteIDs = G_RewriteIDs cfg,
               P_RewriteServiceNames = G_RewriteServiceNames cfg,
               P_RewriteServiceNodeNames = G_RewriteServiceNodeNames cfg,
               P_RewriteServiceTargetNames = G_RewriteServiceTargetNames cfg,
               P_RewriteSpanNames = G_RewriteSpanNames cfg,
               P_RewriteTransactionNames = G_RewriteTransactionNames cfg,
               P_RewriteTransactionTypes = G_RewriteTransactionTypes cfg,
               P_RewriteTimestamps = G_RewriteTimestamps cfg, P_Headers = G_Headers cfg,
               P_Protocol = ''apm/http'', P_Datatype = [], P_Insecure = False,
               P_TargetStackVersion = G_TargetStackVersion cfg\<rparr>)"

datatype gen_error = GenCreate handler_error | GenSend send_error | GenSeed string

definition gen_runAgent :: "json_lib \<Rightarrow> loader \<Rightarrow> 'w outside \<Rightarrow> string \<Rightarrow> limiter \<Rightarrow> gen_config \<Rightarrow> 'w \<Rightarrow> panic + gen_error option" where
  "gen_runAgent lib ld out expr lmt cfg w =
     res_bind (gen_params lmt expr cfg) (\<lambda>p.
       case NewEventHandler lib (l_transport_error ld) (l_glob ld) (l_open ld) p of
         Inl e \<Rightarrow> Inr (Some (GenCreate e))
       | Inr eh \<Rightarrow> (case handler_SendBatches lib out eh w of (n, err, w') \<Rightarrow> Inr (map_option GenSend err)))"

definition agent_exprs :: "string list" where
  "agent_exprs = [''apm-go*.ndjson'', ''apm-nodejs*.ndjson'', ''apm-python*.ndjson'', ''apm-ruby*.ndjson'']"

definition gen_agents :: "gen_config \<Rightarrow> string list" where
  "gen_agents cfg = concat (replicate (nat (G_AgentReplicas cfg)) agent_exprs)"

text \<open>The results of the started goroutines; a panic in one of them ends the process.\<close>

fun no_panic :: "('p + 'a) list \<Rightarrow> 'p + 'a list" where
  "no_panic [] = Inr []"
| "no_panic (r # rs) = res_bind r (\<lambda>x. res_bind (no_panic rs) (\<lambda>xs. Inr (x # xs)))"

definition RunBlocking ::
    "(gen_error option list \<Rightarrow> gen_error option) \<Rightarrow> string option \<Rightarrow> json_lib \<Rightarrow> loader \<Rightarrow> 'w outside \<Rightarrow> (nat \<Rightarrow> 'w)
       \<Rightarrow> gen_config \<Rightarrow> panic + gen_error option" where
  "RunBlocking wait seed_error lib ld out world cfg =
     (let lmt = GetNewLimiter (Burst (G_EventRate cfg)) (Interval (G_EventRate cfg)) in
      case seed_error of
        Some e \<Rightarrow> Inr (Some (GenSeed e))
      | None \<Rightarrow>
          res_bind (no_panic (map (\<lambda>(i, expr). gen_runAgent lib ld out expr lmt cfg (world i))
             (enumerate 0 (gen_agents cfg)))) (\<lambda>rs. Inr (wait rs)))"

subsection \<open>apmtelemetrygen run\<close>

record gen_run_options =
  gro_Headers :: go_map
  gro_ServerURL :: string
  gro_SecretToken :: string
  gro_APIKey :: string
  gro_Loglevel :: string
  gro_Protocol :: string
  gro_Datatype :: string
  gro_EventRate :: string
  gro_Iterations :: int
  gro_IgnoreErrors :: bool
  gro_RewriteIDs :: bool
  gro_RewriteTimestamps :: bool
  gro_Insecure :: bool

definition toEventHandlerParams :: "gen_run_options \<Rightarrow> rate_error + event_handler_params" where
  "toEventHandlerParams opts =
     res_bind (ParseEventRate (gro_EventRate opts)) (\<lambda>(burst, interval).
       Inr \<lparr>P_Logger = True, P_Path = ''apm*.ndjson'', P_URL = gro_ServerURL opts, P_Token = gro_SecretToken opts,
            P_APIKey = gro_APIKey opts, P_Limiter = Some (GetNewLimiter burst interval),
            P_IgnoreErrors = gro_IgnoreErrors opts, P_RunForever = False, P_RewriteIDs = gro_RewriteIDs opts,
            P_RewriteServiceNames = False, P_RewriteServiceNodeNames = False, P_RewriteServiceTargetNames = False,
            P_RewriteSpanNames = False, P_RewriteTransactionNames = False, P_RewriteTransactionTypes = False,
            P_RewriteTimestamps = gro_RewriteTimestamps opts, P_Headers = gro_Headers opts,
            P_Protocol = gro_Protocol opts, P_Datatype = gro_Datatype opts, P_Insecure = gro_Insecure opts,
            P_TargetStackVersion = TargetStackVersionUnknown\<rparr>)"

fun iterations_loop :: "('w \<Rightarrow> int \<times> send_error option \<times> 'w) \<Rightarrow> bool \<Rightarrow> nat \<Rightarrow> 'w \<Rightarrow> send_error option \<times> 'w" where
  "iterations_loop send ignoreErrors 0 w = (None, w)"
| "iterations_loop send ignoreErrors (Suc n) w =
     (case send w of
        (k, Some err, w') \<Rightarrow> if \<not> ignoreErrors then (Some err, w') else iterations_loop send ignoreErrors n w'
      | (k, None, w') \<Rightarrow> iterations_loop send ignoreErrors n w')"

datatype cmd_error = CmdFlags rate_error | CmdHandler handler_error | CmdSend send_error

definition gen_run_cmd :: "json_lib \<Rightarrow> loader \<Rightarrow> 'w outside \<Rightarrow> gen_run_options \<Rightarrow> 'w \<Rightarrow> cmd_error option \<times> 'w" where
  "gen_run_cmd lib ld out options w =
     (case toEventHandlerParams options of
        Inl e \<Rightarrow> (Some (CmdFlags e), w)
      | Inr config \<Rightarrow>
          (case NewEventHandler lib (l_transport_error ld) (l_glob ld) (l_open ld) config of
             Inl e \<Rightarrow> (Some (CmdHandler e), w)
           | Inr lg \<Rightarrow>
               (case iterations_loop (handler_SendBatches lib out lg) (gro_IgnoreErrors options) (nat (gro_Iterations options)) w of
                  (err, w') \<Rightarrow> (map_option CmdSend err, w'))))"

subsection \<open>Properties\<close>

lemma gen_New_ok: "gen_New cfg = Inr c \<longleftrightarrow> c = cfg \<and> G_ServerURL cfg \<noteq> None"
  by (auto simp: gen_New_def gen_Validate_def errors_Join_def)

lemma no_panic_Inr: "no_panic xs = Inr rs \<longleftrightarrow> xs = map Inr rs"
  by (induction xs arbitrary: rs) (auto simp: res_bind_Inr_iff Cons_eq_map_conv)

lemma no_panic_all:
  "(\<And>x. x \<in> set xs \<Longrightarrow> \<exists>r. x = Inr r) \<Longrightarrow> \<exists>rs. no_panic xs = Inr rs"
  by (induction xs) (auto simp: res_bind_Inr_iff)

text \<open>The agent of a generator with a server URL sends its batches once and well.\<close>

definition gen_agent_ok :: "json_lib \<Rightarrow> loader \<Rightarrow> 'w outside \<Rightarrow> string \<Rightarrow> limiter \<Rightarrow> gen_config \<Rightarrow> 'w \<Rightarrow> bool" where
  "gen_agent_ok lib ld out expr lmt cfg w =
     (case gen_params lmt expr cfg of
        Inl e \<Rightarrow> False
      | Inr p \<Rightarrow> (case NewEventHandler lib (l_transport_error ld) (l_glob ld) (l_open ld) p of
            Inl e \<Rightarrow> False
          | Inr eh \<Rightarrow> fst (snd (handler_SendBatches lib out eh w)) = None))"

lemma gen_agent_ok_iff: "gen_agent_ok lib ld out expr lmt cfg w \<longleftrightarrow> gen_runAgent lib ld out expr lmt cfg w = Inr None"
  by (auto simp: gen_agent_ok_def gen_runAgent_def split: sum.splits prod.split)

lemma gen_runAgent_returns: "G_ServerURL cfg \<noteq> None \<Longrightarrow> \<exists>r. gen_runAgent lib ld out expr lmt cfg w = Inr r"
  by (auto simp: gen_runAgent_def gen_params_def split: sum.splits prod.splits)


text \<open>The worlds before each iteration, and whether an iteration succeeds.\<close>

definition next_world :: "('w \<Rightarrow> int \<times> send_error option \<times> 'w) \<Rightarrow> 'w \<Rightarrow> 'w" where
  "next_world send w = snd (snd (send w))"

definition world_after :: "('w \<Rightarrow> int \<times> send_error option \<times> 'w) \<Rightarrow> nat \<Rightarrow> 'w \<Rightarrow> 'w" where
  "world_after send k w = (next_world send ^^ k) w"

definition send_result :: "('w \<Rightarrow> int \<times> send_error option \<times> 'w) \<Rightarrow> nat \<Rightarrow> 'w \<Rightarrow> send_error option" where
  "send_result send k w = fst (snd (send (world_after send k w)))"

lemma world_after_Suc: "world_after send (Suc k) w = world_after send k (snd (snd (send w)))"
  by (simp add: world_after_def funpow_swap1 next_world_def[symmetric])

lemma send_result_Suc: "send_result send (Suc k) w = send_result send k (snd (snd (send w)))"
  by (simp add: send_result_def world_after_Suc)

text \<open>A run of apmtelemetrygen.  With errors ignored every iteration is made and the run succeeds;
  otherwise the run succeeds when every iteration does, and stops with the error of the first that
  does not.\<close>

lemma iterations_run:
  "(iterations_loop send ignoreErrors n w = (None, world_after send n w)
      \<longleftrightarrow> fst (iterations_loop send ignoreErrors n w) = None)
   \<and> (fst (iterations_loop send ignoreErrors n w) = None \<longleftrightarrow> ignoreErrors \<or> list_all (\<lambda>k. send_result send k w = None) [0..<n])
   \<and> (fst (iterations_loop send ignoreErrors n w) \<noteq> None \<longleftrightarrow>
        \<not> ignoreErrors \<and> (\<exists>k<n. list_all (\<lambda>j. send_result send j w = None) [0..<k] \<and> send_result send k w \<noteq> None
           \<and> iterations_loop send ignoreErrors n w = (send_result send k w, world_after send (Suc k) w)))"
proof (induction n arbitrary: w)
  case 0
  then show ?case by (simp add: world_after_def)
next
  case (Suc n)
  obtain k r w' where s: "send w = (k, r, w')" by (cases "send w")
  have r0: "send_result send 0 w = r" and w1: "world_after send (Suc 0) w = w'"
    using s by (simp_all add: send_result_def world_after_def next_world_def)
  have upto: "list_all P [0..<Suc m] \<longleftrightarrow> P 0 \<and> list_all (\<lambda>k. P (Suc k)) [0..<m]" for P m
    by (simp add: upt_conv_Cons map_Suc_upt[symmetric] list.pred_map comp_def del: upt_Suc map_Suc_upt)
  have ex: "(\<exists>k<Suc m. P k) \<longleftrightarrow> P 0 \<or> (\<exists>k<m. P (Suc k))" for P m
    by (metis Suc_less_eq less_Suc_eq_0_disj)
  show ?case
  proof (cases r)
    case None
    then show ?thesis using Suc[of w'] s r0
      by (simp only: upto ex) (simp add: world_after_Suc send_result_Suc upto del: not_None_eq, blast)
  next
    case (Some e)
    then show ?thesis
    proof (cases ignoreErrors)
      case True
      then show ?thesis using Suc[of w'] s by (simp add: Some world_after_Suc)
    next
      case False
      then show ?thesis using Some s r0 w1 by (simp add: upto ex del: upt_Suc)
    qed
  qed
qed

definition ex_gen :: gen_config where
  "ex_gen = DefaultConfig\<lparr>G_ServerURL := Some \<lparr>u_Scheme = ''http'', u_Host = ''x'', u_Port = [], u_String = ''http://x''\<rparr>\<rparr>"


end
