(* ===== verification/Commands.thy ===== *)
theory Commands
  imports Soak Generator
begin

section \<open>The commands and their exit status (cmd/apmsoak, cmd/apmtelemetrygen)\<close>

text \<open>
  The \<open>run\<close> commands from their options to the value they give to cobra, and what \<open>main\<close> makes of it.
  \<open>logger.Fatal\<close> and \<open>log.Fatal\<close> end the process with status 1.  Whether an error is
  \<open>context.Canceled\<close>, as \<open>errors.Is\<close> decides it, is a parameter; \<open>None\<close> is a command that does not
  return.
\<close>

datatype 'e cmd_result = Exits nat | Returns "'e option"

definition soak_NewCmdRun ::
    "(run_error \<Rightarrow> bool) \<Rightarrow> (string \<Rightarrow> string + bytes) \<Rightarrow> (bytes \<Rightarrow> string + (string \<Rightarrow> scenario_config list option))
       \<Rightarrow> (runner \<Rightarrow> run_error option option) \<Rightarrow> run_options \<Rightarrow> run_error cmd_result option" where
  "soak_NewCmdRun canceled read_file unmarshal run options =
     (case toRunnerConfig options of
        Inl err \<Rightarrow> Some (Exits 1)
      | Inr config \<Rightarrow>
          (case NewRunner read_file unmarshal config of
             Inl err \<Rightarrow> Some (Exits 1)
           | Inr runner \<Rightarrow>
               map_option (\<lambda>r. Returns (case r of None \<Rightarrow> None | Some err \<Rightarrow> if \<not> canceled err then Some err else None))
                 (run runner)))"

text \<open>The error of the hook before the command is the command's error.\<close>

definition apmsoak_main :: "('e \<Rightarrow> bool) \<Rightarrow> ('e \<Rightarrow> string) \<Rightarrow> 'e option \<Rightarrow> 'e cmd_result option \<Rightarrow> (nat \<times> string list) option" where
  "apmsoak_main canceled msg prerun cmd =
     (case (case prerun of Some e \<Rightarrow> Some (Returns (Some e)) | None \<Rightarrow> cmd) of
        None \<Rightarrow> None
      | Some (Exits n) \<Rightarrow> Some (n, [])
      | Some (Returns (Some err)) \<Rightarrow> if \<not> canceled err then Some (0, [msg err]) else Some (0, [])
      | Some (Returns None) \<Rightarrow> Some (0, []))"

definition gen_newRunCmd :: "json_lib \<Rightarrow> loader \<Rightarrow> 'w outside \<Rightarrow> gen_run_options \<Rightarrow> 'w \<Rightarrow> cmd_error cmd_result" where
  "gen_newRunCmd lib ld out options w =
     (case fst (gen_run_cmd lib ld out options w) of
        Some (CmdFlags e) \<Rightarrow> Exits 1
      | Some (CmdHandler e) \<Rightarrow> Exits 1
      | err \<Rightarrow> Returns err)"

definition apmtelemetrygen_main :: "('e \<Rightarrow> bool) \<Rightarrow> 'e option \<Rightarrow> 'e cmd_result \<Rightarrow> nat" where
  "apmtelemetrygen_main canceled prerun cmd =
     (case (case prerun of Some e \<Rightarrow> Returns (Some e) | None \<Rightarrow> cmd) of
        Exits n \<Rightarrow> n
      | Returns (Some err) \<Rightarrow> if \<not> canceled err then 1 else 130
      | Returns None \<Rightarrow> 0)"

subsection \<open>Properties\<close>

text \<open>The status of a soak test.  The process reports a failure only for options that are not valid and for
  scenarios that cannot be loaded; a run that fails, or a variable of the environment that is invalid,
  ends with status 0.\<close>

lemma apmsoak_status:
  "map_option fst (apmsoak_main canceled msg prerun (soak_NewCmdRun canceled' read_file unmarshal run options)) = Some n \<Longrightarrow>
   n = (if prerun = None \<and> (case toRunnerConfig options of Inl e \<Rightarrow> True | Inr config \<Rightarrow> \<not> is_ok (NewRunner read_file unmarshal config)) then 1 else 0)"
  by (auto simp: apmsoak_main_def soak_NewCmdRun_def is_ok_iff split: option.splits sum.splits if_splits)

text \<open>The status of the generator.  It is 0 exactly when the flags were set from the environment, a handler was
  created and every iteration was sent, or errors were to be ignored.\<close>

lemma apmtelemetrygen_status:
  "apmtelemetrygen_main canceled prerun (gen_newRunCmd lib ld out options w) = 0 \<longleftrightarrow>
     prerun = None \<and> fst (gen_run_cmd lib ld out options w) = None"
  by (auto simp: apmtelemetrygen_main_def gen_newRunCmd_def split: option.splits cmd_error.splits)

end
