(* ===== verification/CommandLine.thy ===== *)
theory CommandLine
  imports Commands
begin

section \<open>The flags of the run commands and the environment (cmd/apmsoak, cmd/apmtelemetrygen)\<close>

text \<open>
  \<open>NewCmdRun\<close> and \<open>newRunCmd\<close> declare the flags of the two commands: the defaults of the options and, for
  every name, the option the flag sets.  What \<open>Set\<close> of a pflag value of type bool, int and duration
  returns and stores is a parameter (\<open>flag_lib\<close>); the header flags are those of the commands.  The
  hook of theory \<open>Flags\<close> then runs on these flags in the order of their names.  The flag \<open>help\<close>, which
  cobra adds, sets no option and is left out.
\<close>

record flag_lib =
  fl_bool :: "string \<Rightarrow> string option \<times> bool"
  fl_int :: "string \<Rightarrow> string option \<times> int"
  fl_duration :: "string \<Rightarrow> string option \<times> duration"

text \<open>A flag that stores what a value's \<open>Set\<close> gives.\<close>

definition store_flag :: "string option \<times> 'v \<Rightarrow> ('v \<Rightarrow> 's) \<Rightarrow> string option \<times> 's" where
  "store_flag r upd = (case r of (err, v) \<Rightarrow> (err, upd v))"

lemma store_flag_simps [simp]: "fst (store_flag r upd) = fst r" "snd (store_flag r upd) = upd (snd r)"
  by (simp_all add: store_flag_def split: prod.split)

text \<open>The flags as the hook visits them, each with whether the command line gave it.\<close>

definition visited :: "string list \<Rightarrow> string list \<Rightarrow> (string \<times> bool) list" where
  "visited changed ns = map (\<lambda>n. (n, List.member changed n)) ns"

subsection \<open>apmsoak run\<close>

definition soak_declared :: run_options where
  "soak_declared =
     \<lparr>ro_Scenario = ''steady'', ro_ScenariosPath = ''./scenarios.yml'', ro_ServerURL = '''', ro_SecretToken = '''',
      ro_APIKeys = '''', ro_Headers = [], ro_BypassProxy = False, ro_Loglevel = ''info'', ro_IgnoreErrors = False,
      ro_RunForever = False, ro_RunDuration = 0\<rparr>"

definition soak_flag_names :: "string list" where
  "soak_flag_names =
     [''api-keys'', ''bypass-proxy'', ''duration'', ''file'', ''header'', ''ignore-errors'', ''log-level'',
      ''run-forever'', ''scenario'', ''secret-token'', ''server-url'']"

definition soak_flag_Set :: "flag_lib \<Rightarrow> string \<Rightarrow> string \<Rightarrow> run_options \<Rightarrow> string option \<times> run_options" where
  "soak_flag_Set fl name v o1 =
     (if name = ''server-url'' then (None, o1\<lparr>ro_ServerURL := v\<rparr>)
      else if name = ''scenario'' then (None, o1\<lparr>ro_Scenario := v\<rparr>)
      else if name = ''file'' then (None, o1\<lparr>ro_ScenariosPath := v\<rparr>)
      else if name = ''secret-token'' then (None, o1\<lparr>ro_SecretToken := v\<rparr>)
      else if name = ''api-keys'' then (None, o1\<lparr>ro_APIKeys := v\<rparr>)
      else if name = ''header'' then store_flag (headersFlag_Set v (ro_Headers o1)) (\<lambda>h. o1\<lparr>ro_Headers := h\<rparr>)
      else if name = ''bypass-proxy'' then store_flag (fl_bool fl v) (\<lambda>b. o1\<lparr>ro_BypassProxy := b\<rparr>)
      else if name = ''log-level'' then (None, o1\<lparr>ro_Loglevel := v\<rparr>)
      else if name = ''ignore-errors'' then store_flag (fl_bool fl v) (\<lambda>b. o1\<lparr>ro_IgnoreErrors := b\<rparr>)
      else if name = ''run-forever'' then store_flag (fl_bool fl v) (\<lambda>b. o1\<lparr>ro_RunForever := b\<rparr>)
      else if name = ''duration'' then store_flag (fl_duration fl v) (\<lambda>d. o1\<lparr>ro_RunDuration := d\<rparr>)
      else (Some ''no such flag'', o1))"

text \<open>The hook before the command: \<open>changed\<close> are the flags given on the command line.\<close>

definition soak_pre_run ::
    "flag_lib \<Rightarrow> (string \<Rightarrow> string option) \<Rightarrow> string list \<Rightarrow> run_options \<Rightarrow> (string \<times> string) option \<times> run_options" where
  "soak_pre_run fl lookup changed o1 =
     pre_run lookup (soak_flag_Set fl) (visited changed soak_flag_names) None o1"

subsection \<open>apmtelemetrygen run\<close>

definition gen_declared :: gen_run_options where
  "gen_declared =
     \<lparr>gro_Headers = [], gro_ServerURL = '''', gro_SecretToken = '''', gro_APIKey = '''', gro_Loglevel = ''debug'',
      gro_Protocol = ''apm/http'', gro_Datatype = ''any'', gro_EventRate = ''0/s'', gro_Iterations = 1,
      gro_IgnoreErrors = False, gro_RewriteIDs = True, gro_RewriteTimestamps = True, gro_Insecure = False\<rparr>"

definition gen_flag_names :: "string list" where
  "gen_flag_names =
     [''api-key'', ''data-type'', ''event-rate'', ''header'', ''ignore-errors'', ''insecure'', ''iterations'', ''log-level'',
      ''protocol'', ''rewrite-ids'', ''rewrite-timestamps'', ''secret-token'', ''server-url'']"

definition gen_flag_Set :: "flag_lib \<Rightarrow> string \<Rightarrow> string \<Rightarrow> gen_run_options \<Rightarrow> string option \<times> gen_run_options" where
  "gen_flag_Set fl name v o1 =
     (if name = ''header'' then store_flag (Gen_headersFlag_Set v (gro_Headers o1)) (\<lambda>h. o1\<lparr>gro_Headers := h\<rparr>)
      else if name = ''server-url'' then (None, o1\<lparr>gro_ServerURL := v\<rparr>)
      else if name = ''secret-token'' then (None, o1\<lparr>gro_SecretToken := v\<rparr>)
      else if name = ''api-key'' then (None, o1\<lparr>gro_APIKey := v\<rparr>)
      else if name = ''log-level'' then (None, o1\<lparr>gro_Loglevel := v\<rparr>)
      else if name = ''protocol'' then (None, o1\<lparr>gro_Protocol := v\<rparr>)
      else if name = ''data-type'' then (None, o1\<lparr>gro_Datatype := v\<rparr>)
      else if name = ''event-rate'' then (None, o1\<lparr>gro_EventRate := v\<rparr>)
      else if name = ''iterations'' then store_flag (fl_int fl v) (\<lambda>i. o1\<lparr>gro_Iterations := i\<rparr>)
      else if name = ''ignore-errors'' then store_flag (fl_bool fl v) (\<lambda>b. o1\<lparr>gro_IgnoreErrors := b\<rparr>)
      else if name = ''rewrite-ids'' then store_flag (fl_bool fl v) (\<lambda>b. o1\<lparr>gro_RewriteIDs := b\<rparr>)
      else if name = ''rewrite-timestamps'' then store_flag (fl_bool fl v) (\<lambda>b. o1\<lparr>gro_RewriteTimestamps := b\<rparr>)
      else if name = ''insecure'' then store_flag (fl_bool fl v) (\<lambda>b. o1\<lparr>gro_Insecure := b\<rparr>)
      else (Some ''no such flag'', o1))"

definition gen_options_pre_run ::
    "flag_lib \<Rightarrow> (string \<Rightarrow> string option) \<Rightarrow> string list \<Rightarrow> gen_run_options \<Rightarrow> (string \<times> string) option \<times> gen_run_options" where
  "gen_options_pre_run fl lookup changed o1 =
     gen_pre_run lookup (gen_flag_Set fl) (visited changed gen_flag_names) None o1"

subsection \<open>What the hook does to the options\<close>

text \<open>\<open>env_value\<close> is the variable of a flag the command line left alone.  An option is then set from it.\<close>

definition env_value :: "(string \<Rightarrow> string option) \<Rightarrow> string list \<Rightarrow> string \<Rightarrow> string option" where
  "env_value lookup changed n = (if List.member changed n then None else lookup (env_var n))"

definition env_or :: "string option \<Rightarrow> (string \<Rightarrow> 'v) \<Rightarrow> 'v \<Rightarrow> 'v" where
  "env_or ov f d = (case ov of None \<Rightarrow> d | Some v \<Rightarrow> f v)"

definition env_set :: "(string \<Rightarrow> string \<Rightarrow> 's \<Rightarrow> string option \<times> 's) \<Rightarrow> string option \<Rightarrow> string \<Rightarrow> 's \<Rightarrow> 's" where
  "env_set set_flag ov n s = env_or ov (\<lambda>v. snd (set_flag n v s)) s"

lemma env_or_all: "(\<forall>v. ov = Some v \<longrightarrow> P v) \<longleftrightarrow> env_or ov P True"
  by (simp add: env_or_def split: option.split)

lemma env_or_True [simp]: "env_or ov (\<lambda>v. True) True"
  by (simp add: env_or_def split: option.split)

lemma from_env_Nil [simp]: "from_env lookup (visited changed []) = []"
  by (simp add: from_env_def visited_def)

lemma from_env_Cons [simp]:
  "from_env lookup (visited changed (n # ns)) =
     (case env_value lookup changed n of None \<Rightarrow> [] | Some v \<Rightarrow> [(n, v)]) @ from_env lookup (visited changed ns)"
  by (auto simp: from_env_def visited_def env_value_def split: option.split)

lemma from_env_fold:
  "fold (\<lambda>(n, v) s. snd (set_flag n v s)) (from_env lookup (visited changed ns)) s =
   fold (\<lambda>n. env_set set_flag (env_value lookup changed n) n) ns s"
  by (induction ns arbitrary: s) (auto simp: env_set_def env_or_def split: option.split)

text \<open>Whether setting a flag fails does not depend on the other options.\<close>

lemma env_errors_iff:
  assumes "\<And>n v s s'. fst (set_flag n v s) = None \<longleftrightarrow> fst (set_flag n v s') = None"
  shows "env_errors set_flag (from_env lookup (visited changed ns)) s = [] \<longleftrightarrow>
     (\<forall>n \<in> set ns. \<forall>v. env_value lookup changed n = Some v \<longrightarrow> fst (set_flag n v s0) = None)"
proof (induction ns arbitrary: s)
  case (Cons n ns)
  show ?case
  proof (cases "env_value lookup changed n")
    case (Some v)
    then show ?thesis using Cons assms[of n v s s0] by (auto split: option.splits)
  qed (simp add: Cons)
qed simp

lemma pre_run_result:
  assumes "\<And>n v s s'. fst (set_flag n v s) = None \<longleftrightarrow> fst (set_flag n v s') = None"
  shows "snd (pre_run lookup set_flag (visited changed ns) None s) =
       fold (\<lambda>n. env_set set_flag (env_value lookup changed n) n) ns s"
    and "fst (pre_run lookup set_flag (visited changed ns) None s) = None \<longleftrightarrow>
       (\<forall>n \<in> set ns. \<forall>v. env_value lookup changed n = Some v \<longrightarrow> fst (set_flag n v s0) = None)"
  using flags_from_environment[where lookup = lookup and set_flag = set_flag and fs = "visited changed ns" and err = None and s = s]
    env_errors_iff[where set_flag = set_flag and lookup = lookup and changed = changed and ns = ns and s = s and ?s0.0 = s0, OF assms]
  by (simp_all add: from_env_fold Let_def)

lemma header_Set_fst:
  "fst (headersFlag_Set v h) = None \<longleftrightarrow> CHR ''='' \<in> set v" "fst (Gen_headersFlag_Set v h) = None \<longleftrightarrow> CHR ''='' \<in> set v"
  using cut1_found[of "CHR ''=''" v] cut1_not_found[of "CHR ''=''" v]
  by (auto simp: headersFlag_Set_def Gen_headersFlag_Set_def split: prod.split)

lemma flag_Set_fst:
  "fst (soak_flag_Set fl n v s) = None \<longleftrightarrow> fst (soak_flag_Set fl n v s') = None"
  "fst (gen_flag_Set fl n v t) = None \<longleftrightarrow> fst (gen_flag_Set fl n v t') = None"
  by (simp_all add: soak_flag_Set_def gen_flag_Set_def header_Set_fst)

text \<open>What a flag of each command does to the options when its variable is used.\<close>

lemma soak_env_set:
  "env_set (soak_flag_Set fl) ov ''server-url'' s = s\<lparr>ro_ServerURL := env_or ov id (ro_ServerURL s)\<rparr>"
  "env_set (soak_flag_Set fl) ov ''scenario'' s = s\<lparr>ro_Scenario := env_or ov id (ro_Scenario s)\<rparr>"
  "env_set (soak_flag_Set fl) ov ''file'' s = s\<lparr>ro_ScenariosPath := env_or ov id (ro_ScenariosPath s)\<rparr>"
  "env_set (soak_flag_Set fl) ov ''secret-token'' s = s\<lparr>ro_SecretToken := env_or ov id (ro_SecretToken s)\<rparr>"
  "env_set (soak_flag_Set fl) ov ''api-keys'' s = s\<lparr>ro_APIKeys := env_or ov id (ro_APIKeys s)\<rparr>"
  "env_set (soak_flag_Set fl) ov ''header'' s =
     s\<lparr>ro_Headers := env_or ov (\<lambda>v. snd (headersFlag_Set v (ro_Headers s))) (ro_Headers s)\<rparr>"
  "env_set (soak_flag_Set fl) ov ''bypass-proxy'' s = s\<lparr>ro_BypassProxy := env_or ov (\<lambda>v. snd (fl_bool fl v)) (ro_BypassProxy s)\<rparr>"
  "env_set (soak_flag_Set fl) ov ''log-level'' s = s\<lparr>ro_Loglevel := env_or ov id (ro_Loglevel s)\<rparr>"
  "env_set (soak_flag_Set fl) ov ''ignore-errors'' s = s\<lparr>ro_IgnoreErrors := env_or ov (\<lambda>v. snd (fl_bool fl v)) (ro_IgnoreErrors s)\<rparr>"
  "env_set (soak_flag_Set fl) ov ''run-forever'' s = s\<lparr>ro_RunForever := env_or ov (\<lambda>v. snd (fl_bool fl v)) (ro_RunForever s)\<rparr>"
  "env_set (soak_flag_Set fl) ov ''duration'' s = s\<lparr>ro_RunDuration := env_or ov (\<lambda>v. snd (fl_duration fl v)) (ro_RunDuration s)\<rparr>"
  by (cases ov; simp add: env_set_def env_or_def soak_flag_Set_def)+

lemma gen_env_set:
  "env_set (gen_flag_Set fl) ov ''header'' t =
     t\<lparr>gro_Headers := env_or ov (\<lambda>v. snd (Gen_headersFlag_Set v (gro_Headers t))) (gro_Headers t)\<rparr>"
  "env_set (gen_flag_Set fl) ov ''server-url'' t = t\<lparr>gro_ServerURL := env_or ov id (gro_ServerURL t)\<rparr>"
  "env_set (gen_flag_Set fl) ov ''secret-token'' t = t\<lparr>gro_SecretToken := env_or ov id (gro_SecretToken t)\<rparr>"
  "env_set (gen_flag_Set fl) ov ''api-key'' t = t\<lparr>gro_APIKey := env_or ov id (gro_APIKey t)\<rparr>"
  "env_set (gen_flag_Set fl) ov ''log-level'' t = t\<lparr>gro_Loglevel := env_or ov id (gro_Loglevel t)\<rparr>"
  "env_set (gen_flag_Set fl) ov ''protocol'' t = t\<lparr>gro_Protocol := env_or ov id (gro_Protocol t)\<rparr>"
  "env_set (gen_flag_Set fl) ov ''data-type'' t = t\<lparr>gro_Datatype := env_or ov id (gro_Datatype t)\<rparr>"
  "env_set (gen_flag_Set fl) ov ''event-rate'' t = t\<lparr>gro_EventRate := env_or ov id (gro_EventRate t)\<rparr>"
  "env_set (gen_flag_Set fl) ov ''iterations'' t = t\<lparr>gro_Iterations := env_or ov (\<lambda>v. snd (fl_int fl v)) (gro_Iterations t)\<rparr>"
  "env_set (gen_flag_Set fl) ov ''ignore-errors'' t = t\<lparr>gro_IgnoreErrors := env_or ov (\<lambda>v. snd (fl_bool fl v)) (gro_IgnoreErrors t)\<rparr>"
  "env_set (gen_flag_Set fl) ov ''rewrite-ids'' t = t\<lparr>gro_RewriteIDs := env_or ov (\<lambda>v. snd (fl_bool fl v)) (gro_RewriteIDs t)\<rparr>"
  "env_set (gen_flag_Set fl) ov ''rewrite-timestamps'' t = t\<lparr>gro_RewriteTimestamps := env_or ov (\<lambda>v. snd (fl_bool fl v)) (gro_RewriteTimestamps t)\<rparr>"
  "env_set (gen_flag_Set fl) ov ''insecure'' t = t\<lparr>gro_Insecure := env_or ov (\<lambda>v. snd (fl_bool fl v)) (gro_Insecure t)\<rparr>"
  by (cases ov; simp add: env_set_def env_or_def gen_flag_Set_def)+

lemma soak_pre_run_options:
  "snd (soak_pre_run fl lookup changed o1) =
     \<lparr>ro_Scenario = env_or (env_value lookup changed ''scenario'') id (ro_Scenario o1),
      ro_ScenariosPath = env_or (env_value lookup changed ''file'') id (ro_ScenariosPath o1),
      ro_ServerURL = env_or (env_value lookup changed ''server-url'') id (ro_ServerURL o1),
      ro_SecretToken = env_or (env_value lookup changed ''secret-token'') id (ro_SecretToken o1),
      ro_APIKeys = env_or (env_value lookup changed ''api-keys'') id (ro_APIKeys o1),
      ro_Headers = env_or (env_value lookup changed ''header'') (\<lambda>v. snd (headersFlag_Set v (ro_Headers o1))) (ro_Headers o1),
      ro_BypassProxy = env_or (env_value lookup changed ''bypass-proxy'') (\<lambda>v. snd (fl_bool fl v)) (ro_BypassProxy o1),
      ro_Loglevel = env_or (env_value lookup changed ''log-level'') id (ro_Loglevel o1),
      ro_IgnoreErrors = env_or (env_value lookup changed ''ignore-errors'') (\<lambda>v. snd (fl_bool fl v)) (ro_IgnoreErrors o1),
      ro_RunForever = env_or (env_value lookup changed ''run-forever'') (\<lambda>v. snd (fl_bool fl v)) (ro_RunForever o1),
      ro_RunDuration = env_or (env_value lookup changed ''duration'') (\<lambda>v. snd (fl_duration fl v)) (ro_RunDuration o1)\<rparr>"
  unfolding soak_pre_run_def pre_run_result(1)[of "soak_flag_Set fl", OF flag_Set_fst(1)] soak_flag_names_def
  by (simp add: soak_env_set)

lemma soak_pre_run_error:
  "fst (soak_pre_run fl lookup changed o1) = None \<longleftrightarrow>
        list_all (\<lambda>n. env_or (env_value lookup changed n) (\<lambda>v. fst (fl_bool fl v) = None) True) [''bypass-proxy'', ''ignore-errors'', ''run-forever'']
        \<and> env_or (env_value lookup changed ''duration'') (\<lambda>v. fst (fl_duration fl v) = None) True
        \<and> env_or (env_value lookup changed ''header'') (\<lambda>v. CHR ''='' \<in> set v) True"
  unfolding soak_pre_run_def pre_run_result(2)[of "soak_flag_Set fl", OF flag_Set_fst(1), where ?s0.0 = soak_declared] soak_flag_names_def
  by (simp add: env_or_all soak_flag_Set_def header_Set_fst) blast

text \<open>C31 (where the options of a command come from).  After the hook of \<open>apmsoak\<close> every option of \<open>run\<close> is what
  its environment variable says when there is one and the command line does not give the flag, and
  what it was otherwise; the header variable adds one header.  The hook reports an error exactly when
  such a variable of a boolean, the duration or the header is invalid.\<close>

theorem soak_options_from_environment:
  "snd (soak_pre_run fl lookup changed o1) =
     \<lparr>ro_Scenario = env_or (env_value lookup changed ''scenario'') id (ro_Scenario o1),
      ro_ScenariosPath = env_or (env_value lookup changed ''file'') id (ro_ScenariosPath o1),
      ro_ServerURL = env_or (env_value lookup changed ''server-url'') id (ro_ServerURL o1),
      ro_SecretToken = env_or (env_value lookup changed ''secret-token'') id (ro_SecretToken o1),
      ro_APIKeys = env_or (env_value lookup changed ''api-keys'') id (ro_APIKeys o1),
      ro_Headers = env_or (env_value lookup changed ''header'') (\<lambda>v. snd (headersFlag_Set v (ro_Headers o1))) (ro_Headers o1),
      ro_BypassProxy = env_or (env_value lookup changed ''bypass-proxy'') (\<lambda>v. snd (fl_bool fl v)) (ro_BypassProxy o1),
      ro_Loglevel = env_or (env_value lookup changed ''log-level'') id (ro_Loglevel o1),
      ro_IgnoreErrors = env_or (env_value lookup changed ''ignore-errors'') (\<lambda>v. snd (fl_bool fl v)) (ro_IgnoreErrors o1),
      ro_RunForever = env_or (env_value lookup changed ''run-forever'') (\<lambda>v. snd (fl_bool fl v)) (ro_RunForever o1),
      ro_RunDuration = env_or (env_value lookup changed ''duration'') (\<lambda>v. snd (fl_duration fl v)) (ro_RunDuration o1)\<rparr>
   \<and> (fst (soak_pre_run fl lookup changed o1) = None \<longleftrightarrow>
        list_all (\<lambda>n. env_or (env_value lookup changed n) (\<lambda>v. fst (fl_bool fl v) = None) True) [''bypass-proxy'', ''ignore-errors'', ''run-forever'']
        \<and> env_or (env_value lookup changed ''duration'') (\<lambda>v. fst (fl_duration fl v) = None) True
        \<and> env_or (env_value lookup changed ''header'') (\<lambda>v. CHR ''='' \<in> set v) True)"
  using soak_pre_run_options soak_pre_run_error by blast

text \<open>The same for \<open>apmtelemetrygen run\<close>.\<close>

lemma gen_pre_run_options:
  "snd (gen_options_pre_run fl lookup changed o1) =
     \<lparr>gro_Headers = env_or (env_value lookup changed ''header'') (\<lambda>v. snd (Gen_headersFlag_Set v (gro_Headers o1))) (gro_Headers o1),
      gro_ServerURL = env_or (env_value lookup changed ''server-url'') id (gro_ServerURL o1),
      gro_SecretToken = env_or (env_value lookup changed ''secret-token'') id (gro_SecretToken o1),
      gro_APIKey = env_or (env_value lookup changed ''api-key'') id (gro_APIKey o1),
      gro_Loglevel = env_or (env_value lookup changed ''log-level'') id (gro_Loglevel o1),
      gro_Protocol = env_or (env_value lookup changed ''protocol'') id (gro_Protocol o1),
      gro_Datatype = env_or (env_value lookup changed ''data-type'') id (gro_Datatype o1),
      gro_EventRate = env_or (env_value lookup changed ''event-rate'') id (gro_EventRate o1),
      gro_Iterations = env_or (env_value lookup changed ''iterations'') (\<lambda>v. snd (fl_int fl v)) (gro_Iterations o1),
      gro_IgnoreErrors = env_or (env_value lookup changed ''ignore-errors'') (\<lambda>v. snd (fl_bool fl v)) (gro_IgnoreErrors o1),
      gro_RewriteIDs = env_or (env_value lookup changed ''rewrite-ids'') (\<lambda>v. snd (fl_bool fl v)) (gro_RewriteIDs o1),
      gro_RewriteTimestamps = env_or (env_value lookup changed ''rewrite-timestamps'') (\<lambda>v. snd (fl_bool fl v)) (gro_RewriteTimestamps o1),
      gro_Insecure = env_or (env_value lookup changed ''insecure'') (\<lambda>v. snd (fl_bool fl v)) (gro_Insecure o1)\<rparr>"
  unfolding gen_options_pre_run_def flags_from_environment[THEN conjunct2]
    pre_run_result(1)[of "gen_flag_Set fl", OF flag_Set_fst(2)] gen_flag_names_def
  by (simp add: gen_env_set)

text \<open>The help of both commands gives a default for the server URL.  Without the flag and its variable the
  URL is empty all the same, and the address of every request has no host.\<close>

lemma default_server_url_empty:
  "snd (soak_pre_run fl (\<lambda>_. None) [] soak_declared) = soak_declared"
  "snd (gen_options_pre_run fl (\<lambda>_. None) [] gen_declared) = gen_declared"
  "intakeV2URL (NewAPMTransport (ro_ServerURL soak_declared) token key hs) = ''/intake/v2/events''"
  "intakeV2URL (NewAPMTransport (gro_ServerURL gen_declared) token key hs) = ''/intake/v2/events''"
  by (simp_all add: soak_pre_run_options gen_pre_run_options env_or_def env_value_def soak_declared_def gen_declared_def
      NewAPMTransport_def)

text \<open>The options declared for \<open>apmtelemetrygen run\<close> give parameters of an APM handler without a limit.\<close>

lemma gen_declared_params:
  "\<exists>p. toEventHandlerParams gen_declared = Inr p \<and> P_Protocol p = ''apm/http''
     \<and> P_Limiter p = Some \<lparr>lim_limit = Lim_Inf, lim_burst = 0\<rparr>"
proof -
  have "ParseEventRate ''0/s'' = Inr (0, dur_second)" by (simp add: rate_eval dur_second_def)
  then show ?thesis by (simp add: toEventHandlerParams_def gen_declared_def GetNewLimiter_def)
qed

end
