(* ===== verification/Logging.thy ===== *)
theory Logging
  imports CommandLine Store
begin

section \<open>Loggers, logged responses and the version commands\<close>

text \<open>
  What is left of the commands around their runs: the level each logger is built with (cmd/apmsoak,
  cmd/apmtelemetrygen, cmd/apmbench), what the APM transport logs of a response
  (loadgen/eventhandler/apm.go), what an aggregation logs of itself (otelinmemexporter/store.go), and the
  text of the version commands (internal/version).  \<open>zapcore.ParseLevel\<close>, the text of a URL and of a
  time, and \<open>time.Parse\<close> are parameters.
\<close>

subsection \<open>Levels\<close>

datatype log_level = DebugLevel | InfoLevel | WarnLevel | ErrorLevel | OtherLevel int

definition soak_getLogger :: "string \<Rightarrow> log_level" where
  "soak_getLogger logLevel =
     (if logLevel = ''debug'' then DebugLevel
      else if logLevel = ''warn'' then WarnLevel
      else if logLevel = ''error'' then ErrorLevel
      else InfoLevel)"

definition gen_getLogger :: "(string \<Rightarrow> string + log_level) \<Rightarrow> string \<Rightarrow> log_level" where
  "gen_getLogger ParseLevel logLevel = (case ParseLevel logLevel of Inl err \<Rightarrow> InfoLevel | Inr level \<Rightarrow> level)"

text \<open>The production configuration of zap logs from its info level on.\<close>

definition setupLogger :: "log_level \<Rightarrow> bool \<Rightarrow> log_level" where
  "setupLogger production debug = (if debug then DebugLevel else production)"

lemma loggers_agree:
  assumes "ParseLevel ''debug'' = Inr DebugLevel" "ParseLevel ''info'' = Inr InfoLevel"
    "ParseLevel ''warn'' = Inr WarnLevel" "ParseLevel ''error'' = Inr ErrorLevel"
    and "l \<in> {''debug'', ''info'', ''warn'', ''error''} \<or> \<not> is_ok (ParseLevel l)"
  shows "gen_getLogger ParseLevel l = soak_getLogger l"
proof (cases "l \<in> {''debug'', ''info'', ''warn'', ''error''}")
  case True
  then consider "l = ''debug''" | "l = ''info''" | "l = ''warn''" | "l = ''error''" by blast
  then show ?thesis using assms(1-4) by cases (simp_all add: gen_getLogger_def soak_getLogger_def)
next
  case False
  then have "\<not> is_ok (ParseLevel l)" using assms(5) by simp
  then show ?thesis using False by (cases "ParseLevel l") (simp_all add: gen_getLogger_def soak_getLogger_def)
qed

subsection \<open>logResponseOutcome\<close>

text \<open>A response as the function reads it: the bytes of the body up to an error of reading it, if any, and
  the text of the URL of its request, if it has one.\<close>

record http_response =
  res_StatusCode :: int
  res_Body :: bytes
  res_body_error :: "string option"
  res_request_url :: "string option"

datatype log_entry = LogEntry log_level string "(string \<times> string) list"

definition logResponseOutcome :: "(int \<Rightarrow> string) \<Rightarrow> http_response option \<Rightarrow> log_entry list" where
  "logResponseOutcome show_int res =
     (case res of
        None \<Rightarrow> []
      | Some res \<Rightarrow>
          let read = (case res_body_error res of None \<Rightarrow> [] | Some err \<Rightarrow> [LogEntry ErrorLevel ''cannot read body'' [(''error'', err)]]);
              destination = (case res_request_url res of None \<Rightarrow> ''unknown'' | Some url \<Rightarrow> url);
              fields = [(''status_code'', show_int (res_StatusCode res)), (''response'', res_Body res), (''destination'', destination)]
          in read @ (if res_StatusCode res \<ge> 400 then [LogEntry ErrorLevel ''request failed'' fields]
                     else [LogEntry DebugLevel ''request completed'' fields]))"

fun entry_level :: "log_entry \<Rightarrow> log_level" where
  "entry_level (LogEntry l m fs) = l"

text \<open>A response is logged as an error exactly when reading it failed or its status is an error, also one
  that \<open>sendEvents\<close> does not report because errors are ignored.\<close>

lemma failures_logged:
  "(\<exists>x \<in> set (logResponseOutcome show_int (Some res)). entry_level x = ErrorLevel) \<longleftrightarrow>
     res_body_error res \<noteq> None \<or> 400 \<le> res_StatusCode res"
  by (cases "res_body_error res") (simp_all add: logResponseOutcome_def Let_def)

lemma sdiv_hundred: "4 \<le> s sdiv 100 \<Longrightarrow> 400 \<le> (s :: int)"
proof (cases "0 \<le> s")
  case True
  then have "s sdiv 100 = s div 100" by (cases "s = 0") (simp_all add: signed_divide_int_def)
  then show "4 \<le> s sdiv 100 \<Longrightarrow> 400 \<le> s" by simp
next
  case False
  then have "s sdiv 100 = - (\<bar>s\<bar> div 100)" by (simp add: signed_divide_int_def)
  moreover have "0 \<le> \<bar>s\<bar> div 100" by simp
  ultimately show "4 \<le> s sdiv 100 \<Longrightarrow> 400 \<le> s" by linarith
qed

lemma reported_errors_logged:
  assumes "client_Do req w = (Inr (res_StatusCode res), w')"
    and "fst (sendEvents_status client_Do req ignoreErrs w) \<noteq> None"
  shows "\<exists>x \<in> set (logResponseOutcome show_int (Some res)). entry_level x = ErrorLevel"
proof -
  let ?s = "res_StatusCode res"
  have "?s sdiv 100 = 4 \<or> ?s sdiv 100 = 5" using assms by (auto simp: sendEvents_status_def split: if_splits)
  then have "400 \<le> ?s" by (intro sdiv_hundred) auto
  then show ?thesis by (simp add: failures_logged)
qed

subsection \<open>AggregationConfig.MarshalLogObject\<close>

datatype agg_log = AggString string | AggFloat f64 | AggObject "(string \<times> string) list"

definition agg_MarshalLogObject :: "agg_config \<Rightarrow> (string \<times> agg_log) list" where
  "agg_MarshalLogObject cfg =
     [(''name'', AggString (Name cfg)), (''type'', AggString (Type cfg)), (''key'', AggString (Key cfg)),
      (''group_by'', AggString (GroupBy cfg)), (''percentile'', AggFloat (Percentile cfg)),
      (''label_values'', AggObject (concat (map (\<lambda>(l, v). [(''label'', l), (''value'', v)]) (MatchLabelValues cfg))))]"

text \<open>The object of the labels has the same two names for every label, so with more than one label it is
  not an object with distinct names.\<close>

lemma label_names_repeat:
  assumes "map_of (agg_MarshalLogObject cfg) ''label_values'' = Some (AggObject fs)"
  shows "distinct (map fst fs) \<longleftrightarrow> length (MatchLabelValues cfg) \<le> 1"
proof -
  have "fs = concat (map (\<lambda>(l, v). [(''label'', l), (''value'', v)]) (MatchLabelValues cfg))"
    using assms by (simp add: agg_MarshalLogObject_def)
  then show ?thesis
    by (cases "MatchLabelValues cfg" rule: remdups_adj.cases) (auto simp: split_def)
qed

subsection \<open>The version commands\<close>

text \<open>\<open>BuildTime\<close> prints an error of parsing the time it was linked with and returns what the parser gives.\<close>

definition BuildTime :: "(string \<Rightarrow> string option \<times> 'time) \<Rightarrow> string \<Rightarrow> string list \<times> 'time" where
  "BuildTime parse_time buildTime =
     (case parse_time buildTime of (err, v) \<Rightarrow> (case err of None \<Rightarrow> [] | Some e \<Rightarrow> [e @ ''\<newline>''], v))"

definition version :: string where "version = ''0.1.0''"

text \<open>What a version command prints, from the platform and the commit and time of the build.\<close>

definition version_text :: "string \<Rightarrow> string \<Rightarrow> string \<Rightarrow> string \<Rightarrow> string" where
  "version_text command goos goarch built =
     command @ '' version '' @ version @ '' ('' @ goos @ ''/'' @ goarch @ '') ['' @ built @ '']\<newline>''"

definition soak_NewCmdVersion ::
    "(string \<Rightarrow> string option \<times> 'time) \<Rightarrow> ('time \<Rightarrow> string) \<Rightarrow> string \<Rightarrow> string \<Rightarrow> string \<Rightarrow> string \<Rightarrow> string list" where
  "soak_NewCmdVersion parse_time show_time goos goarch commitSha buildTime =
     (case BuildTime parse_time buildTime of (printed, t) \<Rightarrow>
        printed @ [version_text ''apmsoak'' goos goarch (commitSha @ '' '' @ show_time t)])"

definition gen_version_command ::
    "(string \<Rightarrow> string option \<times> 'time) \<Rightarrow> ('time \<Rightarrow> string) \<Rightarrow> string \<Rightarrow> string \<Rightarrow> string \<Rightarrow> string \<Rightarrow> string list" where
  "gen_version_command parse_time show_time goos goarch commitSha buildTime =
     (case BuildTime parse_time buildTime of (printed, t) \<Rightarrow>
        printed @ [version_text ''apmtelemetrygen'' goos goarch (commitSha @ '' '' @ show_time t)])"

lemma version_line_last:
  "\<exists>printed. length printed \<le> 1 \<and> soak_NewCmdVersion parse_time show_time goos goarch sha bt =
     printed @ [''apmsoak version 0.1.0 ('' @ goos @ ''/'' @ goarch @ '') ['' @ sha @ '' '' @ show_time (snd (parse_time bt)) @ '']\<newline>'']"
  by (auto simp: soak_NewCmdVersion_def BuildTime_def version_text_def version_def split: prod.split option.split)

end
