(* ===== verification/Exporter.thy ===== *)
theory Exporter
  imports TelemetryServer
begin

section \<open>The running exporter (otelinmemexporter/factory.go, exporter.go, http.go)\<close>

text \<open>
  \<open>createMetricsExporter\<close> makes one store and hands it both to the HTTP server and to the exporter the
  collector calls.  What the two do to it is a sequence of requests: batches of metrics, queries and
  resets, each atomic, because \<open>Add\<close>, \<open>Get\<close>, \<open>GetAll\<close> and \<open>Reset\<close> hold the store's lock.  So a run of the
  exporter is \<open>serve_all\<close> over any list of requests, with the answers of the server; a panic while
  adding ends the collector.  \<open>spec_answer\<close> is the abstract answer of the server to a query, from the
  points received since the last reset alone, and \<open>exporter_refines_spec\<close> the refinement.
\<close>

subsection \<open>Creation and requests\<close>

record exporter =
  x_cfg :: exporter_config
  x_store :: store
  x_endpoint :: string

datatype exporter_error = ErrCreateStore agg_error

definition createMetricsExporter :: "exporter_config \<Rightarrow> exporter_error + exporter" where
  "createMetricsExporter cfg =
     (case NewStore (Aggregations cfg) of
        Inl err \<Rightarrow> Inl (ErrCreateStore err)
      | Inr st \<Rightarrow> Inr \<lparr>x_cfg = cfg, x_store = st, x_endpoint = Endpoint cfg\<rparr>)"

datatype exporter_request =
    Consume "resource_metrics list" | Query_All | Query_Key string | Reset_Store

fun serve :: "exporter_request \<Rightarrow> exporter \<Rightarrow> panic + exporter \<times> handled option" where
  "serve (Consume ld) e =
     res_bind (consumeMetrics ld (x_store e)) (\<lambda>(st, ld'). Inr (e\<lparr>x_store := st\<rparr>, None))"
| "serve Query_All e = Inr (e, Some (handle_all GetAll (x_store e)))"
| "serve (Query_Key key) e = Inr (e, Some (handle_key Get key (x_store e)))"
| "serve Reset_Store e =
     (case handle_reset Reset (x_store e) of (st, resp) \<Rightarrow> Inr (e\<lparr>x_store := st\<rparr>, Some resp))"

definition serve_all :: "exporter_request list \<Rightarrow> exporter \<Rightarrow> panic + exporter \<times> handled option list" where
  "serve_all rs e = loop_map serve rs e"

subsection \<open>What the queries are about\<close>

text \<open>The batches since the last reset, and whether any batch has a delta histogram of a name.\<close>

fun since_reset :: "resource_metrics list \<Rightarrow> exporter_request list \<Rightarrow> resource_metrics list" where
  "since_reset acc [] = acc"
| "since_reset acc (Consume ld # rs) = since_reset (acc @ ld) rs"
| "since_reset acc (Reset_Store # rs) = since_reset [] rs"
| "since_reset acc (_ # rs) = since_reset acc rs"

definition not_histogram :: "string \<Rightarrow> metric \<Rightarrow> bool" where
  "not_histogram n m \<longleftrightarrow> m_name m \<noteq> n \<or> (case m_data m of HistogramMetric temp dps \<Rightarrow> False | _ \<Rightarrow> True)"

definition no_histograms :: "string \<Rightarrow> resource_metrics list \<Rightarrow> bool" where
  "no_histograms n ld \<longleftrightarrow> (\<forall>rm \<in> set ld. \<forall>ms \<in> set (rm_scopes rm). \<forall>m \<in> set ms. not_histogram n m)"

fun request_ok :: "string \<Rightarrow> exporter_request \<Rightarrow> bool" where
  "request_ok n (Consume ld) = no_histograms n ld"
| "request_ok n _ = True"

definition matches :: "agg_config \<Rightarrow> num_point \<Rightarrow> bool" where
  "matches c p \<longleftrightarrow> sees c (group_of c (n_attrs (snd (snd p))) (fst (snd p))) p"

definition spec_answer :: "agg_config \<Rightarrow> num_point list \<Rightarrow> numbers" where
  "spec_answer c ps =
     (if \<not> list_ex (matches c) ps then [[] \<mapsto> Fin 0]
      else (\<lambda>g. if seen c g ps = [] then None else Some (agg_spec (Type c) (seen c g ps))))"

lemma seen_none_iff: "(\<forall>g. seen c g ps = []) \<longleftrightarrow> \<not> list_ex (matches c) ps"
  by (auto simp: seen_def filter_empty_conv matches_def list_ex_iff)

subsection \<open>Histograms of other names leave a key alone\<close>

lemma merge_hist_loop_key:
  assumes "loop_res (merge_hist_cfg as res) xs (h, f) = Inr (h', f')" "k \<notin> Key ` set xs" "h k = None"
  shows "h' k = None"
  using assms
proof (induction xs arbitrary: h f)
  case (Cons c xs)
  obtain h1 f1 where c: "merge_hist_cfg as res c (h, f) = Inr (h1, f1)"
    "loop_res (merge_hist_cfg as res) xs (h1, f1) = Inr (h', f')"
    using Cons.prems(1) by (auto split: sum.splits)
  show ?case
    by (rule Cons.IH[OF c(2)]) (use Cons.prems(2,3) merge_hist_cfg_dom[OF c(1)] in \<open>auto simp: domIff\<close>)
qed simp

lemma mergeHist_key:
  assumes "mergeHistogramDataPoints (by_name cs) n dps res h = Inr (h', dps')"
    and "c \<in> set cs" "distinct (map Key cs)" "Name c \<noteq> n" "h (Key c) = None"
  shows "h' (Key c) = None"
proof (rule loop_map_invariant[where I = "\<lambda>h. h (Key c) = None"])
  show "loop_map (merge_hist_point (by_name cs) n res) dps h = Inr (h', dps')"
    using assms(1) by (simp add: mergeHistogramDataPoints_def)
  fix p u v y assume u: "u (Key c) = None" and m: "merge_hist_point (by_name cs) n res p u = Inr (v, y)"
  have "Key c \<notin> Key ` set (filterCfgs (by_name cs) n (fst p) res)"
  proof
    assume "Key c \<in> Key ` set (filterCfgs (by_name cs) n (fst p) res)"
    then obtain d where "d \<in> set cs" "Name d = n" "Key d = Key c"
      by (auto simp: filterCfgs_by_name dest: isEqualAttrs_name)
    then show False using assms(2-4) by (auto simp: distinct_map inj_on_def)
  qed
  then show "v (Key c) = None"
    by (cases rule: merge_hist_point_cases[OF m]) (use u merge_hist_loop_key in auto)
qed (rule assms(5))

lemma Add_no_histograms:
  assumes "store_wf cs s" "Add ld s = Inr (t, ld')" "c \<in> set cs" "no_histograms (Name c) ld"
    and "st_hists s (Key c) = None"
  shows "st_hists t (Key c) = None"
proof -
  let ?I = "\<lambda>s. store_wf cs s \<and> st_hists s (Key c) = None"
  have metric: "?I b" if "?I a" "not_histogram (Name c) m" "add_metric res m a = Inr (b, m')" for res m a b m'
  proof -
    have "st_nameM a = by_name cs" "distinct (map Key cs)" using that(1) by (simp_all add: store_wf_def cfgs_ok_def)
    then have "st_hists b (Key c) = None"
      using that mergeHist_key[OF _ assms(3)]
      by (fastforce simp: add_metric_def not_histogram_def res_bind_Inr_iff split: metric_data.splits if_splits)
    then show ?thesis using that add_metric_wf by blast
  qed
  have "?I t"
  proof (rule loop_map_invariant[where I = ?I])
    show "loop_map add_resource ld s = Inr (t, ld')" using assms(2) by (simp add: Add_def)
    fix rm u v y assume rm: "rm \<in> set ld" "?I u" "add_resource rm u = Inr (v, y)"
    then obtain scopes' where l: "loop_map (loop_map (add_metric (rm_attrs rm))) (rm_scopes rm) u = Inr (v, scopes')"
      by (auto simp: add_resource_def res_bind_Inr_iff)
    have ok: "not_histogram (Name c) m" if "ms \<in> set (rm_scopes rm)" "m \<in> set ms" for ms m
      using that assms(4) rm(1) by (auto simp: no_histograms_def)
    have ms: "?I b" if "ms \<in> set (rm_scopes rm)" "?I a" "loop_map (add_metric (rm_attrs rm)) ms a = Inr (b, ms')" for ms a b ms'
      by (rule loop_map_invariant[where I = ?I, OF that(3,2)]) (rule metric, assumption, rule ok[OF that(1)])
    show "?I v" by (rule loop_map_invariant[where I = ?I, OF l rm(2)]) (rule ms)
  qed (use assms in simp)
  then show ?thesis ..
qed

subsection \<open>The invariant of a run\<close>

lemma put_nonempty: "put m k g v k' = Some Map.empty \<Longrightarrow> m k' = Some Map.empty"
  by (auto simp: put_def split: if_splits)

lemma fold_point_step_nonempty:
  "fold (point_step cs) ps nums k = Some Map.empty \<Longrightarrow> nums k = Some Map.empty"
proof (induction ps arbitrary: nums)
  case (Cons p ps)
  have cfgs: "m k = Some Map.empty" if "fold (merge_number_cfg dp res) xs m k = Some Map.empty" for dp res xs m
    using that
  proof (induction xs arbitrary: m)
    case (Cons d xs)
    then have "merge_number_cfg dp res d m k = Some Map.empty" by simp
    then show ?case unfolding merge_number_cfg_eq by (rule put_nonempty)
  qed simp
  have "point_step cs p nums k = Some Map.empty" using Cons by simp
  then show ?case by (cases p) (simp add: point_step_def, erule cfgs)
qed simp

definition in_step :: "agg_config list \<Rightarrow> agg_config \<Rightarrow> resource_metrics list \<Rightarrow> store \<Rightarrow> bool" where
  "in_step cs c ld s \<longleftrightarrow> store_wf cs s \<and> st_hists s (Key c) = None \<and> st_nums s (Key c) \<noteq> Some Map.empty
     \<and> (\<forall>g. keyed_get (st_nums s) (Key c) g = feed (Type c) (seen c g (number_points ld)) None)"

lemma in_step_empty:
  "store_wf cs s \<Longrightarrow> st_hists s (Key c) = None \<Longrightarrow> st_nums s = Map.empty \<Longrightarrow> in_step cs c [] s"
  by (simp add: in_step_def keyed_get_def number_points_def)

lemma NewStore_empty: "NewStore cs = Inr s \<Longrightarrow> st_hists s = Map.empty \<and> st_nums s = Map.empty"
  by (auto simp: NewStore_def res_bind_Inr_iff)

lemma since_reset_Cons: "since_reset acc (r # rs) = since_reset (since_reset acc [r]) rs"
  by (cases r) simp_all

lemma serve_in_step:
  assumes "in_step cs c acc (x_store e)" "serve r e = Inr (e', resp)" "c \<in> set cs" "request_ok (Name c) r"
  shows "in_step cs c (since_reset acc [r]) (x_store e')"
proof (cases r)
  case (Consume ld)
  obtain ld' where a: "Add ld (x_store e) = Inr (x_store e', ld')"
    using assms(2) by (auto simp: Consume consumeMetrics_def res_bind_Inr_iff)
  have wf: "store_wf cs (x_store e)" using assms(1) by (simp add: in_step_def)
  have "st_nums (x_store e') = fold (point_step cs) (number_points ld) (st_nums (x_store e))"
    using Add_view[OF a] wf by (simp add: store_wf_def num_view_def num_fold_def)
  then show ?thesis
    using assms Add_wf[OF wf a] Add_entry[OF wf a assms(3)] Add_no_histograms[OF wf a assms(3)]
      fold_point_step_nonempty[of cs "number_points ld" "st_nums (x_store e)" "Key c"]
    by (auto simp: in_step_def Consume number_points_append feed_append)
next
  case Reset_Store
  have "in_step cs c [] (Reset (x_store e))"
    using assms(1) by (intro in_step_empty) (simp_all add: in_step_def Reset_wf, simp_all add: Reset_def)
  then show ?thesis using assms(2) by (auto simp: Reset_Store handle_reset_def)
qed (use assms in auto)

lemma serve_all_in_step:
  assumes "serve_all rs e = Inr (e', resps)" "in_step cs c acc (x_store e)" "c \<in> set cs"
    and "list_all (request_ok (Name c)) rs"
  shows "in_step cs c (since_reset acc rs) (x_store e')"
  using assms
proof (induction rs arbitrary: e acc resps)
  case (Cons r rs)
  obtain u y ys where u: "serve r e = Inr (u, y)" "serve_all rs u = Inr (e', ys)"
    using Cons.prems(1) by (auto simp: serve_all_def res_bind_Inr_iff)
  have "in_step cs c (since_reset acc [r]) (x_store u)"
    using serve_in_step[OF Cons.prems(2) u(1)] Cons.prems(3,4) by simp
  from Cons.IH[OF u(2) this Cons.prems(3)] show ?case using Cons.prems(4) since_reset_Cons[of acc r rs] by simp
qed (simp add: serve_all_def)

lemma in_step_Get:
  assumes "in_step cs c ld s" "c \<in> set cs"
  shows "Get (Key c) s = Inr (map_option Inr \<circ> spec_answer c (number_points ld))"
proof -
  let ?ps = "number_points ld"
  have e: "keyed_get (st_nums s) (Key c) g = feed (Type c) (seen c g ?ps) None" for g
    using assms(1) by (simp add: in_step_def)
  have k: "st_keyM s (Key c) = Some c" and h: "st_hists s (Key c) = None"
    using assms by_key_Some[of cs "Key c" c] by (auto simp: in_step_def store_wf_def cfgs_ok_def)
  show ?thesis
  proof (cases "st_nums s (Key c)")
    case None
    have "seen c g ?ps = []" for g using e[of g] None by (simp add: keyed_get_def feed_def split: if_splits)
    then show ?thesis using None k h seen_none_iff[of c ?ps] by (auto simp: Get_def spec_answer_def fun_eq_iff)
  next
    case (Some nums)
    then have "nums \<noteq> Map.empty" using assms(1) by (auto simp: in_step_def)
    then obtain g where "nums g \<noteq> None" by (auto simp: fun_eq_iff)
    then have "seen c g ?ps \<noteq> []" using e[of g] Some by (auto simp: keyed_get_def)
    then have some: "list_ex (matches c) ?ps" using seen_none_iff[of c ?ps] by auto
    have "query_entry c (groups (st_nums s (Key c))) (groups (st_hists s (Key c))) g =
        map_option Inr (spec_answer c ?ps g)" for g
      using groups_keyed[of "st_nums s" "Key c" g] e[of g] some h
      by (simp add: query_entry_def groups_def[of None] feed_def spec_answer_def agg_spec_of_fold)
    then show ?thesis using Some k by (auto simp: Get_def fun_eq_iff)
  qed
qed

lemma handle_key_values:
  assumes "Get k s = Inr (map_option Inr \<circ> v)"
  shows "handle_key Get k s =
    (if json_encodes v then Response 200 (Body_Values [k \<mapsto> v]) else Response 500 Body_Empty)"
proof -
  have "\<not> query_panics (map_option Inr \<circ> v)" by (auto simp: query_panics_def split: option.splits)
  moreover have "plain (map_option Inr \<circ> v) = v" by (auto simp: plain_def fun_eq_iff split: option.splits)
  ultimately show ?thesis using assms by (simp add: handle_key_def)
qed

text \<open>C2 (the running exporter refines the specification of its aggregations).  Create an exporter from a
  configuration and let it serve any sequence of batches, queries and resets that does not panic.  Then
  a query of a configured key, of whose name no histograms came, is answered as specified by exactly
  the points that came since the last reset: status 200 and, for every group of matching points, the
  aggregate of these points in their order of arrival (0 for the empty group before any came), or
  status 500 when one of these values is not finite.\<close>

theorem exporter_refines_spec:
  assumes "\<forall>c \<in> set (Aggregations cfg). labels_ok c" "createMetricsExporter cfg = Inr e0"
    and "serve_all rs e0 = Inr (e, resps)" "c \<in> set (Aggregations cfg)" "list_all (request_ok (Name c)) rs"
  shows "let v = spec_answer c (number_points (since_reset [] rs)) in
    serve (Query_Key (Key c)) e =
      Inr (e, Some (if json_encodes v then Response 200 (Body_Values [Key c \<mapsto> v]) else Response 500 Body_Empty))"
proof -
  let ?cs = "Aggregations cfg" and ?v = "spec_answer c (number_points (since_reset [] rs))"
  have n: "NewStore ?cs = Inr (x_store e0)"
    using assms(2) by (auto simp: createMetricsExporter_def split: sum.splits)
  have "in_step ?cs c [] (x_store e0)"
    using NewStore_wf[OF assms(1) n] NewStore_empty[OF n] by (intro in_step_empty) simp_all
  from in_step_Get[OF serve_all_in_step[OF assms(3) this assms(4,5)] assms(4)]
  have "Get (Key c) (x_store e) = Inr (map_option Inr \<circ> ?v)" .
  then show ?thesis by (simp add: handle_key_values)
qed

definition ex_requests :: "exporter_request list" where
  "ex_requests = [Consume [ex_gauge ''n'' [2]], Query_All, Reset_Store, Consume [ex_gauge ''n'' [5], ex_gauge ''o'' [9]],
     Query_Key ''k'', Consume [ex_gauge ''n'' [7]]]"

lemma gauges_served:
  assumes "\<forall>ld. Consume ld \<in> set rs \<longrightarrow> (\<forall>rm \<in> set ld. \<exists>n is. rm = ex_gauge n is)"
  shows "\<exists>e' resps. serve_all rs e = Inr (e', resps)"
  using assms
proof (induction rs arbitrary: e)
  case (Cons r rs)
  have "\<exists>u y. serve r e = Inr (u, y)"
  proof (cases r)
    case (Consume ld)
    then show ?thesis using gauges_only[of "[ld]" "x_store e"] Cons.prems
      by (auto simp: res_bind_Inr_iff)
  qed (simp_all add: handle_reset_def)
  then obtain u y where "serve r e = Inr (u, y)" by blast
  then show ?case using Cons.IH[of u] Cons.prems by (auto simp: serve_all_def)
qed (simp add: serve_all_def)

lemma ex_requests_facts:
  "seen ex_sum_cfg g (number_points (since_reset [] ex_requests)) = (if g = [] then [ex_point 5, ex_point 7] else [])"
  "list_ex (matches ex_sum_cfg) (number_points (since_reset [] ex_requests))"
  "list_all (request_ok ''n'') ex_requests"
  by (auto simp: ex_requests_def number_points_def resource_points_def ex_gauge_def ex_sum_cfg_def isEqualAttrs_def
      group_of_def ex_point_def matches_def no_histograms_def not_histogram_def)

theorem exporter_refines_spec_witness:
  "\<exists>e0 e resps. createMetricsExporter \<lparr>Aggregations = [ex_sum_cfg], Endpoint = '':8081''\<rparr> = Inr e0
     \<and> serve_all ex_requests e0 = Inr (e, resps)
     \<and> serve (Query_Key ''k'') e = Inr (e, Some (Response 200 (Body_Values [''k'' \<mapsto> [[] \<mapsto> Fin 12]])))"
proof -
  let ?cfg = "\<lparr>Aggregations = [ex_sum_cfg], Endpoint = '':8081''\<rparr>"
  obtain e0 where e0: "createMetricsExporter ?cfg = Inr e0" "labels_ok ex_sum_cfg"
    using ex_store by (auto simp: createMetricsExporter_def)
  obtain e resps where e: "serve_all ex_requests e0 = Inr (e, resps)"
    using gauges_served[of ex_requests e0] by (auto simp: ex_requests_def)
  have spec: "spec_answer ex_sum_cfg (number_points (since_reset [] ex_requests)) = [[] \<mapsto> Fin 12]"
    using ex_requests_facts(2)
    by (simp add: spec_answer_def ex_requests_facts(1) fun_eq_iff)
       (simp add: agg_spec_def ex_sum_cfg_def total_def ex_point_def doubleValue_def f_of_int_def)
  have k: "Key ex_sum_cfg = ''k''" "Name ex_sum_cfg = ''n''" by (simp_all add: ex_sum_cfg_def)
  have "serve (Query_Key (Key ex_sum_cfg)) e =
      Inr (e, Some (Response 200 (Body_Values [Key ex_sum_cfg \<mapsto> [[] \<mapsto> Fin 12]])))"
    using exporter_refines_spec[of ?cfg e0 ex_requests e resps ex_sum_cfg] e0 e ex_requests_facts(3)
    by (simp add: spec k json_encodes_def)
  then show ?thesis using e0(1) e k(1) by auto
qed

end
