(* ===== verification/HistQueries.thy ===== *)
theory HistQueries
  imports Exporter
begin

section \<open>Histograms in the running exporter (otelinmemexporter/store.go, histogram.go)\<close>

text \<open>
  The exporter with histograms.  \<open>hist_total\<close> is what a query can observe of a stored histogram: its
  count, sum, bounds and bucket counts; \<open>total_of\<close> abstracts a data point to it and \<open>merge_total\<close> is
  the merge on totals.  Typed requests carry well-formed histogram points (one more count than
  bounds, adding up to the count) and a typed store holds such points: typed requests are always
  served, keep the store typed and no query of it aborts (\<open>exporter_type_sound\<close>), and every query is
  answered by \<open>full_answer\<close>, from the number points since the last reset and the histogram points
  since the creation (\<open>exporter_answers_exact\<close>).
\<close>

subsection \<open>Totals\<close>

record hist_total =
  t_count :: u64
  t_sum :: f64
  t_bounds :: "f64 list"
  t_buckets :: "u64 list"

definition total_of :: "hist_dp \<Rightarrow> hist_total" where
  "total_of dp = \<lparr>t_count = h_count dp, t_sum = opt_f64 (h_sum dp), t_bounds = h_bounds dp, t_buckets = h_buckets dp\<rparr>"

definition no_observations :: hist_total where
  "no_observations = \<lparr>t_count = 0, t_sum = Fin 0, t_bounds = [], t_buckets = []\<rparr>"

definition merge_total :: "hist_total \<Rightarrow> hist_total \<Rightarrow> hist_total" where
  "merge_total a t =
     (if t_count t = 0 \<or> \<not> float64SliceEqual (t_bounds a) (t_bounds t) then a
      else \<lparr>t_count = t_count t + t_count a, t_sum = f_add (t_sum t) (t_sum a), t_bounds = t_bounds t,
            t_buckets = map2 (+) (t_buckets t) (t_buckets a)\<rparr>)"

definition hist_type :: "agg_type \<Rightarrow> bool" where
  "hist_type typ \<longleftrightarrow> typ = Agg_Sum \<or> typ = Agg_Percentile"

text \<open>One stored entry, as an abstract machine: what a populated point does to it.\<close>

definition feed_total :: "agg_type \<Rightarrow> hist_total \<Rightarrow> hist_total option \<Rightarrow> hist_total option" where
  "feed_total typ a t = Some (if hist_type typ then merge_total a (get_or no_observations t) else get_or no_observations t)"

definition explicit_buckets :: "hist_total \<Rightarrow> explicit_bucket list" where
  "explicit_buckets t = map2 (\<lambda>b c. \<lparr>UpperBound = b, Count = c\<rparr>) (t_bounds t @ [F_PosInf]) (t_buckets t)"

definition hist_value :: "agg_config \<Rightarrow> hist_total \<Rightarrow> f64" where
  "hist_value c t =
     (if Type c = Agg_Percentile then
        (case deltaExplicitBucketsQuantile (f_div (Percentile c) (Fin 100)) (explicit_buckets t) of Inr v \<Rightarrow> v | Inl _ \<Rightarrow> F_NaN)
      else if Type c = Agg_Sum then t_sum t
      else Fin 0)"

lemma total_of_New [simp]: "total_of NewHistogramDataPoint = no_observations"
  by (simp add: total_of_def NewHistogramDataPoint_def no_observations_def opt_f64_def)

lemma total_of_sel [simp]:
  "t_count (total_of dp) = h_count dp" "t_bounds (total_of dp) = h_bounds dp" "t_buckets (total_of dp) = h_buckets dp"
  "t_sum (total_of dp) = opt_f64 (h_sum dp)"
  by (simp_all add: total_of_def)

lemma total_of_exemplars [simp]: "total_of (dp\<lparr>h_exemplars := es\<rparr>) = total_of dp"
  by (simp add: total_of_def)

lemma hist_wf_exemplars [simp]: "hist_wf (dp\<lparr>h_exemplars := es\<rparr>) = hist_wf dp"
  by (simp add: hist_wf_def)

text \<open>The merge of well-formed points refines the merge of their totals.\<close>

lemma merge_refines:
  assumes "hist_wf from" "h_count from \<noteq> 0" "hist_wf to \<or> h_count to = 0"
  obtains from' to' where "addHistogramDataPoint from to = Inr (from', to')"
    "total_of from' = total_of from" "hist_wf from'" "hist_wf to'"
    "total_of to' = merge_total (total_of from) (total_of to)"
proof (cases "mergeable from to")
  case False
  then have "addHistogramDataPoint from to = Inr (from, from)"
    "merge_total (total_of from) (total_of to) = total_of from"
    using assms(2) by (auto simp: addHistogramDataPoint_def mergeable_def merge_total_def)
  then show ?thesis using that assms(1) by metis
next
  case True
  then have b: "h_bounds from = h_bounds to" "hist_wf to"
    using assms(3) by (auto simp: mergeable_def float64SliceEqual_def dest: slice_equal_eq)
  then have l: "length (h_buckets from) = length (h_buckets to)" using assms(1) by (simp add: hist_wf_def)
  obtain f t where m: "addHistogramDataPoint from to = Inr (f, t)" "f = from\<lparr>h_exemplars := []\<rparr>"
    "h_count t = h_count to + h_count from" "h_sum t = Some (f_add (opt_f64 (h_sum to)) (opt_f64 (h_sum from)))"
    "h_bounds t = h_bounds to" "length (h_buckets t) = length (h_buckets to)"
    "sum_list (h_buckets t) = sum_list (h_buckets to) + sum_list (h_buckets from)"
    "\<And>i. i < length (h_buckets from) \<Longrightarrow> h_buckets t ! i = h_buckets to ! i + h_buckets from ! i"
    using merge_ok[OF True eq_imp_le[OF l]] by metis
  have "h_buckets t = map2 (+) (h_buckets to) (h_buckets from)"
    using m(6,8) l by (intro nth_equalityI) simp_all
  then have "total_of t = merge_total (total_of from) (total_of to)"
    using True m(3-5) by (simp add: merge_total_def mergeable_def total_of_def opt_f64_def)
  moreover have "hist_wf t" using assms(1) b(2) m(3,5-7) by (simp add: hist_wf_def)
  ultimately show ?thesis using that[OF m(1)] m(2) assms(1) by simp
qed

lemma buckets_loop_wf:
  "length counts = i + Suc (length bounds) \<Longrightarrow>
   buckets_loop counts (int i) bounds = Inr (map2 (\<lambda>b c. \<lparr>UpperBound = b, Count = c\<rparr>) bounds (butlast (drop i counts)))"
proof (induction bounds arbitrary: i)
  case (Cons ub bounds)
  then have "drop i counts = counts ! i # drop (Suc i) counts" "drop (Suc i) counts \<noteq> []"
    by (simp_all add: Cons_nth_drop_Suc)
  then show ?case using Cons.IH[of "Suc i"] Cons.prems by (simp add: slice_at_def add.commute)
qed simp

lemma getHist_value:
  assumes "hist_wf dp \<or> \<not> hist_type (Type c)"
  shows "getHistAggByType (Type c) (Percentile c) dp = Inr (hist_value c (total_of dp))"
proof (cases "Type c = Agg_Percentile")
  case True
  then have l: "length (h_buckets dp) = Suc (length (h_bounds dp))"
    using assms by (simp add: hist_type_def hist_wf_def)
  then have "h_buckets dp = butlast (h_buckets dp) @ [last (h_buckets dp)]" by (metis append_butlast_last_id length_0_conv nat.distinct(1))
  then have "zip (h_bounds dp @ [F_PosInf]) (h_buckets dp) =
      zip (h_bounds dp) (butlast (h_buckets dp)) @ [(F_PosInf, last (h_buckets dp))]"
    using l by (metis zip_append length_butlast diff_Suc_1 zip_Cons_Cons zip_Nil)
  moreover have "slice_at (h_buckets dp) (int (length (h_buckets dp)) - 1) = Inr (last (h_buckets dp))"
    using l last_conv_nth[of "h_buckets dp"] by (cases "h_buckets dp = []") (simp_all add: slice_at_def)
  ultimately have "explicitBucketsFromHistogramDataPoint dp = Inr (explicit_buckets (total_of dp))"
    using buckets_loop_wf[of "h_buckets dp" 0 "h_bounds dp"] l
    by (simp add: explicitBucketsFromHistogramDataPoint_def explicit_buckets_def)
  moreover obtain v where "deltaExplicitBucketsQuantile (f_div (Percentile c) (Fin 100)) (explicit_buckets (total_of dp)) = Inr v"
    using quantile_total by blast
  ultimately show ?thesis using True by (simp add: getHistAggByType_def hist_value_def)
qed (simp add: getHistAggByType_def hist_value_def)

subsection \<open>The populated points a key and group see\<close>

type_synonym hist_point = "string \<times> attrs \<times> attrs \<times> hist_dp"

fun metric_hists :: "attrs \<Rightarrow> metric \<Rightarrow> hist_point list" where
  "metric_hists res m =
     (case m_data m of
        HistogramMetric temp dps \<Rightarrow> if temp = Cumulative then [] else map (\<lambda>p. (m_name m, res, p)) dps
      | _ \<Rightarrow> [])"

definition resource_hists :: "resource_metrics \<Rightarrow> hist_point list" where
  "resource_hists rm = concat (map (\<lambda>ms. concat (map (metric_hists (rm_attrs rm)) ms)) (rm_scopes rm))"

definition hist_points :: "resource_metrics list \<Rightarrow> hist_point list" where
  "hist_points ld = concat (map resource_hists ld)"

fun sees_hist :: "agg_config \<Rightarrow> string \<Rightarrow> hist_point \<Rightarrow> bool" where
  "sees_hist c g (n, res, as, dp) = (h_count dp \<noteq> 0 \<and> isEqualAttrs c n as res \<and> group_of c as res = g)"

definition seen_totals :: "agg_config \<Rightarrow> string \<Rightarrow> hist_point list \<Rightarrow> hist_total list" where
  "seen_totals c g ps = map (\<lambda>(n, res, as, dp). total_of dp) (filter (sees_hist c g) ps)"

lemma seen_totals_simps [simp]:
  "seen_totals c g [] = []"
  "seen_totals c g (p # ps) = (if sees_hist c g p then total_of (snd (snd (snd p))) # seen_totals c g ps else seen_totals c g ps)"
  "seen_totals c g (ps @ qs) = seen_totals c g ps @ seen_totals c g qs"
  by (auto simp: seen_totals_def split: prod.splits)

text \<open>Typed points are well-formed when they hold observations at all.\<close>

fun point_typed :: "hist_point \<Rightarrow> bool" where
  "point_typed (n, res, as, dp) = (h_count dp \<noteq> 0 \<longrightarrow> hist_wf dp)"

definition batch_typed :: "resource_metrics list \<Rightarrow> bool" where
  "batch_typed ld \<longleftrightarrow> list_all point_typed (hist_points ld)"

fun request_typed :: "exporter_request \<Rightarrow> bool" where
  "request_typed (Consume ld) = batch_typed ld"
| "request_typed _ = True"

definition entry_typed :: "agg_config \<Rightarrow> hist_dp \<Rightarrow> bool" where
  "entry_typed c v \<longleftrightarrow> (if hist_type (Type c) then hist_wf v else v = NewHistogramDataPoint)"

definition hists_typed :: "agg_config list \<Rightarrow> hist_dp keyed \<Rightarrow> bool" where
  "hists_typed cs h \<longleftrightarrow> (\<forall>c \<in> set cs. \<forall>g v. keyed_get h (Key c) g = Some v \<longrightarrow> entry_typed c v)
     \<and> (\<forall>k. h k \<noteq> Some Map.empty)"

definition store_typed :: "agg_config list \<Rightarrow> store \<Rightarrow> bool" where
  "store_typed cs s \<longleftrightarrow> store_wf cs s \<and> hists_typed cs (st_hists s)
     \<and> (\<forall>k. st_nums s k \<noteq> Some Map.empty)"

definition total_view :: "agg_config \<Rightarrow> string \<Rightarrow> hist_dp keyed \<Rightarrow> hist_total option" where
  "total_view c g h = map_option total_of (keyed_get h (Key c) g)"

subsection \<open>Merging one point\<close>

lemma put_same: "keyed_get m k g = Some v \<Longrightarrow> put m k g v = m"
  by (auto simp: keyed_get_def put_def fun_upd_idem split: option.splits)

lemma merge_hist_cfg_typed:
  assumes "c \<in> set cs" "hists_typed cs h" "hist_wf from" "h_count from \<noteq> 0"
  obtains v from' where
    "merge_hist_cfg as res c (h, from) = Inr (put h (Key c) (group_of c as res) v, from')" "entry_typed c v"
    "total_of from' = total_of from" "hist_wf from'"
    "Some (total_of v) = feed_total (Type c) (total_of from) (total_view c (group_of c as res) h)"
proof -
  let ?g = "group_of c as res"
  let ?to = "get_or NewHistogramDataPoint (keyed_get h (Key c) ?g)"
  let ?m = "put h (Key c) ?g ?to"
  have m: "getMergeTo h NewHistogramDataPoint c as res = (?m, ?g, ?to)"
    by (auto simp: getMergeTo_eq put_same split: option.split)
  have t: "total_of ?to = get_or no_observations (total_view c ?g h)"
    by (cases "keyed_get h (Key c) ?g") (simp_all add: total_view_def)
  have e: "keyed_get h (Key c) ?g = None \<or> entry_typed c ?to"
    using assms(1,2) by (cases "keyed_get h (Key c) ?g") (auto simp: hists_typed_def)
  show ?thesis
  proof (cases "hist_type (Type c)")
    case True
    then have "hist_wf ?to \<or> h_count ?to = 0"
      using e by (cases "keyed_get h (Key c) ?g") (auto simp: entry_typed_def NewHistogramDataPoint_def)
    from merge_refines[OF assms(3,4) this] obtain f v where
      v: "addHistogramDataPoint from ?to = Inr (f, v)" "total_of f = total_of from" "hist_wf f" "hist_wf v"
         "total_of v = merge_total (total_of from) (total_of ?to)" by metis
    have "merge_hist_cfg as res c (h, from) = Inr (put h (Key c) ?g v, f)"
      using True v(1) by (simp add: merge_hist_cfg_def m hist_type_def)
    then show ?thesis using that[of v f] True v t by (simp add: entry_typed_def feed_total_def)
  next
    case False
    then have "merge_hist_cfg as res c (h, from) = Inr (put h (Key c) ?g ?to, from)"
      by (simp add: merge_hist_cfg_def m hist_type_def)
    moreover have "entry_typed c ?to"
      using e False by (cases "keyed_get h (Key c) ?g") (auto simp: entry_typed_def)
    ultimately show ?thesis using that[of ?to "from"] False assms(3) t by (simp add: feed_total_def)
  qed
qed

lemma hists_typed_put:
  assumes "hists_typed cs h" "c \<in> set cs" "distinct (map Key cs)" "entry_typed c v"
  shows "hists_typed cs (put h (Key c) g v)"
  using assms by (auto simp: hists_typed_def distinct_map inj_on_def dest: put_nonempty)

lemma merge_hist_loop_typed:
  assumes "set xs \<subseteq> set cs" "distinct (map Key xs)" "distinct (map Key cs)"
    and "hists_typed cs h" "hist_wf from" "h_count from \<noteq> 0"
  shows "\<exists>h' from'. loop_res (merge_hist_cfg as res) xs (h, from) = Inr (h', from') \<and> hists_typed cs h'
     \<and> (\<forall>c \<in> set cs. \<forall>g. total_view c g h' =
          (if c \<in> set xs \<and> group_of c as res = g then feed_total (Type c) (total_of from) (total_view c g h)
           else total_view c g h))"
  using assms
proof (induction xs arbitrary: h "from")
  case (Cons d xs)
  have d: "d \<in> set cs" using Cons.prems(1) by simp
  from merge_hist_cfg_typed[OF d Cons.prems(4-6), of as res] obtain v f where
    v: "merge_hist_cfg as res d (h, from) = Inr (put h (Key d) (group_of d as res) v, f)" "entry_typed d v"
       "total_of f = total_of from" "hist_wf f"
       "Some (total_of v) = feed_total (Type d) (total_of from) (total_view d (group_of d as res) h)" by metis
  let ?h = "put h (Key d) (group_of d as res) v"
  have "h_count f \<noteq> 0" using v(3) Cons.prems(6) total_of_sel(1) by metis
  with Cons.IH[OF _ _ Cons.prems(3) hists_typed_put[OF Cons.prems(4) d Cons.prems(3) v(2)] v(4),
      of "group_of d as res"] Cons.prems(1,2)
  obtain h' f' where r: "loop_res (merge_hist_cfg as res) xs (?h, f) = Inr (h', f')" "hists_typed cs h'"
    "\<forall>c \<in> set cs. \<forall>g. total_view c g h' =
          (if c \<in> set xs \<and> group_of c as res = g then feed_total (Type c) (total_of f) (total_view c g ?h)
           else total_view c g ?h)"
    by auto
  have view: "total_view c g ?h = (if c = d \<and> group_of d as res = g then Some (total_of v) else total_view c g h)"
    if "c \<in> set cs" for c g
    using that d Cons.prems(3) by (auto simp: total_view_def distinct_map inj_on_def)
  have "d \<notin> set xs" using Cons.prems(2) by force
  then have "\<forall>c \<in> set cs. \<forall>g. total_view c g h' =
      (if c \<in> set (d # xs) \<and> group_of c as res = g then feed_total (Type c) (total_of from) (total_view c g h)
       else total_view c g h)"
    using r(3) view v(3,5) by auto
  then show ?case using v(1) r(1,2) by auto
qed simp

subsection \<open>Merging batches\<close>

text \<open>\<open>feeds\<close>: the entries of every configuration are fed exactly the points of \<open>ps\<close> they see.\<close>

definition feeds :: "agg_config list \<Rightarrow> hist_point list \<Rightarrow> hist_dp keyed \<Rightarrow> hist_dp keyed \<Rightarrow> bool" where
  "feeds cs ps h h' \<longleftrightarrow> (\<forall>c \<in> set cs. \<forall>g.
     total_view c g h' = fold (feed_total (Type c)) (seen_totals c g ps) (total_view c g h))"

lemma feeds_refl [simp]: "feeds cs [] h h"
  by (simp add: feeds_def)

lemma feeds_trans: "feeds cs ps u v \<Longrightarrow> feeds cs qs v w \<Longrightarrow> feeds cs (ps @ qs) u w"
  by (simp add: feeds_def)

lemma feeds_unseen:
  "(\<And>c g p. c \<in> set cs \<Longrightarrow> p \<in> set ps \<Longrightarrow> \<not> sees_hist c g p) \<Longrightarrow> feeds cs ps h h"
  by (simp add: feeds_def seen_totals_def filter_empty_conv)

lemma merge_hist_point_typed:
  assumes "hists_typed cs h" "distinct (map Key cs)" "point_typed (n, res, p)"
  shows "\<exists>h' y. merge_hist_point (by_name cs) n res p h = Inr (h', y) \<and> hists_typed cs h' \<and> feeds cs [(n, res, p)] h h'"
proof -
  obtain as "from" where p: "p = (as, from)" by (cases p)
  show ?thesis
  proof (cases "h_count from = 0")
    case True
    then have "feeds cs [(n, res, p)] h h" by (intro feeds_unseen) (simp add: p)
    then show ?thesis using True assms(1) by (simp add: p merge_hist_point_def)
  next
    case False
    let ?xs = "filterCfgs (by_name cs) n as res"
    have xs: "?xs = filter (\<lambda>c. isEqualAttrs c n as res) cs" by (rule filterCfgs_by_name)
    have "distinct (map Key ?xs)" "set ?xs \<subseteq> set cs" using assms(2) by (auto simp: xs distinct_map_filter)
    moreover have "hist_wf from" using assms(3) False by (simp add: p)
    ultimately obtain h' f where r: "loop_res (merge_hist_cfg as res) ?xs (h, from) = Inr (h', f)" "hists_typed cs h'"
      "\<forall>c \<in> set cs. \<forall>g. total_view c g h' =
          (if c \<in> set ?xs \<and> group_of c as res = g then feed_total (Type c) (total_of from) (total_view c g h)
           else total_view c g h)"
      using merge_hist_loop_typed[of ?xs cs h "from" as res] assms(1,2) False by blast
    have "feeds cs [(n, res, p)] h h'" using r(3) False by (simp add: feeds_def p xs)
    then show ?thesis using r(1,2) False by (simp add: p merge_hist_point_def)
  qed
qed

lemma mergeHist_typed:
  assumes "hists_typed cs h" "distinct (map Key cs)" "list_all (\<lambda>p. point_typed (n, res, p)) dps"
  shows "\<exists>h' dps'. mergeHistogramDataPoints (by_name cs) n dps res h = Inr (h', dps') \<and> hists_typed cs h'
    \<and> feeds cs (map (\<lambda>p. (n, res, p)) dps) h h'"
proof -
  have "concat (map (\<lambda>p. [(n, res, p)]) dps) = map (\<lambda>p. (n, res, p)) dps" by (induction dps) auto
  then show ?thesis
    using loop_map_total[of "hists_typed cs" h "feeds cs" dps "merge_hist_point (by_name cs) n res" "\<lambda>p. [(n, res, p)]"]
      merge_hist_point_typed[OF _ assms(2)] assms(1,3) feeds_trans
    by (auto simp: mergeHistogramDataPoints_def list_all_iff)
qed

lemma add_metric_typed:
  assumes "store_typed cs s" "list_all point_typed (metric_hists res m)"
  shows "\<exists>t m'. add_metric res m s = Inr (t, m') \<and> store_typed cs t \<and> feeds cs (metric_hists res m) (st_hists s) (st_hists t)"
proof -
  have n: "st_nameM s = by_name cs" and h: "hists_typed cs (st_hists s)" and d: "distinct (map Key cs)" and wf: "store_wf cs s"
    and ne: "\<forall>k. st_nums s k \<noteq> Some Map.empty"
    using assms(1) by (simp_all add: store_typed_def store_wf_def cfgs_ok_def)
  have "\<exists>t m'. add_metric res m s = Inr (t, m') \<and> hists_typed cs (st_hists t) \<and> feeds cs (metric_hists res m) (st_hists s) (st_hists t)"
  proof (cases "by_name cs (m_name m) = None")
    case True
    then have "\<not> sees_hist c g p" if "c \<in> set cs" "p \<in> set (metric_hists res m)" for c g p
      using that True isEqualAttrs_name[of c]
      by (fastforce simp: by_name_None_iff split: metric_data.splits if_splits)
    then have "feeds cs (metric_hists res m) (st_hists s) (st_hists s)" by (rule feeds_unseen)
    then show ?thesis using True h n by (simp add: add_metric_def del: metric_hists.simps)
  next
    case False
    show ?thesis
    proof (cases "\<exists>temp dps. m_data m = HistogramMetric temp dps \<and> temp \<noteq> Cumulative")
      case True
      then obtain temp dps where m: "m_data m = HistogramMetric temp dps" "temp \<noteq> Cumulative" by blast
      then have "list_all (\<lambda>p. point_typed (m_name m, res, p)) dps" using assms(2) by (simp add: list_all_iff)
      from mergeHist_typed[OF h d this] show ?thesis using m n False by (auto simp: add_metric_def)
    next
      case other: False
      then have "metric_hists res m = []" by (auto split: metric_data.splits)
      then show ?thesis using other n False h by (auto simp: add_metric_def split: metric_data.split)
    qed
  qed
  then obtain t m' where t: "add_metric res m s = Inr (t, m')" "hists_typed cs (st_hists t)"
    "feeds cs (metric_hists res m) (st_hists s) (st_hists t)" by blast
  have "\<forall>k. st_nums t k \<noteq> Some Map.empty"
    using add_metric_nums[OF t(1) n] ne fold_point_step_nonempty by metis
  then show ?thesis using t add_metric_wf[OF wf t(1)] by (auto simp: store_typed_def)
qed

text \<open>A loop over typed stores, instance of the lemma on loops.\<close>

lemma loop_map_typed:
  assumes "store_typed cs s"
    and "\<And>x u. x \<in> set xs \<Longrightarrow> store_typed cs u \<Longrightarrow>
       \<exists>v y. f x u = Inr (v, y) \<and> store_typed cs v \<and> feeds cs (pts x) (st_hists u) (st_hists v)"
  shows "\<exists>t ys. loop_map f xs s = Inr (t, ys) \<and> store_typed cs t
     \<and> feeds cs (concat (map pts xs)) (st_hists s) (st_hists t)"
proof (rule loop_map_total[where I = "store_typed cs" and R = "\<lambda>ps s t. feeds cs ps (st_hists s) (st_hists t)"])
  show "feeds cs (ps @ qs) (st_hists u) (st_hists w)"
    if "feeds cs ps (st_hists u) (st_hists v)" "feeds cs qs (st_hists v) (st_hists w)" for ps qs u v w
    using that by (rule feeds_trans)
qed (use assms in auto)

lemma Add_typed:
  assumes "store_typed cs s" "batch_typed ld"
  shows "\<exists>t ld'. Add ld s = Inr (t, ld') \<and> store_typed cs t \<and> feeds cs (hist_points ld) (st_hists s) (st_hists t)"
proof -
  let ?R = "\<lambda>ps s t. feeds cs ps (st_hists s) (st_hists t)"
  have "\<exists>v y. add_resource rm u = Inr (v, y) \<and> store_typed cs v \<and> ?R (resource_hists rm) u v"
    if rm: "rm \<in> set ld" and u: "store_typed cs u" for rm u
  proof -
    have ok: "list_all point_typed (metric_hists (rm_attrs rm) m)" if "ms \<in> set (rm_scopes rm)" "m \<in> set ms" for ms m
      using assms(2) rm that by (force simp: batch_typed_def hist_points_def resource_hists_def list_all_iff)
    have ms: "\<exists>v y. loop_map (add_metric (rm_attrs rm)) ms u = Inr (v, y) \<and> store_typed cs v
        \<and> ?R (concat (map (metric_hists (rm_attrs rm)) ms)) u v"
      if "ms \<in> set (rm_scopes rm)" "store_typed cs u" for ms u
      by (rule loop_map_typed[OF that(2)]) (rule add_metric_typed, assumption, rule ok[OF that(1)])
    have "\<exists>v y. loop_map (loop_map (add_metric (rm_attrs rm))) (rm_scopes rm) u = Inr (v, y) \<and> store_typed cs v
        \<and> ?R (resource_hists rm) u v"
      unfolding resource_hists_def by (rule loop_map_typed[OF u]) (rule ms)
    then show ?thesis by (auto simp: add_resource_def)
  qed
  then show ?thesis unfolding Add_def hist_points_def by (intro loop_map_typed[OF assms(1)]) auto
qed

subsection \<open>Typed requests are served\<close>

lemma NewStore_typed:
  assumes "\<forall>c \<in> set cs. labels_ok c" "NewStore cs = Inr s" shows "store_typed cs s"
  using NewStore_wf[OF assms] NewStore_empty[OF assms(2)] by (simp add: store_typed_def hists_typed_def keyed_get_def)

lemma created_typed:
  assumes "createMetricsExporter cfg = Inr e" "\<forall>c \<in> set (Aggregations cfg). labels_ok c"
  shows "x_cfg e = cfg \<and> store_typed (Aggregations cfg) (x_store e)
    \<and> st_nums (x_store e) = Map.empty \<and> st_hists (x_store e) = Map.empty"
  using assms NewStore_typed NewStore_empty by (auto simp: createMetricsExporter_def split: sum.splits)

lemma Reset_typed: "store_typed cs s \<Longrightarrow> store_typed cs (Reset s)"
  using Reset_wf by (simp add: store_typed_def Reset_def)

lemma typed_key: "store_typed cs s \<Longrightarrow> st_keyM s k = Some c \<longleftrightarrow> c \<in> set cs \<and> Key c = k"
  using by_key_Some[of cs k c] by (auto simp: store_typed_def store_wf_def cfgs_ok_def)

lemma typed_hist_value:
  assumes "store_typed cs s" "c \<in> set cs" "keyed_get (st_hists s) (Key c) g = Some dp"
  shows "getHistAggByType (Type c) (Percentile c) dp = Inr (hist_value c (total_of dp))"
proof (rule getHist_value)
  have "entry_typed c dp" using assms by (auto simp: store_typed_def hists_typed_def)
  then show "hist_wf dp \<or> \<not> hist_type (Type c)" by (auto simp: entry_typed_def)
qed

lemma typed_no_panic:
  assumes "store_typed cs s" "GetAll s k = Some m" shows "\<not> query_panics m"
proof -
  obtain c where c: "st_keyM s k = Some c" "c \<in> set cs" "Key c = k"
    using assms typed_key by (fastforce simp: GetAll_def split: option.splits)
  let ?q = "query_entry c (groups (st_nums s k)) (groups (st_hists s k))"
  have m: "m = [[] \<mapsto> Inr (Fin 0)] \<or> m = ?q" using assms(2) c(1) by (simp add: GetAll_def split: if_splits)
  have "?q g \<noteq> Some (Inl p)" for g p
  proof (cases "keyed_get (st_hists s) (Key c) g")
    case None
    then show ?thesis using c(3) groups_keyed[of "st_hists s" k g] by (simp add: query_entry_def)
  next
    case (Some dp)
    then show ?thesis
      using c(3) groups_keyed[of "st_hists s" k g] typed_hist_value[OF assms(1) c(2) Some] by (simp add: query_entry_def)
  qed
  then have "m g \<noteq> Some (Inl p)" for g p using m by (auto split: if_splits)
  then show ?thesis by (auto simp: query_panics_def split: option.splits sum.splits)
qed

lemma typed_not_aborted:
  assumes "store_typed cs s"
  shows "handle_all GetAll s \<noteq> Aborted" "handle_key Get k s \<noteq> Aborted"
proof -
  have "\<not> (\<exists>k \<in> dom (GetAll s). query_panics (the (GetAll s k)))" using typed_no_panic[OF assms] by auto
  then show "handle_all GetAll s \<noteq> Aborted" by (simp add: handle_all_def Let_def)
  show "handle_key Get k s \<noteq> Aborted"
    using typed_no_panic[OF assms, of k] ms.get_agrees[of k s]
    by (auto simp: handle_key_def split: option.splits)
qed

lemma serve_typed:
  assumes "store_typed cs (x_store e)" "request_typed r"
  shows "\<exists>e' resp. serve r e = Inr (e', resp) \<and> store_typed cs (x_store e') \<and> resp \<noteq> Some Aborted"
proof (cases r)
  case (Consume ld)
  then show ?thesis using Add_typed[OF assms(1), of ld] assms(2) by (auto simp: consumeMetrics_def)
qed (use assms(1) Reset_typed typed_not_aborted[OF assms(1)] in \<open>auto simp: handle_reset_def\<close>)

lemma serve_all_typed:
  assumes "store_typed cs (x_store e)" "list_all request_typed rs"
  shows "\<exists>e' resps. serve_all rs e = Inr (e', resps) \<and> store_typed cs (x_store e') \<and> Some Aborted \<notin> set resps"
  using assms
proof (induction rs arbitrary: e)
  case (Cons r rs)
  then obtain u y where u: "serve r e = Inr (u, y)" "store_typed cs (x_store u)" "y \<noteq> Some Aborted"
    using serve_typed by fastforce
  then show ?case using Cons.IH[OF u(2)] Cons.prems(2) by (auto simp: serve_all_def)
qed (simp add: serve_all_def)

text \<open>C4 (typed requests are always served).  Create an exporter and let it serve any sequence of requests
  whose delta histograms are well-formed where they have observations (one more bucket count than
  bounds, adding up to the count): no request panics, no answer is an aborted connection, and the
  store stays typed, its keys those of the configuration, its sums and percentiles in well-formed
  histograms and no key without a group.\<close>

theorem exporter_type_sound:
  assumes "createMetricsExporter cfg = Inr e0" "\<forall>c \<in> set (Aggregations cfg). labels_ok c" "list_all request_typed rs"
  shows "\<exists>e resps. serve_all rs e0 = Inr (e, resps) \<and> store_typed (Aggregations cfg) (x_store e) \<and> Some Aborted \<notin> set resps"
  using serve_all_typed created_typed[OF assms(1,2)] assms(3) by blast

subsection \<open>The exact answer of every query\<close>

fun received :: "exporter_request list \<Rightarrow> resource_metrics list" where
  "received [] = []"
| "received (Consume ld # rs) = ld @ received rs"
| "received (_ # rs) = received rs"

definition matches_hist :: "agg_config \<Rightarrow> hist_point \<Rightarrow> bool" where
  "matches_hist c p \<longleftrightarrow> sees_hist c (group_of c (fst (snd (snd p))) (fst (snd p))) p"

definition hist_answer :: "agg_config \<Rightarrow> hist_total list \<Rightarrow> f64" where
  "hist_answer c ts = hist_value c (fold merge_total ts no_observations)"

definition full_answer :: "agg_config \<Rightarrow> num_point list \<Rightarrow> hist_point list \<Rightarrow> numbers" where
  "full_answer c nps hps =
     (if \<not> list_ex (matches c) nps \<and> \<not> list_ex (matches_hist c) hps then [[] \<mapsto> Fin 0]
      else (\<lambda>g. if seen_totals c g hps \<noteq> [] then Some (hist_answer c (seen_totals c g hps))
                else if seen c g nps \<noteq> [] then Some (agg_spec (Type c) (seen c g nps)) else None))"

lemma seen_totals_none_iff: "(\<forall>g. seen_totals c g ps = []) \<longleftrightarrow> \<not> list_ex (matches_hist c) ps"
  by (auto simp: seen_totals_def filter_empty_conv matches_hist_def list_ex_iff)

lemma fold_feed_total:
  "fold (feed_total typ) ts t =
     (if ts = [] then t
      else Some (if hist_type typ then fold merge_total ts (get_or no_observations t) else get_or no_observations t))"
  by (induction ts arbitrary: t) (auto simp: feed_total_def)

lemma hist_value_unsupported: "\<not> hist_type (Type c) \<Longrightarrow> hist_value c t = Fin 0"
  by (simp add: hist_value_def hist_type_def)

text \<open>What a store holds after batches: numbers of those since the last reset, histograms of all.\<close>

definition holds_batches :: "agg_config list \<Rightarrow> resource_metrics list \<Rightarrow> resource_metrics list \<Rightarrow> store \<Rightarrow> bool" where
  "holds_batches cs nld hld s \<longleftrightarrow> store_typed cs s \<and> (\<forall>c \<in> set cs. \<forall>g.
     keyed_get (st_nums s) (Key c) g = feed (Type c) (seen c g (number_points nld)) None
     \<and> total_view c g (st_hists s) = fold (feed_total (Type c)) (seen_totals c g (hist_points hld)) None)"

lemma hist_points_append: "hist_points (xs @ ys) = hist_points xs @ hist_points ys"
  by (simp add: hist_points_def)

lemma serve_holds:
  assumes "holds_batches cs nld hld (x_store e)" "serve r e = Inr (e', resp)" "request_typed r"
  shows "holds_batches cs (since_reset nld [r]) (hld @ received [r]) (x_store e')"
proof (cases r)
  case (Consume ld)
  have t: "store_typed cs (x_store e)" using assms(1) by (simp add: holds_batches_def)
  obtain ld' where a: "Add ld (x_store e) = Inr (x_store e', ld')"
    using assms(2) by (auto simp: Consume consumeMetrics_def res_bind_Inr_iff)
  have ok: "store_typed cs (x_store e')" "feeds cs (hist_points ld) (st_hists (x_store e)) (st_hists (x_store e'))"
    using Add_typed[OF t, of ld] assms(3) a by (auto simp: Consume)
  have "store_wf cs (x_store e)" using t by (simp add: store_typed_def)
  from Add_entry[OF this a] ok show ?thesis using assms(1)
    by (simp add: holds_batches_def Consume number_points_append hist_points_append feed_append feeds_def)
next
  case Reset_Store
  have "holds_batches cs [] hld (Reset (x_store e))"
    using assms(1) Reset_typed by (simp add: holds_batches_def number_points_def) (simp add: Reset_def keyed_get_def)
  then show ?thesis using assms(2) by (auto simp: Reset_Store handle_reset_def)
qed (use assms in auto)

lemma received_Cons: "received (r # rs) = received [r] @ received rs"
  by (cases r) simp_all

lemma serve_all_holds:
  assumes "serve_all rs e = Inr (e', resps)" "holds_batches cs nld hld (x_store e)" "list_all request_typed rs"
  shows "holds_batches cs (since_reset nld rs) (hld @ received rs) (x_store e')"
  using assms
proof (induction rs arbitrary: e nld hld resps)
  case (Cons r rs)
  obtain u y ys where u: "serve r e = Inr (u, y)" "serve_all rs u = Inr (e', ys)"
    using Cons.prems(1) by (auto simp: serve_all_def res_bind_Inr_iff)
  have "holds_batches cs (since_reset nld [r]) (hld @ received [r]) (x_store u)"
    using serve_holds[OF Cons.prems(2) u(1)] Cons.prems(3) by simp
  from Cons.IH[OF u(2) this] show ?case
    using Cons.prems(3) since_reset_Cons[of nld r rs] received_Cons[of r rs] by simp
qed (simp add: serve_all_def)

lemma keyed_none_iff: "m k \<noteq> Some Map.empty \<Longrightarrow> m k = None \<longleftrightarrow> (\<forall>g. keyed_get m k g = None)"
  by (cases "m k") (auto simp: keyed_get_def fun_eq_iff)

lemma holds_Get:
  assumes "holds_batches cs nld hld s" "c \<in> set cs"
  shows "Get (Key c) s = Inr (map_option Inr \<circ> full_answer c (number_points nld) (hist_points hld))"
proof -
  let ?nps = "number_points nld" and ?hps = "hist_points hld"
  have t: "store_typed cs s" and n: "keyed_get (st_nums s) (Key c) g = feed (Type c) (seen c g ?nps) None"
    and h: "map_option total_of (keyed_get (st_hists s) (Key c) g) =
       (if seen_totals c g ?hps = [] then None
        else Some (if hist_type (Type c) then fold merge_total (seen_totals c g ?hps) no_observations else no_observations))"
    for g using assms by (simp_all add: holds_batches_def total_view_def fold_feed_total)
  have k: "st_keyM s (Key c) = Some c" using typed_key[OF t] assms(2) by simp
  have "st_nums s (Key c) \<noteq> Some Map.empty" "st_hists s (Key c) \<noteq> Some Map.empty"
    using t by (simp_all add: store_typed_def hists_typed_def)
  moreover have "keyed_get (st_nums s) (Key c) g = None \<longleftrightarrow> seen c g ?nps = []" for g
    using n[of g] by (simp add: feed_def)
  moreover have "keyed_get (st_hists s) (Key c) g = None \<longleftrightarrow> seen_totals c g ?hps = []" for g
    using h[of g] by (cases "keyed_get (st_hists s) (Key c) g") (simp_all split: if_splits)
  ultimately have none: "st_nums s (Key c) = None \<and> st_hists s (Key c) = None \<longleftrightarrow>
      \<not> list_ex (matches c) ?nps \<and> \<not> list_ex (matches_hist c) ?hps"
    using keyed_none_iff[of "st_nums s" "Key c"] keyed_none_iff[of "st_hists s" "Key c"]
      seen_none_iff[of c ?nps] seen_totals_none_iff[of c ?hps] by simp
  have entry: "query_entry c (groups (st_nums s (Key c))) (groups (st_hists s (Key c))) g =
     (if seen_totals c g ?hps \<noteq> [] then Some (Inr (hist_answer c (seen_totals c g ?hps)))
      else if seen c g ?nps \<noteq> [] then Some (Inr (agg_spec (Type c) (seen c g ?nps))) else None)" for g
  proof (cases "keyed_get (st_hists s) (Key c) g")
    case None
    then have "seen_totals c g ?hps = []" using h[of g] by (simp split: if_splits)
    then show ?thesis using None n[of g] groups_keyed[of "st_nums s" "Key c" g] groups_keyed[of "st_hists s" "Key c" g]
      by (simp add: query_entry_def feed_def agg_spec_of_fold)
  next
    case (Some dp)
    then have "seen_totals c g ?hps \<noteq> []" "hist_value c (total_of dp) = hist_answer c (seen_totals c g ?hps)"
      using h[of g] by (auto simp: hist_answer_def hist_value_unsupported split: if_splits)
    then show ?thesis using Some groups_keyed[of "st_hists s" "Key c" g] typed_hist_value[OF t assms(2) Some]
      by (simp add: query_entry_def)
  qed
  show ?thesis
  proof (cases "st_nums s (Key c) = None \<and> st_hists s (Key c) = None")
    case True
    then show ?thesis using none k by (auto simp: Get_def full_answer_def fun_eq_iff)
  next
    case False
    then show ?thesis using none k entry by (auto simp: Get_def full_answer_def fun_eq_iff)
  qed
qed

lemma served_Get:
  assumes "createMetricsExporter cfg = Inr e0" "\<forall>c \<in> set (Aggregations cfg). labels_ok c" "list_all request_typed rs"
    and "c \<in> set (Aggregations cfg)"
  shows "\<exists>e resps. serve_all rs e0 = Inr (e, resps) \<and> Get (Key c) (x_store e) =
     Inr (map_option Inr \<circ> full_answer c (number_points (since_reset [] rs)) (hist_points (received rs)))"
proof -
  let ?cs = "Aggregations cfg"
  have "holds_batches ?cs [] [] (x_store e0)"
    using created_typed[OF assms(1,2)]
    by (simp add: holds_batches_def number_points_def hist_points_def keyed_get_def total_view_def)
  moreover obtain e resps where e: "serve_all rs e0 = Inr (e, resps)"
    using serve_all_typed created_typed[OF assms(1,2)] assms(3) by blast
  ultimately have "holds_batches ?cs (since_reset [] rs) (received rs) (x_store e)"
    using serve_all_holds[OF e _ assms(3)] by fastforce
  then show ?thesis using e holds_Get[OF _ assms(4)] by blast
qed

text \<open>C1 (the exact answer of every query).  Create an exporter and let it serve any sequence of typed
  requests.  A query of a configured key is then answered from the number points received since the
  last reset and the histogram points received since the creation, which a reset keeps: a group that a
  populated histogram reached has the value of the merged histograms, for a type other than sum and
  percentile 0 whatever its numbers are, any other group the aggregate of its numbers.  The status is
  200, or 500 when a value is not finite.\<close>

theorem exporter_answers_exact:
  assumes "createMetricsExporter cfg = Inr e0" "\<forall>c \<in> set (Aggregations cfg). labels_ok c" "list_all request_typed rs"
    and "c \<in> set (Aggregations cfg)"
  shows "\<exists>e resps. serve_all rs e0 = Inr (e, resps) \<and>
    (let v = full_answer c (number_points (since_reset [] rs)) (hist_points (received rs)) in
     serve (Query_Key (Key c)) e =
       Inr (e, Some (if json_encodes v then Response 200 (Body_Values [Key c \<mapsto> v]) else Response 500 Body_Empty)))"
  using served_Get[OF assms] by (fastforce simp: handle_key_values Let_def)

subsection \<open>Examples\<close>

definition ex_histogram :: "u64 list \<Rightarrow> resource_metrics" where
  "ex_histogram bs = \<lparr>rm_attrs = [], rm_scopes = [[\<lparr>m_name = ''n'', m_data = HistogramMetric Delta [([], ex_hist bs)]\<rparr>]]\<rparr>"

definition ex_typed_requests :: "exporter_request list" where
  "ex_typed_requests = [Consume [ex_histogram [1, 2, 3]], Reset_Store, Query_All, Consume [ex_gauge ''n'' [5]],
     Consume [ex_histogram [0, 1, 0], ex_histogram [0, 0, 0]]]"

lemma ex_typed_requests_facts:
  "list_all request_typed ex_typed_requests"
  "hist_points (received ex_typed_requests) =
     [(''n'', [], [], ex_hist [1, 2, 3]), (''n'', [], [], ex_hist [0, 1, 0]), (''n'', [], [], ex_hist [0, 0, 0])]"
  "number_points (since_reset [] ex_typed_requests) = [(''n'', [], ex_point 5)]"
  by (simp_all add: ex_typed_requests_def batch_typed_def hist_points_def resource_hists_def ex_histogram_def ex_gauge_def
      number_points_def resource_points_def hist_wf_def ex_hist_def NewHistogramDataPoint_def)

lemma ex_totals:
  "seen_totals ex_sum_cfg g (hist_points (received ex_typed_requests)) =
     (if g = [] then [total_of (ex_hist [1, 2, 3]), total_of (ex_hist [0, 1, 0])] else [])"
  by (simp add: ex_typed_requests_facts(2) isEqualAttrs_def group_of_def ex_sum_cfg_def)
     (simp add: ex_hist_def NewHistogramDataPoint_def)

lemma ex_created:
  obtains e0 where "createMetricsExporter \<lparr>Aggregations = [ex_sum_cfg], Endpoint = '':8081''\<rparr> = Inr e0" "labels_ok ex_sum_cfg"
  using ex_store by (auto simp: createMetricsExporter_def)

theorem exporter_type_sound_witness:
  "\<exists>e0 e resps. createMetricsExporter \<lparr>Aggregations = [ex_sum_cfg], Endpoint = '':8081''\<rparr> = Inr e0
     \<and> serve_all ex_typed_requests e0 = Inr (e, resps) \<and> store_typed [ex_sum_cfg] (x_store e) \<and> Some Aborted \<notin> set resps"
proof -
  obtain e0 where e0: "createMetricsExporter \<lparr>Aggregations = [ex_sum_cfg], Endpoint = '':8081''\<rparr> = Inr e0" "labels_ok ex_sum_cfg"
    by (rule ex_created)
  show ?thesis using exporter_type_sound[OF e0(1) _ ex_typed_requests_facts(1)] e0 by auto
qed

theorem exporter_answers_exact_witness:
  "\<exists>e0 e resps. createMetricsExporter \<lparr>Aggregations = [ex_sum_cfg], Endpoint = '':8081''\<rparr> = Inr e0
     \<and> serve_all ex_typed_requests e0 = Inr (e, resps)
     \<and> serve (Query_Key ''k'') e = Inr (e, Some (Response 200 (Body_Values [''k'' \<mapsto> [[] \<mapsto> Fin 14]])))"
proof -
  obtain e0 where e0: "createMetricsExporter \<lparr>Aggregations = [ex_sum_cfg], Endpoint = '':8081''\<rparr> = Inr e0" "labels_ok ex_sum_cfg"
    by (rule ex_created)
  have a: "hist_answer ex_sum_cfg [total_of (ex_hist [1, 2, 3]), total_of (ex_hist [0, 1, 0])] = Fin 14"
    by (simp add: hist_answer_def hist_value_def ex_sum_cfg_def merge_total_def no_observations_def ex_hist_def
        NewHistogramDataPoint_def float64SliceEqual_def opt_f64_def)
  have m: "list_ex (matches_hist ex_sum_cfg) (hist_points (received ex_typed_requests))"
    using ex_totals[of "[]"] seen_totals_none_iff[of ex_sum_cfg "hist_points (received ex_typed_requests)"] by force
  have n: "seen ex_sum_cfg g (number_points (since_reset [] ex_typed_requests)) = (if g = [] then [ex_point 5] else [])" for g
    by (simp add: ex_typed_requests_facts(3) isEqualAttrs_def group_of_def ex_sum_cfg_def ex_point_def)
  have v: "full_answer ex_sum_cfg (number_points (since_reset [] ex_typed_requests)) (hist_points (received ex_typed_requests))
      = [[] \<mapsto> Fin 14]"
    using m a by (simp add: full_answer_def ex_totals n fun_eq_iff)
  have k: "Key ex_sum_cfg = ''k''" by (simp add: ex_sum_cfg_def)
  show ?thesis
    using exporter_answers_exact[OF e0(1) _ ex_typed_requests_facts(1), of ex_sum_cfg] e0 
    by (auto simp: v k json_encodes_def)
qed

subsection \<open>Histograms with the same bounds\<close>

lemma uint_sum_list:
  "sum_list (map uint xs) < 2 ^ 64 \<Longrightarrow> uint (sum_list (xs :: u64 list)) = sum_list (map uint xs)"
proof (induction xs)
  case (Cons x xs)
  have "0 \<le> uint x" by simp
  then have "sum_list (map uint xs) < 2 ^ 64" using Cons.prems unfolding list.map sum_list.Cons by linarith
  then have "uint (sum_list xs) = sum_list (map uint xs)" using Cons.IH by simp
  moreover have "0 \<le> sum_list (map uint (x # xs))" by (rule sum_list_nonneg) auto
  ultimately show ?case using Cons.prems by (simp add: uint_word_ariths)
qed simp

definition pooled :: "hist_total list \<Rightarrow> hist_total" where
  "pooled ts = \<lparr>t_count = sum_list (map t_count ts), t_sum = foldl f_add (t_sum (hd ts)) (map t_sum (tl ts)),
     t_bounds = t_bounds (hd ts), t_buckets = map (\<lambda>i. \<Sum>t\<leftarrow>ts. t_buckets t ! i) [0..<length (t_buckets (hd ts))]\<rparr>"

text \<open>Populated totals of one shape: the same bounds, none of them NaN, and counts that add up below \<open>2^64\<close>.\<close>

definition same_shape :: "hist_total \<Rightarrow> hist_total \<Rightarrow> bool" where
  "same_shape a t \<longleftrightarrow> t_count t \<noteq> 0 \<and> t_bounds t = t_bounds a \<and> length (t_buckets t) = length (t_buckets a)"

definition poolable :: "hist_total list \<Rightarrow> bool" where
  "poolable ts \<longleftrightarrow> list_all (same_shape (hd ts)) ts
     \<and> float64SliceEqual (t_bounds (hd ts)) (t_bounds (hd ts)) \<and> sum_list (map uint (map t_count ts)) < 2 ^ 64"

lemma pooled_count: "ts \<noteq> [] \<Longrightarrow> poolable ts \<Longrightarrow> t_count (pooled ts) \<noteq> 0"
proof -
  assume ts: "ts \<noteq> []" "poolable ts"
  then obtain a as where a: "ts = a # as" by (cases ts) auto
  have "t_count a \<noteq> 0" using ts(2) by (simp add: a poolable_def same_shape_def)
  then have "0 < uint (t_count a)" by (metis uint_0_iff uint_ge_0 order_le_less)
  moreover have "0 \<le> sum_list (map uint (map t_count as))" by (rule sum_list_nonneg) auto
  ultimately have "0 < uint (sum_list (map t_count ts))" using uint_sum_list[of "map t_count ts"] ts(2) by (simp add: a poolable_def)
  then show ?thesis by (auto simp: pooled_def)
qed

lemma fold_merge_pooled: "ts \<noteq> [] \<Longrightarrow> poolable ts \<Longrightarrow> fold merge_total ts no_observations = pooled ts"
proof (induction ts rule: rev_induct)
  case (snoc x ts)
  show ?case
  proof (cases "ts = []")
    case True
    have "map ((!) (t_buckets x)) [0..<length (t_buckets x)] = t_buckets x" by (rule map_nth)
    then show ?thesis using True by (simp add: merge_total_def pooled_def no_observations_def)
  next
    case False
    have "sum_list (map uint (map t_count ts)) + uint (t_count x) < 2 ^ 64"
      using snoc.prems(2) by (simp add: poolable_def)
    then have "sum_list (map uint (map t_count ts)) < 2 ^ 64" using uint_ge_0[of "t_count x"] by linarith
    then have p: "poolable ts" using snoc.prems(2) False by (simp add: poolable_def)
    have b: "t_bounds x = t_bounds (hd ts)" "length (t_buckets x) = length (t_buckets (hd ts))"
      "float64SliceEqual (t_bounds (hd ts)) (t_bounds (hd ts))"
      using snoc.prems(2) False by (simp_all add: poolable_def same_shape_def)
    have "map2 (+) (t_buckets (pooled ts)) (t_buckets x) = t_buckets (pooled (ts @ [x]))"
      using False b(2) by (intro nth_equalityI) (simp_all add: pooled_def)
    then have "merge_total x (pooled ts) = pooled (ts @ [x])"
      using pooled_count[OF False p] b(1,3) False by (simp add: merge_total_def pooled_def)
    then show ?thesis using snoc.IH[OF False p] by simp
  qed
qed simp

text \<open>C18 (histograms of the same bounds are added up).  When the populated histogram points that reached a
  group of a sum or percentile have the same bounds, the answer is that of one histogram: its bucket
  counts are the sums of the counts bucket by bucket, its sum the sum of the sums in their order of
  arrival, and resets in between change nothing.\<close>

theorem histograms_pooled:
  assumes "createMetricsExporter cfg = Inr e0" "\<forall>c \<in> set (Aggregations cfg). labels_ok c" "list_all request_typed rs"
    and "c \<in> set (Aggregations cfg)" "seen_totals c g (hist_points (received rs)) = ts" "ts \<noteq> []" "poolable ts"
  shows "\<exists>e resps m. serve_all rs e0 = Inr (e, resps) \<and> Get (Key c) (x_store e) = Inr m
     \<and> m g = Some (Inr (hist_value c (pooled ts)))"
proof -
  obtain e resps where e: "serve_all rs e0 = Inr (e, resps)"
    "Get (Key c) (x_store e) = Inr (map_option Inr \<circ> full_answer c (number_points (since_reset [] rs)) (hist_points (received rs)))"
    using served_Get[OF assms(1-4)] by blast
  have "full_answer c (number_points (since_reset [] rs)) (hist_points (received rs)) g = Some (hist_answer c ts)"
    using assms(5,6) seen_totals_none_iff[of c "hist_points (received rs)"] by (auto simp: full_answer_def)
  then show ?thesis using e fold_merge_pooled[OF assms(6,7)] by (simp add: hist_answer_def)
qed

definition ex_median_cfg :: agg_config where
  "ex_median_cfg = ex_sum_cfg\<lparr>Type := Agg_Percentile, Percentile := Fin 50\<rparr>"

lemma ex_median_created:
  obtains e0 where "createMetricsExporter \<lparr>Aggregations = [ex_median_cfg], Endpoint = '':8081''\<rparr> = Inr e0" "labels_ok ex_median_cfg"
proof -
  have "validate ex_median_cfg = None"
    by (simp add: validate_def ex_median_cfg_def ex_sum_cfg_def IsValid_def f_le_def)
  then have "\<exists>s. NewStore [ex_median_cfg] = Inr s"
    by (simp add: NewStore_def validateAndGroup_def group_step_def)
  moreover have "labels_ok ex_median_cfg" by (simp add: ex_median_cfg_def ex_sum_cfg_def labels_ok_def go_map_ok_def)
  ultimately show ?thesis using that by (auto simp: createMetricsExporter_def)
qed

lemma ex_median_quantile:
  "deltaExplicitBucketsQuantile (Fin (1 / 2))
     [\<lparr>UpperBound = Fin 1, Count = 2\<rparr>, \<lparr>UpperBound = Fin 5, Count = 4\<rparr>, \<lparr>UpperBound = F_PosInf, Count = 2\<rparr>] = Inr (Fin 3)"
  using f64_round_dyadic[of 1 1]
  by (simp add: deltaExplicitBucketsQuantile_def sort_buckets_def quantile_sorted_def
      Let_def f_of_u64_def f_of_int_def f_le_def bucket_quantile_def interpolate_def slice_at_def)

lemma ex_median_value:
  "hist_value ex_median_cfg (pooled [total_of (ex_hist [1, 2, 1]), total_of (ex_hist [1, 2, 1])]) = Fin 3"
  using f64_round_dyadic[of 1 1] ex_median_quantile
  by (simp add: hist_value_def ex_median_cfg_def ex_sum_cfg_def pooled_def ex_hist_def NewHistogramDataPoint_def
      explicit_buckets_def upt_rec numeral_2_eq_2)

definition ex_median_requests :: "exporter_request list" where
  "ex_median_requests = [Consume [ex_histogram [1, 2, 1]], Reset_Store, Consume [ex_histogram [1, 2, 1]]]"

theorem histograms_pooled_witness:
  "\<exists>e0 e resps m. createMetricsExporter \<lparr>Aggregations = [ex_median_cfg], Endpoint = '':8081''\<rparr> = Inr e0
     \<and> serve_all ex_median_requests e0 = Inr (e, resps) \<and> Get ''k'' (x_store e) = Inr m \<and> m [] = Some (Inr (Fin 3))"
proof -
  let ?ts = "[total_of (ex_hist [1, 2, 1]), total_of (ex_hist [1, 2, 1])]"
  obtain e0 where e0: "createMetricsExporter \<lparr>Aggregations = [ex_median_cfg], Endpoint = '':8081''\<rparr> = Inr e0" "labels_ok ex_median_cfg"
    by (rule ex_median_created)
  have typed: "list_all request_typed ex_median_requests"
    by (simp add: ex_median_requests_def batch_typed_def hist_points_def resource_hists_def ex_histogram_def
        hist_wf_def ex_hist_def NewHistogramDataPoint_def)
  have ts: "seen_totals ex_median_cfg [] (hist_points (received ex_median_requests)) = ?ts"
    by (simp add: ex_median_requests_def hist_points_def resource_hists_def ex_histogram_def isEqualAttrs_def group_of_def
        ex_median_cfg_def ex_sum_cfg_def) (simp add: ex_hist_def NewHistogramDataPoint_def)
  have pool: "poolable ?ts"
    by (simp add: poolable_def same_shape_def ex_hist_def NewHistogramDataPoint_def float64SliceEqual_def)
  have k: "Key ex_median_cfg = ''k''" by (simp add: ex_median_cfg_def ex_sum_cfg_def)
  show ?thesis
    using histograms_pooled[OF e0(1) _ typed _ ts _ pool] e0 ex_median_value by (auto simp: k)
qed

end
