(* ===== verification/Mains.thy ===== *)
theory Mains
  imports BenchFns SendOtlp Logging HistQueries
begin

section \<open>The main functions of the benchmark driver and the OTLP sender (cmd/apmbench, cmd/sendotlp)\<close>

text \<open>
  How a process ends, as its exit status: \<open>log.Fatalf\<close> and \<open>logger.Fatal\<close> end it with 1, a panic with 2.
  Parsing the flags and building a logger are library code; whether a logger is built is a parameter.
\<close>

datatype bench_function =
    Fn_Benchmark1000Transactions | Fn_BenchmarkAgentAll | Fn_BenchmarkAgentGo | Fn_BenchmarkAgentNodeJS
  | Fn_BenchmarkAgentPython | Fn_BenchmarkAgentRuby | Fn_Benchmark10000AggregationGroups
  | Fn_BenchmarkOTLPTraces | Fn_BenchmarkOTLPLogs | Fn_BenchmarkOTLPMetrics

definition bench_functions :: "bench_function list" where
  "bench_functions =
     [Fn_Benchmark1000Transactions, Fn_BenchmarkAgentAll, Fn_BenchmarkAgentGo, Fn_BenchmarkAgentNodeJS,
      Fn_BenchmarkAgentPython, Fn_BenchmarkAgentRuby, Fn_Benchmark10000AggregationGroups,
      Fn_BenchmarkOTLPTraces, Fn_BenchmarkOTLPLogs, Fn_BenchmarkOTLPMetrics]"

definition apmbench_main ::
    "string option \<Rightarrow> bench_config \<Rightarrow> (string \<Rightarrow> string option) \<Rightarrow> (bench_function \<Rightarrow> string + string)
       \<Rightarrow> ('w \<Rightarrow> client_error option \<times> 'w) \<Rightarrow> (int \<Rightarrow> bench_function \<Rightarrow> 'w \<Rightarrow> bench_result \<times> 'w) \<Rightarrow> 'w \<Rightarrow> nat \<times> bench_line list" where
  "apmbench_main setup cfg set_benchtime name_of reset runOne w =
     (case setup of
        Some err \<Rightarrow> (1, [])
      | None \<Rightarrow>
          (case bench_Run cfg set_benchtime name_of (resetStoreFunc reset cfg) runOne bench_functions w of
             Inl (BenchPanic p, out, w') \<Rightarrow> (2, out)
           | Inl (err, out, w') \<Rightarrow> (1, out)
           | Inr (out, w') \<Rightarrow> (0, out)))"

definition sendotlp_main ::
    "string option \<Rightarrow> (string \<Rightarrow> string + go_url) \<Rightarrow> so_outside \<Rightarrow> (string \<Rightarrow> string) \<Rightarrow> so_flags \<Rightarrow> nat \<times> so_call list" where
  "sendotlp_main build parse_url out getenv fl =
     (case build of
        Some err \<Rightarrow> (2, [])
      | None \<Rightarrow>
          (case so_Main parse_url out getenv fl [] of
             (Some err, tr) \<Rightarrow> (1, tr)
           | (None, tr) \<Rightarrow> (0, tr)))"

text \<open>A driver that ends well has run every benchmark it selected.  With nothing to select it ends well too,
  once there is a number of agents.\<close>

lemma select_none:
  "(\<And>f. \<exists>n. name_of f = Inr n \<and> \<not> shouldRun n (bc_RunRE cfg) (bc_SkipRE cfg)) \<Longrightarrow>
     \<exists>out'. select_benchmarks cfg name_of fns (longest, bs, out) = Inr (longest, bs, out')"
proof (induction fns arbitrary: out)
  case (Cons f fns)
  obtain n where "name_of f = Inr n" "\<not> shouldRun n (bc_RunRE cfg) (bc_SkipRE cfg)" using Cons.prems by blast
  then show ?case using Cons.IH[OF Cons.prems] by simp
qed simp

lemma loop_res_Nil_body: "loop_res (\<lambda>x. loop_res (f x) []) xs s = Inr s"
  by (induction xs) simp_all

lemma apmbench_nothing_selected:
  assumes "\<And>f. \<exists>n. name_of f = Inr n \<and> \<not> shouldRun n (bc_RunRE cfg) (bc_SkipRE cfg)" "bc_AgentsList cfg \<noteq> []" "set_benchtime (bc_Benchtime cfg) = None"
  shows "fst (apmbench_main None cfg set_benchtime name_of reset runOne w) = 0"
proof -
  obtain out where sel: "select_benchmarks cfg name_of bench_functions ([], [], []) = Inr ([], [], out)"
    using select_none[where name_of = name_of and cfg = cfg, OF assms(1)] by blast
  have "\<exists>a. slice_at (bc_AgentsList cfg) (int (length (bc_AgentsList cfg)) - 1) = Inr a"
    using assms(2) by (cases "bc_AgentsList cfg") (simp_all add: slice_at_def)
  then show ?thesis using assms(3) sel by (auto simp: apmbench_main_def bench_Run_def Let_def loop_res_Nil_body)
qed

end
