(* ===== verification/Spec2Isabelle.thy ===== *)
theory Spec2Isabelle
  imports Stacks StubEs RateFlags Mains
begin

text \<open>
  A verification development of elastic/apm-perf, the load generators and benchmarks of Elastic APM.

  The program.  \<open>loadgen\<close> replays recorded events of APM agents: it loads files of events, rewrites
  identifiers, names and timestamps, and posts batches to an APM Server at a limited rate.  Three commands
  use it: \<open>cmd/apmsoak\<close> (endless runs of a scenario, through \<open>internal/soaktest\<close>), \<open>cmd/apmtelemetrygen\<close>
  (a number of replays; \<open>pkg/telemetrygen\<close> is its library form) and \<open>cmd/apmbench\<close> (benchmarks).  apmbench also
  drives the OTLP generators of \<open>internal/telemetrygen\<close> and reads results from \<open>cmd/otelinmemexporter\<close>, a
  collector exporter that aggregates metrics in memory and serves them over HTTP.  \<open>internal/proxy\<close> with
  \<open>cmd/moxy\<close> is a stub of Elasticsearch behind the server under test, \<open>cmd/sendotlp\<close> a small OTLP client.

  Theories and the code they model (files under \<open>src/\<close>):
  \<^item> \<open>Prelude\<close>, \<open>Float64\<close>, \<open>GoStrings\<close>, \<open>Durations\<close>, \<open>DurationString\<close>, \<open>GoTime\<close>: what Go and its standard library give the rest:
    results as sums, loops with early returns (\<open>loop_res\<close>), \<open>int64\<close> wrap-around (\<open>wrap64\<close>), slice accesses
    that can panic, IEEE doubles with exact rounding, strings as bytes, the parsing and printing
    of durations, instants.
  \<^item> \<open>AggConfig\<close>, \<open>Histogram\<close>, \<open>Store\<close>, \<open>StoreQueries\<close>, \<open>TelemetryServer\<close>, \<open>Exporter\<close>, \<open>HistQueries\<close>:
    \<open>cmd/otelinmemexporter\<close> and the client \<open>cmd/apmbench/telemetry.go\<close>.  \<open>Store\<close> has one definition per function of store.go; \<open>StoreQueries\<close> states the
    abstract aggregations and the refinement; \<open>TelemetryServer\<close> has the interface \<open>metricsStore\<close> as a locale,
    interpreted on the store; \<open>Exporter\<close> is the running exporter, a sequence of batches, queries and resets,
    and \<open>HistQueries\<close> its histograms, abstracted to totals.
  \<^item> \<open>Randomize\<close>, \<open>EventWriter\<close>, \<open>Loading\<close>, \<open>Sending\<close>, \<open>Transport\<close>, \<open>EventRate\<close>, \<open>RateFlags\<close>, \<open>Stacks\<close>: \<open>loadgen\<close>,
    \<open>loadgen/eventhandler\<close> and \<open>pkg/supportedstacks\<close>.  The collector interface is a locale of \<open>Loading\<close>.
  \<^item> \<open>Flags\<close>, \<open>Soak\<close>, \<open>Generator\<close>, \<open>Commands\<close>, \<open>CommandLine\<close>, \<open>Logging\<close>: \<open>loadgen/config\<close>, \<open>internal/soaktest\<close>,
    \<open>cmd/apmsoak\<close>, \<open>pkg/telemetrygen\<close>, \<open>cmd/apmtelemetrygen\<close>, and with \<open>Logging\<close> the levels of loggers, what is logged of
    responses and aggregations, and \<open>internal/version\<close>.  \<open>CommandLine\<close> has the declared flags and the environment.  The repeated header flag is a locale with two interpretations.
  \<^item> \<open>OtlpConfig\<close>, \<open>Workers\<close>, \<open>Signals\<close>: \<open>internal/telemetrygen\<close>.  \<open>Workers\<close> is the step relation of the worker
    loops and their wait group, \<open>Signals\<close> what each signal generates; the contract of the exporter options and
    that of the three \<open>Run\<close> functions are locales, interpreted on every one of them.
  \<^item> \<open>ApmBench\<close>, \<open>BenchFns\<close>: \<open>cmd/apmbench\<close>.  \<open>StubEs\<close>: \<open>internal/proxy\<close> and \<open>cmd/moxy\<close>.  \<open>SendOtlp\<close>:
    \<open>cmd/sendotlp\<close>.  \<open>Mains\<close> has the exit status of apmbench and sendotlp.

  Conventions.  A struct is a record with one field per field of the code, an error or panic is the left
  side of a sum or an option, a map that is ranged over is the list of its entries in the order of one
  \<open>range\<close>, so that statements hold for every order.  Code outside \<open>src/\<close> is a parameter: the JSON packages
  (\<open>json_lib\<close>), the limiter, HTTP client, clock, random source and context (\<open>env\<close>, \<open>outside\<close>), URL, YAML and
  regular-expression parsing, TLS files, the OTLP exporters and tracers, \<open>testing.Benchmark\<close>.  No law of a
  parameter is assumed except where a statement names it.

  What the properties show.
  \<^item> Store: after any sequence of batches, queries and resets every query is answered exactly as specified, from
    the number points since the last reset and the histogram points since the creation
    (\<open>exporter_answers_exact\<close>, and \<open>exporter_refines_spec\<close> without histograms, for any batches that do not panic);
    requests with well-formed histograms never panic and no query of theirs aborts (\<open>exporter_type_sound\<close>);
    histograms of the same bounds are added up (\<open>histograms_pooled\<close>).  Histogram merges, quantiles and configurations
    are characterised with their panics and errors, and a client gets exactly the value of the store.
  \<^item> Event handler: loading keeps every line, the writer prints exactly what a pure specification says,
    identifiers are rewritten reversibly, a pass posts every batch, and the number of events is bounded by the
    waits of the limiter, for a pass (\<open>send_rate_bound\<close>) and, with the rate of a scenario, for a whole
    loop of an agent (\<open>soak_agent_rate\<close>, below).
  \<^item> Commands: where every option comes from (\<open>soak_options_from_environment\<close>), the defaults of the environment, the parameters of every agent, which rate flags
    read back what they print (\<open>rate_flag_roundtrip\<close>), when a soak test or a
    generator run succeeds, which secrets reach a log.
  \<^item> OTLP generators: a bounded run ends under every interleaving with exactly the items asked for, traces
    keep their shape in every reachable state, and which headers and transport security an exporter has.
  \<^item> Benchmarks and stub: the order of the results, the wait for the clean-up keys, authentication and the
    bulk protocol of the stub, and the calls of the OTLP client.
  Several properties state what the code does where it does not do what it means to; the findings of the
  manifest name them.

  Termination.  Loops over data are structural or have a measure.  The endless loops (\<open>send_loop\<close>,
  \<open>cleanup_loop\<close>) are partial functions into \<open>option\<close>: not returning is \<open>None\<close>, and \<open>loop_until_done\<close> and
  \<open>unknown_cleanup_key_hangs\<close> say when.  The counters \<open>passes\<close> and \<open>count_passes\<close> take a number of passes; the loop
  returns exactly when some number of passes does.  The machine of \<open>Workers\<close> has a weight that every step
  decreases.

  Bounds.  \<open>send_rate_bound\<close> needs fewer than \<open>2 ^ 63\<close> events per call (the counter is an \<open>int64\<close>),
  \<open>soak_agent_rate\<close> over all counted passes; the quantile statement needs fewer than \<open>2 ^ 53\<close> observations, which
  a double counts exactly; \<open>traces_in_shape\<close> needs fewer than \<open>2 ^ 53\<close> child spans, which the code converts to
  a double and back; \<open>histograms_pooled\<close> needs fewer than \<open>2 ^ 64\<close> observations (the count is a \<open>uint64\<close>).

  Not modelled.  The set-up of zap loggers (\<open>internal/telemetrygen/common/log.go\<close> does nothing else), the parsing of
  a command line by cobra and of \<open>flag\<close> and \<open>pflag\<close> values, most debug messages, the registration of the exporter with the collector and its HTTP listener, the routing of the mux library, and
  the exporters, tracers and agents of the OpenTelemetry and Elastic libraries: these parts only call
  libraries.  Cancellation between the agents of a soak test after one failed is left to the parameter that
  waits for them, and the time of a limiter's wait is not measured.
\<close>

section \<open>Properties that span components\<close>

text \<open>C3 (an agent keeps to the event rate of its scenario).  A scenario's rate of \<open>b\<close> events per interval becomes the
  limiter of the agent's handler, \<open>b\<close> tokens refilled at \<open>b\<close> per interval.  However many passes the agent's loop
  makes, whether it stops at an error or runs on after it, the events it has sent are never more than \<open>b\<close> for each
  successful wait of that limiter; the passes counted are those of the loop.\<close>

theorem soak_agent_rate:
  assumes params: "getHandlerParams parse_url rc c = Inr p"
    and handler: "NewEventHandler lib transport_error glob open_file (p\<lparr>P_Logger := True\<rparr>) = Inr eh"
    and rate: "ParseEventRate (sc_EventRate c) = Inr (b, i)" "0 < b"
    and env: "env = logged (handler_env lib out eh)" "s = \<lparr>burst = lim_burst (eh_limiter eh), sent = 0\<rparr>"
    and run: "count_passes k env (RunForever (eh_config eh)) (eh_loaded eh) s ([], w) = (n, (l, w'))"
    and small: "int k * total_events (h_batches (eh_loaded eh)) < 2 ^ 63"
  shows "n \<le> b * waits l
     \<and> eh_limiter eh = \<lparr>lim_limit = Lim (f_div (f_of_int b) (dur_seconds i)), lim_burst = b\<rparr>
     \<and> (\<forall>e lw. passes k env (RunForever (eh_config eh)) (eh_loaded eh) s ([], w) = Some (e, lw) \<longrightarrow> lw = (l, w'))"
proof -
  have "P_Limiter p = Some (GetNewLimiter b i)" by (rule getHandlerParams_limiter[OF params rate(1)])
  moreover have "0 < i" using rate(1) by (auto simp: ParseEventRate_Inr)
  ultimately have lmt: "eh_limiter eh = \<lparr>lim_limit = Lim (f_div (f_of_int b) (dur_seconds i)), lim_burst = b\<rparr>"
    using handler rate(2) by (simp add: new_event_handler_ok_iff GetNewLimiter_def Let_def)
  have "n \<le> burst s * (waits l - waits []) + slack (burst s) (sent s)"
    using run small rate(2) unfolding env(1) by (intro count_passes_pace) (simp_all add: env(2) lmt)
  moreover have "slack b 0 = 0" using rate(2) by (simp add: slack_def bursts_def)
  ultimately have "n \<le> b * waits l" by (simp add: env(2) lmt)
  then show ?thesis using lmt run by (auto dest: count_passes_world)
qed

lemma ex_events:
  assumes "P_Protocol p = ''apm/http''" "P_Logger p"
  obtains eh where "NewEventHandler ex_lib (l_transport_error ex_loader) (l_glob ex_loader) (l_open ex_loader) p = Inr eh"
    "total_events (h_batches (eh_loaded eh)) = 1"
proof -
  have p: "events_path (P_Path p) \<noteq> []" by (simp add: events_path_def)
  have "\<exists>h. NewAPM ex_lib (events_path (P_Path p)) True (\<lambda>p. Inr [p]) (\<lambda>p. Inr ex_file) = Inr h \<and> total_events (h_batches h) = 1"
    using p by (simp add: NewAPM_def New_def load_file_def ex_file_scan load_line_def APMEventCollector_def
      APM_Filter_def APM_IsMeta_def rumMetaHeader_def metaHeader_def ex_line_def append_event_def Let_def)
  then show thesis using that assms by (auto simp: NewEventHandler_def newAPMEventHandler_def ex_loader_def Let_def)
qed

theorem soak_agent_rate_witness:
  "\<exists>eh. fst (count_passes 3 (logged (handler_env ex_lib ex_outside eh)) (RunForever (eh_config eh)) (eh_loaded eh)
          \<lparr>burst = 20, sent = 0\<rparr> ([], 2))
     \<le> 20 * waits (fst (snd (count_passes 3 (logged (handler_env ex_lib ex_outside eh)) (RunForever (eh_config eh)) (eh_loaded eh)
          \<lparr>burst = 20, sent = 0\<rparr> ([], 2))))"
proof -
  obtain p where p: "getHandlerParams ex_parse_url ex_runner_config (ex_agent ''apm-go'') = Inr p"
    by (auto simp: getHandlerParams_def ex_parse_url_def ex_agent_def ex_rate Let_def)
  then have "P_Protocol p = ''apm/http''"
    using getHandlerParams_protocol[OF p] by (simp add: ex_agent_def agent_protocol_def)
  then obtain eh where eh: "NewEventHandler ex_lib (l_transport_error ex_loader) (l_glob ex_loader) (l_open ex_loader) (p\<lparr>P_Logger := True\<rparr>) = Inr eh"
      "total_events (h_batches (eh_loaded eh)) = 1"
    using ex_events[of "p\<lparr>P_Logger := True\<rparr>"] by auto
  have r: "ParseEventRate (sc_EventRate (ex_agent ''apm-go'')) = Inr (20, 1000000000)" by (simp add: ex_agent_def ex_rate)
  have run: "count_passes 3 env rf h s lw = (fst (count_passes 3 env rf h s lw),
      (fst (snd (count_passes 3 env rf h s lw)), snd (snd (count_passes 3 env rf h s lw))))" for env rf h s and lw :: "action list \<times> nat"
    by simp
  note rate = soak_agent_rate[OF p eh(1) r _ refl refl run]
  have "lim_burst (eh_limiter eh) = 20" using rate eh(2) by simp
  then show ?thesis using rate[of ex_outside 2] eh(2) by auto
qed

end
